(* ===== verification/Nexus_Prelude.thy ===== *)
theory Nexus_Prelude
  imports Main "HOL-Library.Signed_Division" "HOL-Library.Sublist"
begin

text \<open>
  What the component theories share: the names of the model's base types, Go's error values
  and the walk of their \<open>Unwrap\<close> chain, 64-bit integer arithmetic, and the small library for
  code that threads state and may return early (an iterator body, a handler with error
  returns), with the Hoare-style rules and the theorem collections the component proofs use.
\<close>

section \<open>Base types\<close>

text \<open>
  A \<^verbatim>\<open>uuid.UUID\<close> is its 128-bit value read as a number: the canonical string form is fixed-width
  lower-case hexadecimal, so comparing two of those strings compares the numbers. Byte slices
  and \<^verbatim>\<open>json.RawMessage\<close> values are strings of bytes; instants are nanoseconds.
\<close>

type_synonym uuid = nat
type_synonym bytes = string
type_synonym timestamp = int

named_theorems valid_rules \<open>Hoare rules for computations that may return early\<close>
named_theorems port_laws \<open>what the interfaces between components promise\<close>

section \<open>Error values\<close>

text \<open>
  \<open>Err\<close> is an error made from a message; \<open>Wrapped\<close> is \<^verbatim>\<open>fmt.Errorf("msg: %w", err)\<close>. The other
  constructors are the error values and types the sources test for with \<^verbatim>\<open>errors.Is\<close> and
  \<^verbatim>\<open>errors.As\<close>.
\<close>

datatype err =
    Err string
  | Wrapped string err
  | ThrottleError string
  | ContextOverflowError string
  | PermanentError err
  | DeadlineExceeded
  | Canceled
  | UnexpectedEOF

fun err_msg :: "err \<Rightarrow> string" where
  "err_msg (Err s) = s"
| "err_msg (Wrapped s e) = s @ '': '' @ err_msg e"
| "err_msg (ThrottleError s) = ''provider throttled: '' @ s"
| "err_msg (ContextOverflowError s) = ''provider context overflow: '' @ s"
| "err_msg (PermanentError e) = err_msg e"
| "err_msg DeadlineExceeded = ''context deadline exceeded''"
| "err_msg Canceled = ''context canceled''"
| "err_msg UnexpectedEOF = ''unexpected EOF''"

text \<open>The errors \<^verbatim>\<open>errors.Is\<close> and \<^verbatim>\<open>errors.As\<close> visit: the value itself, then what it unwraps to.\<close>

fun err_chain :: "err \<Rightarrow> err list" where
  "err_chain (Wrapped s e) = Wrapped s e # err_chain e"
| "err_chain (PermanentError e) = PermanentError e # err_chain e"
| "err_chain e = [e]"

definition errors_is :: "err \<Rightarrow> err \<Rightarrow> bool" where
  "errors_is e target \<longleftrightarrow> target \<in> set (err_chain e)"

definition errors_as :: "err \<Rightarrow> (err \<Rightarrow> bool) \<Rightarrow> bool" where
  "errors_as e is_typ \<longleftrightarrow> list_ex is_typ (err_chain e)"

text \<open>\<^verbatim>\<open>%q\<close> of a string without quotes, backslashes and control characters.\<close>

definition quoted :: "string \<Rightarrow> string" where
  "quoted s = [CHR 0x22] @ s @ [CHR 0x22]"

text \<open>\<^verbatim>\<open>%d\<close>: decimal digits, with a sign for a negative integer.\<close>

definition digit_char :: "nat \<Rightarrow> char" where
  "digit_char d = char_of (48 + d)"

fun dec_nat :: "nat \<Rightarrow> string" where
  "dec_nat n = (if n < 10 then [digit_char n] else dec_nat (n div 10) @ [digit_char (n mod 10)])"

declare dec_nat.simps [simp del]

definition dec_int :: "int \<Rightarrow> string" where
  "dec_int i = (if i < 0 then ''-'' @ dec_nat (nat (- i)) else dec_nat (nat i))"

text \<open>The UTF-8 bytes of an em dash, which some messages contain.\<close>

definition em_dash :: string where
  "em_dash = [CHR 0xE2, CHR 0x80, CHR 0x94]"

section \<open>64-bit integers\<close>

text \<open>
  Go's \<^verbatim>\<open>int64\<close> (and \<^verbatim>\<open>int\<close> on the 64-bit targets) is an integer in \<open>[-2^63, 2^63)\<close>; every
  operation that can leave the range is followed by \<open>i64\<close>, the two's-complement wrap. Division
  truncates towards zero, which is \<open>sdiv\<close>; the remainder is \<open>smod\<close>.
\<close>

definition i64 :: "int \<Rightarrow> int" where
  "i64 x = (x + 2 ^ 63) mod 2 ^ 64 - 2 ^ 63"

definition in_i64 :: "int \<Rightarrow> bool" where
  "in_i64 x \<longleftrightarrow> - (2 ^ 63) \<le> x \<and> x < 2 ^ 63"

lemma i64_id [simp]: "in_i64 x \<Longrightarrow> i64 x = x"
  by (simp add: i64_def in_i64_def)

lemma in_i64_i64 [simp]: "in_i64 (i64 x)"
  by (simp add: i64_def in_i64_def)

lemma i64_add_left [simp]: "i64 (i64 x + y) = i64 (x + y)"
proof -
  have "(i64 x + y + 2 ^ 63) mod 2 ^ 64 = ((x + 2 ^ 63) mod 2 ^ 64 + y) mod 2 ^ 64"
    by (simp add: i64_def algebra_simps)
  also have "\<dots> = (x + y + 2 ^ 63) mod 2 ^ 64"
    by (simp add: mod_simps algebra_simps)
  finally show ?thesis by (simp add: i64_def)
qed

lemma i64_add_right [simp]: "i64 (x + i64 y) = i64 (x + y)"
  using i64_add_left [of y x] by (simp add: add.commute)

lemma i64_minus_inner [simp]: "i64 (- i64 x) = i64 (- x)"
proof -
  have "(- i64 x + 2 ^ 63) mod 2 ^ 64 = (2 ^ 64 - (x + 2 ^ 63) mod 2 ^ 64) mod 2 ^ 64"
    by (simp add: i64_def algebra_simps)
  also have "\<dots> = (2 ^ 64 - (x + 2 ^ 63)) mod 2 ^ 64"
    by (metis mod_diff_right_eq)
  also have "2 ^ 64 - (x + 2 ^ 63) = - x + 2 ^ 63"
    by simp
  finally show ?thesis by (simp add: i64_def)
qed

lemma i64_diff_left [simp]: "i64 (i64 x - y) = i64 (x - y)"
  using i64_add_left [of x "- y"] by simp

lemma i64_diff_right [simp]: "i64 (x - i64 y) = i64 (x - y)"
  by (metis diff_conv_add_uminus i64_add_right i64_minus_inner)

section \<open>State with early return\<close>

text \<open>
  A Go function body that works on some state and may \<^verbatim>\<open>return\<close> before its end is a function
  from the state to an optional value and the new state; \<open>None\<close> means that the enclosing
  function has returned, so what follows in it is not run.
\<close>

type_synonym ('s, 'a) act = "'s \<Rightarrow> 'a option \<times> 's"

definition ret :: "'a \<Rightarrow> ('s, 'a) act" where
  "ret a s = (Some a, s)"

definition stop :: "('s, 'a) act" where
  "stop s = (None, s)"

definition andthen :: "('s, 'a) act \<Rightarrow> ('a \<Rightarrow> ('s, 'b) act) \<Rightarrow> ('s, 'b) act" where
  "andthen m k s = (case m s of (None, s') \<Rightarrow> (None, s') | (Some a, s') \<Rightarrow> k a s')"

text \<open>\<open>for_each f xs\<close> is \<^verbatim>\<open>for _, x := range xs\<close> with body \<open>f\<close>, which may return from the function.\<close>

fun for_each :: "('x \<Rightarrow> ('s, unit) act) \<Rightarrow> 'x list \<Rightarrow> ('s, unit) act" where
  "for_each f [] = ret ()"
| "for_each f (x # xs) = andthen (f x) (\<lambda>_. for_each f xs)"

text \<open>\<open>collect f xs\<close> is the same loop appending one value per element to a slice.\<close>

fun collect :: "('x \<Rightarrow> ('s, 'y) act) \<Rightarrow> 'x list \<Rightarrow> ('s, 'y list) act" where
  "collect f [] = ret []"
| "collect f (x # xs) = andthen (f x) (\<lambda>y. andthen (collect f xs) (\<lambda>ys. ret (y # ys)))"

text \<open>
  \<open>valid P m Q E\<close>: from a state with \<open>P\<close>, the computation either goes on with a value and a
  state in \<open>Q\<close>, or has returned in a state in \<open>E\<close>. The models are total functions, so this is
  total correctness.
\<close>

definition valid :: "('s \<Rightarrow> bool) \<Rightarrow> ('s, 'a) act \<Rightarrow> ('a \<Rightarrow> 's \<Rightarrow> bool) \<Rightarrow> ('s \<Rightarrow> bool) \<Rightarrow> bool" where
  "valid P m Q E \<longleftrightarrow> (\<forall>s. P s \<longrightarrow> (case m s of (Some a, s') \<Rightarrow> Q a s' | (None, s') \<Rightarrow> E s'))"

lemma valid_ret [valid_rules]: "valid (Q a) (ret a) Q E"
  by (simp add: valid_def ret_def)

lemma valid_stop [valid_rules]: "valid E stop Q E"
  by (simp add: valid_def stop_def)

lemma valid_andthen:
  assumes "valid P m R E" and "\<And>a. valid (R a) (k a) Q E"
  shows "valid P (andthen m k) Q E"
  using assms unfolding valid_def andthen_def
  by (fastforce split: option.splits prod.splits)

lemma valid_pre:
  assumes "valid P' m Q E" and "\<And>s. P s \<Longrightarrow> P' s"
  shows "valid P m Q E"
  using assms by (simp add: valid_def)

lemma valid_post:
  assumes "valid P m Q' E'" and "\<And>a s. Q' a s \<Longrightarrow> Q a s" and "\<And>s. E' s \<Longrightarrow> E s"
  shows "valid P m Q E"
  using assms unfolding valid_def by (fastforce split: option.splits prod.splits)

lemma valid_for_each:
  assumes "\<And>x. x \<in> set xs \<Longrightarrow> valid I (f x) (\<lambda>_. I) E"
  shows "valid I (for_each f xs) (\<lambda>_. I) E"
  using assms
proof (induction xs)
  case Nil
  show ?case by (simp add: valid_ret [of "\<lambda>_. I"])
next
  case (Cons x xs)
  have "valid I (f x) (\<lambda>_. I) E" using Cons.prems by simp
  moreover have "valid I (for_each f xs) (\<lambda>_. I) E" using Cons by simp
  ultimately show ?case by (simp add: valid_andthen)
qed

lemma valid_collect:
  assumes "\<And>x. x \<in> set xs \<Longrightarrow> valid I (f x) (\<lambda>_. I) E"
  shows "valid I (collect f xs) (\<lambda>_. I) E"
  using assms
proof (induction xs)
  case Nil
  show ?case by (simp add: valid_ret [of "\<lambda>_. I"])
next
  case (Cons x xs)
  have fx: "valid I (f x) (\<lambda>_. I) E" using Cons.prems by simp
  have rest: "valid I (collect f xs) (\<lambda>_. I) E" using Cons by simp
  have "valid I (andthen (collect f xs) (\<lambda>ys. ret (y # ys))) (\<lambda>_. I) E" for y
    by (rule valid_andthen [OF rest]) (rule valid_ret [of "\<lambda>_. I"])
  with fx show ?case by (simp add: valid_andthen)
qed

lemma validD:
  assumes "valid P m Q E" and "P s"
  shows "(case m s of (Some a, s') \<Rightarrow> Q a s' | (None, s') \<Rightarrow> E s')"
  using assms by (simp add: valid_def)

text \<open>
  An invariant kept on both exits is the common case: \<open>keeps I m\<close>. Its rules are syntax
  directed and live in \<open>valid_rules\<close>.
\<close>

definition keeps :: "('s \<Rightarrow> bool) \<Rightarrow> ('s, 'a) act \<Rightarrow> bool" where
  "keeps I m \<longleftrightarrow> (\<forall>s. I s \<longrightarrow> I (snd (m s)))"

lemma keeps_ret [valid_rules]: "keeps I (ret a)"
  by (simp add: keeps_def ret_def)

lemma keeps_stop [valid_rules]: "keeps I stop"
  by (simp add: keeps_def stop_def)

lemma keeps_andthen [valid_rules]:
  assumes "keeps I m" and "\<And>a. keeps I (k a)"
  shows "keeps I (andthen m k)"
  using assms by (fastforce simp: keeps_def andthen_def split: option.splits prod.splits)

lemma keeps_for_each [valid_rules]:
  assumes "\<And>x. x \<in> set xs \<Longrightarrow> keeps I (f x)"
  shows "keeps I (for_each f xs)"
  using assms by (induction xs) (auto intro: keeps_ret keeps_andthen)

lemma keeps_collect [valid_rules]:
  assumes "\<And>x. x \<in> set xs \<Longrightarrow> keeps I (f x)"
  shows "keeps I (collect f xs)"
  using assms by (induction xs) (auto intro!: keeps_ret keeps_andthen)

lemma keepsD: "keeps I m \<Longrightarrow> I s \<Longrightarrow> I (snd (m s))"
  by (simp add: keeps_def)

section \<open>Lists\<close>

lemma find_SomeD: "find P xs = Some x \<Longrightarrow> x \<in> set xs \<and> P x"
  by (auto simp: find_Some_iff)

text \<open>\<open>last_such p xs\<close> is the backward scan \<^verbatim>\<open>for i := len(xs)-1; i >= 0; i--\<close> for the first hit.\<close>

definition last_such :: "('a \<Rightarrow> bool) \<Rightarrow> 'a list \<Rightarrow> 'a option" where
  "last_such p xs = find p (rev xs)"

lemma last_such_None_iff [simp]: "last_such p xs = None \<longleftrightarrow> (\<forall>x \<in> set xs. \<not> p x)"
  by (auto simp: last_such_def find_None_iff)

lemma last_such_Nil [simp]: "last_such p [] = None"
  by (simp add: last_such_def)

lemma last_such_snoc [simp]: "last_such p (xs @ [x]) = (if p x then Some x else last_such p xs)"
  by (simp add: last_such_def)

lemma last_such_SomeD: "last_such p xs = Some x \<Longrightarrow> x \<in> set xs \<and> p x"
  by (induction xs rule: rev_induct) (auto split: if_splits)

end
