(* ===== verification/Json_Model.thy ===== *)
theory Json_Model
  imports Nexus_Prelude
begin

text \<open>
  The part of \<^verbatim>\<open>encoding/json\<close> the sources rely on: a parsed value, and decoding it into a struct
  with string fields. An object key matches a field name by case folding, a later duplicate
  wins, \<^verbatim>\<open>null\<close> leaves the field at its zero value, and a value of another kind is an
  \<^verbatim>\<open>UnmarshalTypeError\<close>.
\<close>

datatype json =
    JNull
  | JBool bool
  | JNum string
  | JStr string
  | JArr "json list"
  | JObj "(string \<times> json) list"

definition fold_char :: "char \<Rightarrow> char" where
  "fold_char c = (let n = (of_char c :: nat) in if 65 \<le> n \<and> n \<le> 90 then char_of (n + 32) else c)"

definition equal_fold :: "string \<Rightarrow> string \<Rightarrow> bool" where
  "equal_fold s t \<longleftrightarrow> map fold_char s = map fold_char t"

text \<open>
  \<open>struct_member dec name fs acc\<close> is what one field of a struct holds after the members \<open>fs\<close> have been
  stored, \<open>dec\<close> storing one value of the field's Go type.
\<close>

fun struct_member :: "(json \<Rightarrow> 'a \<Rightarrow> err + 'a) \<Rightarrow> string \<Rightarrow> (string \<times> json) list \<Rightarrow> 'a \<Rightarrow> err + 'a" where
  "struct_member dec name [] acc = Inr acc"
| "struct_member dec name ((k, v) # fs) acc =
     (if equal_fold k name then
        (case dec v acc of Inl er \<Rightarrow> Inl er | Inr acc' \<Rightarrow> struct_member dec name fs acc')
      else struct_member dec name fs acc)"

definition decode_field :: "(json \<Rightarrow> 'a \<Rightarrow> err + 'a) \<Rightarrow> string \<Rightarrow> 'a \<Rightarrow> json \<Rightarrow> err + 'a" where
  "decode_field dec name zero j =
     (case j of
        JObj fs \<Rightarrow> struct_member dec name fs zero
      | JNull \<Rightarrow> Inr zero
      | _ \<Rightarrow> Inl (Err ''json: cannot unmarshal value into Go value of struct type''))"

text \<open>The stores for the field types \<^verbatim>\<open>string\<close> and \<^verbatim>\<open>bool\<close>.\<close>

definition store_string :: "json \<Rightarrow> string \<Rightarrow> err + string" where
  "store_string v acc =
     (case v of
        JStr s \<Rightarrow> Inr s
      | JNull \<Rightarrow> Inr acc
      | _ \<Rightarrow> Inl (Err ''json: cannot unmarshal value into Go struct field of type string''))"

definition store_bool :: "json \<Rightarrow> bool \<Rightarrow> err + bool" where
  "store_bool v acc =
     (case v of
        JBool b \<Rightarrow> Inr b
      | JNull \<Rightarrow> Inr acc
      | _ \<Rightarrow> Inl (Err ''json: cannot unmarshal value into Go struct field of type bool''))"

text \<open>\<open>decode_string name j\<close> is the field \<open>name\<close> after \<^verbatim>\<open>json.Unmarshal\<close> of \<open>j\<close> into a zero struct.\<close>

definition decode_string :: "string \<Rightarrow> json \<Rightarrow> err + string" where
  "decode_string name = decode_field store_string name ''''"

definition decode_bool :: "string \<Rightarrow> json \<Rightarrow> err + bool" where
  "decode_bool name = decode_field store_bool name False"

text \<open>
  \<^verbatim>\<open>json.Marshal\<close> of a struct lists its fields in order; one marked \<^verbatim>\<open>omitempty\<close> is left out when it
  has its zero value.
\<close>

definition omit_string :: "string \<Rightarrow> string \<Rightarrow> (string \<times> json) list" where
  "omit_string name s = (if s = '''' then [] else [(name, JStr s)])"

definition omit_bool :: "string \<Rightarrow> bool \<Rightarrow> (string \<times> json) list" where
  "omit_bool name b = (if b then [(name, JBool True)] else [])"

named_theorems json_fields \<open>reading a marshalled struct back field by field\<close>

lemma struct_member_append [json_fields]:
  "struct_member dec name (fs @ gs) acc =
     (case struct_member dec name fs acc of Inl er \<Rightarrow> Inl er | Inr a \<Rightarrow> struct_member dec name gs a)"
  by (induction fs arbitrary: acc) (auto split: sum.splits)

lemma struct_member_omit_string [json_fields]:
  "struct_member dec name (omit_string n s) acc =
     (if s \<noteq> '''' \<and> equal_fold n name then dec (JStr s) acc else Inr acc)"
  by (simp add: omit_string_def split: sum.splits)

lemma struct_member_omit_bool [json_fields]:
  "struct_member dec name (omit_bool n b) acc =
     (if b \<and> equal_fold n name then dec (JBool True) acc else Inr acc)"
  by (simp add: omit_bool_def split: sum.splits)

lemma decode_string_single [simp]: "decode_string name (JObj [(name, JStr s)]) = Inr s"
  by (simp add: decode_string_def decode_field_def store_string_def equal_fold_def)

end
