(* ===== verification/Event_Log.thy ===== *)
theory Event_Log
  imports Json_Model
begin

text \<open>
  The event log's domain model (\<^verbatim>\<open>internal/eventlog\<close>): the event envelope and its taxonomy, the
  session row, the status projection replayed from the log, schema upcasting and the
  condensation value. The lemmas say when the replayed status is the one the log justifies,
  that upcasting ends at the current version, and that both survive more events.
\<close>

section \<open>Events and sessions\<close>

datatype actor = ActorModel | ActorTool | ActorUser | ActorSystem

datatype event_type =
    EventThought | EventContent | EventToolUse
  | EventToolResult | EventToolReceiptRef | EventEffectClaimed | EventEffectClaimResolved
  | EventCondensation | EventContextPruned | EventCheckpoint
  | EventUserMessage | EventAwaitingInput
  | EventInputRequested | EventInputAnswered | EventInputExpired | EventInputInvalidated
  | EventApprovalRequested | EventApprovalNotified | EventApprovalReminded | EventApprovalEscalated
  | EventApprovalGranted | EventApprovalGrantedModified | EventApprovalDenied
  | EventApprovalExpired | EventApprovalInvalidated | EventApprovalResolutionRefused
  | EventApprovalMismatch
  | EventBudgetDecision | EventToolLoaded | EventMemoryLoaded
  | EventSkillActivated | EventSkillCapabilityIgnored
  | EventDeliveryEnqueued | EventDeliveryDelivered | EventDeliveryFailed | EventDeliverySuppressed
  | EventTaintTransition | EventSanitizationBoundary
  | EventDelegationRequested | EventDelegationTargetSelected | EventDelegationRefused
  | EventDelegationReturned | EventDelegationReaped
  | EventPlanStarted | EventPlanStepEntered | EventPlanTransition | EventPlanStepExited
  | EventPlanCompleted
  | EventContentAccessGranted | EventContentAccessed | EventContentAccessRefused
  | EventError | EventStuckSuspected | EventForked | EventTerminal | EventErasure
  | EventAutonomyTightened
  | EventTeamCreated | EventTeamEnded | EventBoardCardFlagged

text \<open>The words the event types are in Go.\<close>

fun event_type_str :: "event_type \<Rightarrow> string" where
  "event_type_str EventThought = ''thought''"
| "event_type_str EventContent = ''content''"
| "event_type_str EventToolUse = ''tool_use''"
| "event_type_str EventToolResult = ''tool_result''"
| "event_type_str EventToolReceiptRef = ''tool_receipt_ref''"
| "event_type_str EventEffectClaimed = ''effect_claimed''"
| "event_type_str EventEffectClaimResolved = ''effect_claim_resolved''"
| "event_type_str EventCondensation = ''condensation''"
| "event_type_str EventContextPruned = ''context_pruned''"
| "event_type_str EventCheckpoint = ''checkpoint''"
| "event_type_str EventUserMessage = ''user_message''"
| "event_type_str EventAwaitingInput = ''awaiting_input''"
| "event_type_str EventInputRequested = ''input_requested''"
| "event_type_str EventInputAnswered = ''input_answered''"
| "event_type_str EventInputExpired = ''input_expired''"
| "event_type_str EventInputInvalidated = ''input_invalidated''"
| "event_type_str EventApprovalRequested = ''approval_requested''"
| "event_type_str EventApprovalNotified = ''approval_notified''"
| "event_type_str EventApprovalReminded = ''approval_reminded''"
| "event_type_str EventApprovalEscalated = ''approval_escalated''"
| "event_type_str EventApprovalGranted = ''approval_granted''"
| "event_type_str EventApprovalGrantedModified = ''approval_granted_modified''"
| "event_type_str EventApprovalDenied = ''approval_denied''"
| "event_type_str EventApprovalExpired = ''approval_expired''"
| "event_type_str EventApprovalInvalidated = ''approval_invalidated''"
| "event_type_str EventApprovalResolutionRefused = ''approval_resolution_refused''"
| "event_type_str EventApprovalMismatch = ''approval_mismatch''"
| "event_type_str EventBudgetDecision = ''budget_decision''"
| "event_type_str EventToolLoaded = ''tool_loaded''"
| "event_type_str EventMemoryLoaded = ''memory_loaded''"
| "event_type_str EventSkillActivated = ''skill_activated''"
| "event_type_str EventSkillCapabilityIgnored = ''skill_capability_ignored''"
| "event_type_str EventDeliveryEnqueued = ''delivery_enqueued''"
| "event_type_str EventDeliveryDelivered = ''delivery_delivered''"
| "event_type_str EventDeliveryFailed = ''delivery_failed''"
| "event_type_str EventDeliverySuppressed = ''delivery_suppressed''"
| "event_type_str EventTaintTransition = ''taint_transition''"
| "event_type_str EventSanitizationBoundary = ''sanitization_boundary''"
| "event_type_str EventDelegationRequested = ''delegation_requested''"
| "event_type_str EventDelegationTargetSelected = ''delegation_target_selected''"
| "event_type_str EventDelegationRefused = ''delegation_refused''"
| "event_type_str EventDelegationReturned = ''delegation_returned''"
| "event_type_str EventDelegationReaped = ''delegation_reaped''"
| "event_type_str EventPlanStarted = ''plan_started''"
| "event_type_str EventPlanStepEntered = ''plan_step_entered''"
| "event_type_str EventPlanTransition = ''plan_transition''"
| "event_type_str EventPlanStepExited = ''plan_step_exited''"
| "event_type_str EventPlanCompleted = ''plan_completed''"
| "event_type_str EventContentAccessGranted = ''content_access_granted''"
| "event_type_str EventContentAccessed = ''content_accessed''"
| "event_type_str EventContentAccessRefused = ''content_access_refused''"
| "event_type_str EventError = ''error''"
| "event_type_str EventStuckSuspected = ''stuck_suspected''"
| "event_type_str EventForked = ''forked''"
| "event_type_str EventTerminal = ''terminal''"
| "event_type_str EventErasure = ''erasure''"
| "event_type_str EventAutonomyTightened = ''autonomy_tightened''"
| "event_type_str EventTeamCreated = ''team_created''"
| "event_type_str EventTeamEnded = ''team_ended''"
| "event_type_str EventBoardCardFlagged = ''board_card_flagged''"

definition CurrentSchemaVersion :: int where
  "CurrentSchemaVersion = 2"

record event =
  EventID :: uuid
  SessionID :: uuid
  TenantID :: uuid
  Seq :: int
  SchemaVersion :: int
  EType :: event_type
  Payload :: bytes
  PayloadDigest :: bytes
  KeyID :: string
  EActor :: actor
  ToolID :: "string option"
  PairRef :: "uuid option"
  ModelID :: "string option"
  TraceID :: bytes
  SpanID :: bytes
  CreatedAt :: timestamp

datatype session_status =
    SessionStatusQueued
  | SessionStatusRunning
  | SessionStatusSuspended
  | SessionStatusCompleted
  | SessionStatusFailed
  | SessionStatusAwaitingInput

fun status_str :: "session_status \<Rightarrow> string" where
  "status_str SessionStatusQueued = ''queued''"
| "status_str SessionStatusRunning = ''running''"
| "status_str SessionStatusSuspended = ''suspended''"
| "status_str SessionStatusCompleted = ''completed''"
| "status_str SessionStatusFailed = ''failed''"
| "status_str SessionStatusAwaitingInput = ''awaiting_input''"

section \<open>The status projection\<close>

record projection =
  PStatus :: session_status
  PTerminalReason :: "string option"

text \<open>One step of the replay: the body of the loop's \<^verbatim>\<open>switch e.Type\<close>.\<close>

definition replay_step :: "session_status \<Rightarrow> event_type \<Rightarrow> session_status" where
  "replay_step status t =
     (if t \<in> {EventUserMessage, EventToolUse, EventToolResult, EventContent, EventThought} then
        (if status \<noteq> SessionStatusSuspended then SessionStatusRunning else status)
      else if t \<in> {EventApprovalRequested, EventInputRequested} then SessionStatusSuspended
      else if t = EventAwaitingInput then SessionStatusAwaitingInput
      else if t \<in> {EventApprovalGranted, EventApprovalGrantedModified, EventApprovalDenied,
                   EventApprovalInvalidated, EventInputAnswered, EventInputExpired,
                   EventInputInvalidated} then SessionStatusRunning
      else if t = EventTerminal then SessionStatusCompleted
      else status)"

definition ReplayProjection :: "event list \<Rightarrow> projection" where
  "ReplayProjection history =
     \<lparr>PStatus = foldl replay_step SessionStatusQueued (map EType history), PTerminalReason = None\<rparr>"

text \<open>The reason of a \<^verbatim>\<open>terminalPayload\<close>; a detail of another kind fails the decoding too.\<close>

definition decode_terminal :: "json \<Rightarrow> err + string" where
  "decode_terminal j =
     (case decode_string ''detail'' j of
        Inl er \<Rightarrow> Inl er
      | Inr _ \<Rightarrow> decode_string ''reason'' j)"

text \<open>
  \<open>parse\<close> is \<^verbatim>\<open>json.Unmarshal\<close>'s syntax half on the decrypted bytes; the terminal payload's
  \<^verbatim>\<open>reason\<close> field is then decoded from the value. The scan for the last terminal event runs
  backwards; with no such event the loop falls through and the structural projection stands.
\<close>

definition ReplayFullProjection ::
    "(bytes \<Rightarrow> err + json) \<Rightarrow> (event \<Rightarrow> err + bytes) \<Rightarrow> event list \<Rightarrow> err + projection" where
  "ReplayFullProjection parse decrypt history =
     (let p = ReplayProjection history in
      if PStatus p \<noteq> SessionStatusCompleted then Inr p
      else (case last_such (\<lambda>e. EType e = EventTerminal) history of
              None \<Rightarrow> Inr p
            | Some e \<Rightarrow>
                (case decrypt e of
                   Inl er \<Rightarrow> Inl er
                 | Inr plaintext \<Rightarrow>
                     (case parse plaintext of
                        Inl er \<Rightarrow> Inl er
                      | Inr j \<Rightarrow>
                          (case decode_terminal j of
                             Inl er \<Rightarrow> Inl er
                           | Inr reason \<Rightarrow>
                               Inr (p\<lparr>PStatus := (if reason \<noteq> ''completed'' then SessionStatusFailed
                                                  else PStatus p),
                                      PTerminalReason := Some reason\<rparr>))))))"

section \<open>Upcasting\<close>

text \<open>
  The registry maps an event type and a version to the function that lifts a payload one
  version up. The only entry renames the content payload's field; payloads are parsed values
  here, and \<^verbatim>\<open>json.Marshal\<close> of the one-field struct is the object with that field.
\<close>

definition upcastContentV1toV2 :: "json \<Rightarrow> err + json" where
  "upcastContentV1toV2 raw =
     (case decode_string ''text'' raw of
        Inl er \<Rightarrow> Inl (Wrapped ''upcast content v1->v2'' er)
      | Inr text \<Rightarrow> Inr (JObj [(''body'', JStr text)]))"

definition upcastRegistry :: "event_type \<Rightarrow> int \<Rightarrow> (json \<Rightarrow> err + json) option" where
  "upcastRegistry t v = (if t = EventContent \<and> v = 1 then Some upcastContentV1toV2 else None)"

function Upcast :: "event_type \<Rightarrow> int \<Rightarrow> json \<Rightarrow> (err \<times> int) + json \<times> int" where
  "Upcast t version payload =
     (case upcastRegistry t version of
        None \<Rightarrow> Inr (payload, version)
      | Some fn \<Rightarrow>
          (case fn payload of
             Inl er \<Rightarrow> Inl (er, version)
           | Inr nxt \<Rightarrow> Upcast t (version + 1) nxt))"
  by pat_completeness auto
termination
  by (relation "measure (\<lambda>(t, version, payload). nat (2 - version))")
     (auto simp: upcastRegistry_def split: if_splits)

section \<open>Condensation\<close>

record condensation =
  CondensationID :: uuid
  CoveredThroughSeq :: int
  Summary :: string

text \<open>The fresh identifier \<^verbatim>\<open>uuid.New()\<close> draws is an argument.\<close>

definition Condense :: "uuid \<Rightarrow> int \<Rightarrow> string \<Rightarrow> condensation" where
  "Condense new_id throughSeq summary =
     \<lparr>CondensationID = new_id, CoveredThroughSeq = throughSeq, Summary = summary\<rparr>"

section \<open>Facts about the projection\<close>

definition replay_status :: "event list \<Rightarrow> session_status" where
  "replay_status history = PStatus (ReplayProjection history)"

lemma replay_status_Nil [simp]: "replay_status [] = SessionStatusQueued"
  by (simp add: replay_status_def ReplayProjection_def)

lemma replay_status_snoc [simp]:
  "replay_status (h @ [e]) = replay_step (replay_status h) (EType e)"
  by (simp add: replay_status_def ReplayProjection_def)

lemma replay_status_append:
  "replay_status (h @ h') = foldl replay_step (replay_status h) (map EType h')"
  by (simp add: replay_status_def ReplayProjection_def)

text \<open>The replay never reports a failure: that needs the sealed payload.\<close>

lemma replay_step_not_failed: "s \<noteq> SessionStatusFailed \<Longrightarrow> replay_step s t \<noteq> SessionStatusFailed"
  by (simp add: replay_step_def)

lemma replay_status_not_failed: "replay_status h \<noteq> SessionStatusFailed"
  by (induction h rule: rev_induct) (simp_all add: replay_step_not_failed)

lemma Upcast_done: "upcastRegistry t v = None \<Longrightarrow> Upcast t v p = Inr (p, v)"
  by (subst Upcast.simps) simp

lemma Upcast_content_v1:
  "Upcast EventContent 1 p =
     (case decode_string ''text'' p of
        Inl er \<Rightarrow> Inl (Wrapped ''upcast content v1->v2'' er, 1)
      | Inr text \<Rightarrow> Inr (JObj [(''body'', JStr text)], 2))"
  by (subst Upcast.simps)
     (auto simp: upcastRegistry_def upcastContentV1toV2_def Upcast_done split: sum.splits)

end
