(* ===== verification/Money.thy ===== *)
theory Money
  imports Nexus_Prelude
begin

text \<open>
  Exact money (\<^verbatim>\<open>internal/cost/money.go\<close>): amounts in currency micros, kept at their 64-bit
  width, with the decimal printer and parser and the one rounding point. The lemmas give the
  printer's and the parser's behaviour on digits, the round trip between them, and the
  rounding bounds of a price.
\<close>

section \<open>Decimal digits\<close>

text \<open>\<^verbatim>\<open>%06d\<close> of \<^verbatim>\<open>fmt\<close>, and \<^verbatim>\<open>strconv.ParseInt(s, 10, 63)\<close>.\<close>

definition dec_pad6 :: "nat \<Rightarrow> string" where
  "dec_pad6 n = replicate (6 - length (dec_nat n)) (CHR ''0'') @ dec_nat n"

definition char_digit :: "char \<Rightarrow> nat option" where
  "char_digit c = (let n = (of_char c :: nat) in if 48 \<le> n \<and> n \<le> 57 then Some (n - 48) else None)"

definition digits_step :: "nat option \<Rightarrow> char \<Rightarrow> nat option" where
  "digits_step acc c =
     (case acc of None \<Rightarrow> None | Some v \<Rightarrow> map_option (\<lambda>d. 10 * v + d) (char_digit c))"

definition digits_val :: "string \<Rightarrow> nat option" where
  "digits_val s = (if s = [] then None else foldl digits_step (Some 0) s)"

definition parse_int63 :: "string \<Rightarrow> err + int" where
  "parse_int63 s =
     (let (neg, body) = (case s of
            c # cs \<Rightarrow> if c = CHR ''-'' then (True, cs) else if c = CHR ''+'' then (False, cs) else (False, s)
          | [] \<Rightarrow> (False, [])) in
      case digits_val body of
        None \<Rightarrow> Inl (Err ''strconv.ParseInt: invalid syntax'')
      | Some v \<Rightarrow>
          if (if neg then v > 2 ^ 62 else v \<ge> 2 ^ 62) then Inl (Err ''strconv.ParseInt: value out of range'')
          else Inr (if neg then - int v else int v))"

section \<open>Money\<close>

definition MicrosPerUnit :: int where
  "MicrosPerUnit = 1000000"

record money =
  Micros :: int
  Currency :: string

definition Zero :: "string \<Rightarrow> money" where
  "Zero currency = \<lparr>Micros = 0, Currency = currency\<rparr>"

text \<open>The zero value \<^verbatim>\<open>Money{}\<close> that accompanies an error.\<close>

definition no_money :: money where
  "no_money = \<lparr>Micros = 0, Currency = ''''\<rparr>"

definition checkCurrency :: "money \<Rightarrow> money \<Rightarrow> err option" where
  "checkCurrency m other =
     (if Currency m \<noteq> Currency other
      then Some (Err (''cost: currency mismatch: '' @ Currency m @ '' vs '' @ Currency other))
      else None)"

text \<open>The callers of \<^verbatim>\<open>Add\<close> that drop its error still see its value, so it returns both.\<close>

definition Add :: "money \<Rightarrow> money \<Rightarrow> money \<times> err option" where
  "Add m other =
     (case checkCurrency m other of
        Some er \<Rightarrow> (no_money, Some er)
      | None \<Rightarrow> (\<lparr>Micros = i64 (Micros m + Micros other), Currency = Currency m\<rparr>, None))"

definition Sub :: "money \<Rightarrow> money \<Rightarrow> money \<times> err option" where
  "Sub m other =
     (case checkCurrency m other of
        Some er \<Rightarrow> (no_money, Some er)
      | None \<Rightarrow> (\<lparr>Micros = i64 (Micros m - Micros other), Currency = Currency m\<rparr>, None))"

definition Cmp :: "money \<Rightarrow> money \<Rightarrow> int \<times> err option" where
  "Cmp m other =
     (case checkCurrency m other of
        Some er \<Rightarrow> (0, Some er)
      | None \<Rightarrow> (if Micros m < Micros other then -1 else if Micros m > Micros other then 1 else 0, None))"

definition money_String :: "money \<Rightarrow> string" where
  "money_String m =
     (let whole = Micros m sdiv MicrosPerUnit;
          frac = Micros m smod MicrosPerUnit;
          frac = (if frac < 0 then - frac else frac)
      in dec_int whole @ ''.'' @ dec_pad6 (nat frac) @ '' '' @ Currency m)"

text \<open>
  \<^verbatim>\<open>strings.TrimSpace\<close>: the UTF-8 encodings of the code points \<^verbatim>\<open>unicode.IsSpace\<close> accepts are
  removed from both ends.
\<close>

definition space_runes :: "string list" where
  "space_runes =
     [[CHR 0x09], [CHR 0x0A], [CHR 0x0B], [CHR 0x0C], [CHR 0x0D], [CHR 0x20],
      [CHR 0xC2, CHR 0x85], [CHR 0xC2, CHR 0xA0], [CHR 0xE1, CHR 0x9A, CHR 0x80],
      [CHR 0xE2, CHR 0x80, CHR 0xA8], [CHR 0xE2, CHR 0x80, CHR 0xA9], [CHR 0xE2, CHR 0x80, CHR 0xAF],
      [CHR 0xE2, CHR 0x81, CHR 0x9F], [CHR 0xE3, CHR 0x80, CHR 0x80]]
     @ map (\<lambda>n. [CHR 0xE2, CHR 0x80, char_of n]) [0x80 ..< 0x8B]"

fun strip :: "nat \<Rightarrow> string list \<Rightarrow> string \<Rightarrow> string" where
  "strip 0 ps s = s"
| "strip (Suc n) ps s =
     (case find (\<lambda>p. prefix p s) ps of None \<Rightarrow> s | Some p \<Rightarrow> strip n ps (drop (length p) s))"

definition trim_space :: "string \<Rightarrow> string" where
  "trim_space s =
     (let l = strip (length s) space_runes s
      in rev (strip (length l) (map rev space_runes) (rev l)))"

text \<open>\<^verbatim>\<open>strings.Cut(s, ".")\<close>: what precedes and what follows the first full stop.\<close>

definition cut_dot :: "string \<Rightarrow> string \<times> string" where
  "cut_dot s = (takeWhile (\<lambda>c. c \<noteq> CHR ''.'') s, drop 1 (dropWhile (\<lambda>c. c \<noteq> CHR ''.'') s))"

definition ParseDecimal :: "string \<Rightarrow> string \<Rightarrow> err + money" where
  "ParseDecimal s0 currency =
     (let s1 = trim_space s0 in
      if s1 = '''' then Inl (Err ''cost: empty decimal amount'')
      else
        let (neg, s) = (if hd s1 = CHR ''-'' then (True, tl s1) else (False, s1));
            (whole0, frac0) = cut_dot s;
            whole = (if whole0 = '''' then ''0'' else whole0)
        in if length frac0 > 6
           then Inl (Err (''cost: '' @ quoted s @ '' has more than 6 fractional digits (finer than the Micros scale)''))
           else
             let frac = frac0 @ replicate (6 - length frac0) (CHR ''0'') in
             case parse_int63 whole of
               Inl er \<Rightarrow> Inl (Wrapped (''cost: invalid decimal amount '' @ quoted s) er)
             | Inr wholePart \<Rightarrow>
                 (case parse_int63 frac of
                    Inl er \<Rightarrow> Inl (Wrapped (''cost: invalid decimal amount '' @ quoted s) er)
                  | Inr fracPart \<Rightarrow>
                      let micros = i64 (i64 (wholePart * MicrosPerUnit) + fracPart)
                      in Inr \<lparr>Micros = (if neg then i64 (- micros) else micros), Currency = currency\<rparr>))"

definition PriceQuantity :: "int \<Rightarrow> int \<Rightarrow> string \<Rightarrow> money" where
  "PriceQuantity quantity pricePerMillionMicros currency =
     (if quantity = 0 \<or> pricePerMillionMicros = 0 then Zero currency
      else
        let product = i64 (quantity * pricePerMillionMicros);
            rounded = i64 (product + 500000) sdiv 1000000
        in \<lparr>Micros = rounded, Currency = currency\<rparr>)"

section \<open>Digits\<close>

lemma of_digit_char: "d < 10 \<Longrightarrow> (of_char (digit_char d) :: nat) = 48 + d"
  by (simp add: digit_char_def)

lemma char_digit_digit_char [simp]: "d < 10 \<Longrightarrow> char_digit (digit_char d) = Some d"
  by (simp add: char_digit_def of_digit_char)

lemma digits_fold_dec_nat: "foldl digits_step (Some 0) (dec_nat n) = Some n"
proof (induction n rule: dec_nat.induct)
  case (1 n)
  then show ?case
    by (cases "n < 10") (simp_all add: dec_nat.simps [of n] digits_step_def)
qed

lemma dec_nat_not_Nil [simp]: "dec_nat n \<noteq> []"
  by (subst dec_nat.simps) simp

definition is_digit :: "char \<Rightarrow> bool" where
  "is_digit c \<longleftrightarrow> char_digit c \<noteq> None"

lemma dec_nat_digits: "list_all is_digit (dec_nat n)"
proof (induction n rule: dec_nat.induct)
  case (1 n)
  then show ?case
    by (cases "n < 10") (simp_all add: dec_nat.simps [of n] is_digit_def)
qed

lemma digits_val_dec_nat [simp]: "digits_val (dec_nat n) = Some n"
  by (simp add: digits_val_def digits_fold_dec_nat)

lemma digits_fold_zeros: "foldl digits_step (Some 0) (replicate k (CHR ''0'')) = Some 0"
  by (induction k) (simp_all add: digits_step_def char_digit_def)

lemma digits_val_pad6 [simp]: "digits_val (dec_pad6 n) = Some n"
  by (simp add: digits_val_def dec_pad6_def digits_fold_zeros digits_fold_dec_nat)

lemma dec_pad6_digits: "list_all is_digit (dec_pad6 n)"
proof -
  have "is_digit (CHR ''0'')" by (simp add: is_digit_def char_digit_def)
  with dec_nat_digits [of n] show ?thesis by (auto simp: dec_pad6_def list_all_iff)
qed

lemma dec_pad6_not_Nil [simp]: "dec_pad6 n \<noteq> []"
  by (simp add: dec_pad6_def)

lemma length_dec_nat: "n < 10 ^ k \<Longrightarrow> 0 < k \<Longrightarrow> length (dec_nat n) \<le> k"
proof (induction n arbitrary: k rule: dec_nat.induct)
  case (1 n)
  show ?case
  proof (cases "n < 10")
    case True
    with 1 show ?thesis by (simp add: dec_nat.simps [of n])
  next
    case False
    with 1 obtain j where j: "k = Suc j" by (cases k) auto
    with 1 False have "n div 10 < 10 ^ j" "0 < j"
      by (auto intro: ccontr [of "0 < j"])
    with 1(1) [OF False] have "length (dec_nat (n div 10)) \<le> j" by simp
    with False j show ?thesis by (simp add: dec_nat.simps [of n])
  qed
qed

lemma length_dec_pad6: "n < 1000000 \<Longrightarrow> length (dec_pad6 n) = 6"
  using length_dec_nat [of n 6] by (simp add: dec_pad6_def)

lemma parse_int63_digits:
  assumes "list_all is_digit s" and "digits_val s = Some v" and "v < 2 ^ 62"
  shows "parse_int63 s = Inr (int v)"
proof -
  from assms(2) obtain c cs where s: "s = c # cs"
    by (cases s) (simp_all add: digits_val_def)
  with assms(1) have "is_digit c" by simp
  then have "c \<noteq> CHR ''-''" "c \<noteq> CHR ''+''"
    by (auto simp: is_digit_def char_digit_def)
  with s assms show ?thesis by (simp add: parse_int63_def)
qed

section \<open>Trimming\<close>

lemma strip_no_prefix: "list_all (\<lambda>p. \<not> prefix p s) ps \<Longrightarrow> strip n ps s = s"
  by (cases n) (auto simp: list_all_iff find_None_iff [THEN iffD2] split: option.splits)

text \<open>The characters of a printed amount: minus sign, full stop and digits (code 47 is unused).\<close>

definition amount_char :: "char \<Rightarrow> bool" where
  "amount_char c \<longleftrightarrow> (let n = (of_char c :: nat) in 45 \<le> n \<and> n \<le> 57)"

lemma is_digit_amount: "is_digit c \<Longrightarrow> amount_char c"
  by (auto simp: is_digit_def char_digit_def amount_char_def Let_def split: if_splits)

lemma space_runes_no_amount:
  "list_all (\<lambda>p. p \<noteq> [] \<and> list_all (\<lambda>c. \<not> amount_char c) p) space_runes"
  by code_simp

lemma no_space_prefix:
  assumes "list_all amount_char s" and "s \<noteq> []"
  shows "list_all (\<lambda>p. \<not> prefix p s) space_runes"
    and "list_all (\<lambda>p. \<not> prefix p s) (map rev space_runes)"
  using space_runes_no_amount assms
  by (fastforce simp: list_all_iff prefix_def neq_Nil_conv)+

lemma trim_space_amount: "list_all amount_char s \<Longrightarrow> trim_space s = s"
  by (cases "s = []")
     (simp_all add: trim_space_def strip_no_prefix no_space_prefix list_all_rev)

section \<open>Printing and parsing\<close>

lemma dec_nat_no_dot [simp]: "CHR ''.'' \<notin> set (dec_nat n)" "CHR '' '' \<notin> set (dec_nat n)"
    "CHR ''-'' \<notin> set (dec_nat n)"
  using dec_nat_digits [of n] by (auto simp: list_all_iff is_digit_def char_digit_def dest!: bspec)

lemma dec_pad6_no_space [simp]: "CHR '' '' \<notin> set (dec_pad6 n)"
  using dec_pad6_digits [of n] by (auto simp: list_all_iff is_digit_def char_digit_def dest!: bspec)

lemma takeWhile_upto: "c \<notin> set xs \<Longrightarrow> takeWhile (\<lambda>x. x \<noteq> c) (xs @ c # ys) = xs"
  by (induction xs) auto

lemma dropWhile_upto: "c \<notin> set xs \<Longrightarrow> dropWhile (\<lambda>x. x \<noteq> c) (xs @ c # ys) = c # ys"
  by (induction xs) auto

lemma cut_dot_printed [simp]: "cut_dot (dec_nat w @ CHR ''.'' # r) = (dec_nat w, r)"
  by (simp add: cut_dot_def takeWhile_upto dropWhile_upto)

lemma hd_dec_nat [simp]: "hd (dec_nat w) \<noteq> CHR ''-''"
  by (metis dec_nat_no_dot(3) dec_nat_not_Nil hd_in_set)

lemma amount_chars_printed:
  "list_all amount_char (dec_nat w @ CHR ''.'' # dec_pad6 f)"
  "list_all amount_char (CHR ''-'' # dec_nat w @ CHR ''.'' # dec_pad6 f)"
proof -
  have "amount_char (CHR ''.'')" "amount_char (CHR ''-'')" by (simp_all add: amount_char_def)
  with dec_nat_digits [of w] dec_pad6_digits [of f]
  show "list_all amount_char (dec_nat w @ CHR ''.'' # dec_pad6 f)"
    "list_all amount_char (CHR ''-'' # dec_nat w @ CHR ''.'' # dec_pad6 f)"
    by (auto simp: list_all_iff is_digit_amount)
qed

lemma ParseDecimal_printed:
  assumes "w < 2 ^ 62" and "f < 1000000"
  shows "ParseDecimal (dec_nat w @ CHR ''.'' # dec_pad6 f) cur =
           Inr \<lparr>Micros = i64 (int w * 1000000 + int f), Currency = cur\<rparr>"
    and "ParseDecimal (CHR ''-'' # dec_nat w @ CHR ''.'' # dec_pad6 f) cur =
           Inr \<lparr>Micros = i64 (- (int w * 1000000 + int f)), Currency = cur\<rparr>"
proof -
  have f62: "f < 2 ^ 62" using assms(2) by simp
  note parsed = parse_int63_digits [OF dec_nat_digits digits_val_dec_nat assms(1)]
    parse_int63_digits [OF dec_pad6_digits digits_val_pad6 f62]
    trim_space_amount [OF amount_chars_printed(1)] trim_space_amount [OF amount_chars_printed(2)]
  show "ParseDecimal (dec_nat w @ CHR ''.'' # dec_pad6 f) cur =
          Inr \<lparr>Micros = i64 (int w * 1000000 + int f), Currency = cur\<rparr>"
    by (simp add: ParseDecimal_def parsed Let_def
          length_dec_pad6 [OF assms(2)] MicrosPerUnit_def)
  show "ParseDecimal (CHR ''-'' # dec_nat w @ CHR ''.'' # dec_pad6 f) cur =
          Inr \<lparr>Micros = i64 (- (int w * 1000000 + int f)), Currency = cur\<rparr>"
    by (simp add: ParseDecimal_def parsed Let_def
          length_dec_pad6 [OF assms(2)] MicrosPerUnit_def)
qed

text \<open>The decimal part of a printed amount, up to the blank before the currency.\<close>

definition amount_text :: "money \<Rightarrow> string" where
  "amount_text m = takeWhile (\<lambda>c. c \<noteq> CHR '' '') (money_String m)"

lemma sdiv_micros: "(x :: int) sdiv 1000000 = sgn x * (\<bar>x\<bar> div 1000000)"
  by (simp add: signed_divide_int_def)

lemma abs_smod_micros: "\<bar>(x :: int) smod 1000000\<bar> = \<bar>x\<bar> mod 1000000"
  by (cases x "0 :: int" rule: linorder_cases) (simp_all add: signed_modulo_int_def sdiv_micros minus_mult_div_eq_mod)

lemma dec_int_whole:
  "dec_int (x sdiv 1000000) =
     (if x \<le> - 1000000 then ''-'' else '''') @ dec_nat (nat (\<bar>x\<bar> div 1000000))"
  unfolding sdiv_micros
  by (cases x "0 :: int" rule: linorder_cases) (auto simp: dec_int_def)

lemma amount_text_eq:
  "amount_text m =
     (if Micros m \<le> - 1000000 then ''-'' else '''') @ dec_nat (nat (\<bar>Micros m\<bar> div 1000000))
       @ CHR ''.'' # dec_pad6 (nat (\<bar>Micros m\<bar> mod 1000000))"
proof -
  have abs: "(if x < 0 then - x else x) = \<bar>x\<bar>" for x :: int by simp
  let ?t = "(if Micros m \<le> - 1000000 then ''-'' else '''') @ dec_nat (nat (\<bar>Micros m\<bar> div 1000000))
       @ CHR ''.'' # dec_pad6 (nat (\<bar>Micros m\<bar> mod 1000000))"
  have "money_String m = ?t @ CHR '' '' # Currency m"
    unfolding money_String_def Let_def MicrosPerUnit_def abs abs_smod_micros dec_int_whole by simp
  moreover have "CHR '' '' \<notin> set ?t" by simp
  ultimately have "amount_text m = ?t"
    using takeWhile_upto [of "CHR '' ''" ?t] unfolding amount_text_def by metis
  then show ?thesis .
qed

text \<open>
  C23: parsing a printed amount gives the amount back, over the whole 64-bit range, except for
  the negative amounts of less than one unit.
\<close>

theorem ParseDecimal_money_String:
  assumes "in_i64 (Micros m)" and "\<not> (- 1000000 < Micros m \<and> Micros m < 0)"
  shows "ParseDecimal (amount_text m) (Currency m) = Inr m"
proof -
  let ?w = "nat (\<bar>Micros m\<bar> div 1000000)" and ?f = "nat (\<bar>Micros m\<bar> mod 1000000)"
  have bounds: "?w < 2 ^ 62" "?f < 1000000"
    using assms(1) by (auto simp: in_i64_def nat_less_iff)
  have sum: "int ?w * 1000000 + int ?f = \<bar>Micros m\<bar>"
    by (simp add: pos_imp_zdiv_nonneg_iff)
  show ?thesis
    using assms ParseDecimal_printed [OF bounds, of "Currency m"]
    unfolding amount_text_eq sum by (cases "Micros m < 0") simp_all
qed

theorem ParseDecimal_money_String_witness:
  "ParseDecimal (amount_text \<lparr>Micros = - 1500000, Currency = ''USD''\<rparr>) ''USD'' =
     Inr \<lparr>Micros = - 1500000, Currency = ''USD''\<rparr>"
  using ParseDecimal_money_String [of "\<lparr>Micros = - 1500000, Currency = ''USD''\<rparr>"]
  by (simp add: in_i64_def)

text \<open>
  the printed form of a negative amount of less than one unit has no sign, so it is the
  printed form of the opposite amount.
\<close>

theorem money_String_drops_sign:
  assumes "- 1000000 < x" and "x < 0"
  shows "money_String \<lparr>Micros = x, Currency = cur\<rparr> = money_String \<lparr>Micros = - x, Currency = cur\<rparr>"
  using assms dec_int_whole [of x] dec_int_whole [of "- x"] abs_smod_micros [of x] abs_smod_micros [of "- x"]
  by (simp add: money_String_def Let_def MicrosPerUnit_def signed_modulo_int_def sdiv_micros)

theorem money_String_drops_sign_witness:
  "money_String \<lparr>Micros = - 50000, Currency = ''USD''\<rparr> = money_String \<lparr>Micros = 50000, Currency = ''USD''\<rparr>"
  using money_String_drops_sign [of "- 50000" "''USD''"] by simp

section \<open>Pricing\<close>

lemma div_micros_bounds: "1000000 * (x div 1000000) \<le> x \<and> x < 1000000 * (x div 1000000 + 1)" for x :: int
  by presburger

lemma sdiv_micros_neg: "x < 0 \<Longrightarrow> 1000000 * (x sdiv 1000000 - 1) < x \<and> x \<le> 1000000 * (x sdiv 1000000)" for x :: int
  using div_micros_bounds [of "- x"] by (simp add: sdiv_micros sgn_if)

lemma PriceQuantity_Micros:
  assumes "in_i64 (q * p + 500000)"
  shows "Micros (PriceQuantity q p cur) = (q * p + 500000) sdiv 1000000"
  using assms by (auto simp: PriceQuantity_def Let_def Zero_def sdiv_micros sgn_if)

text \<open>
  C22: provided the product of quantity and price, plus the half million the code adds to it, is
  within the signed 64-bit range, the price is that sum divided by a million.  Where the sum is not
  negative, in particular for every non-negative quantity and price, the product is rounded half
  up: a million times the result exceeds it by at most half a million and falls short of it by
  strictly less.  Where the sum is negative the division truncates towards zero, so a million times
  the result is at least the sum and less than a million above it.
\<close>

theorem PriceQuantity_rounds_half_up:
  assumes "in_i64 (q * p + 500000)"
  shows "Currency (PriceQuantity q p cur) = cur \<and>
         (if 0 \<le> q * p + 500000
          then 1000000 * Micros (PriceQuantity q p cur) \<le> q * p + 500000 \<and>
               q * p + 500000 < 1000000 * (Micros (PriceQuantity q p cur) + 1)
          else 1000000 * (Micros (PriceQuantity q p cur) - 1) < q * p + 500000 \<and>
               q * p + 500000 \<le> 1000000 * Micros (PriceQuantity q p cur))"
proof -
  let ?x = "q * p + 500000"
  have "Currency (PriceQuantity q p cur) = cur" by (simp add: PriceQuantity_def Let_def Zero_def)
  moreover have "?x sdiv 1000000 = ?x div 1000000" if "0 \<le> ?x"
    using that by (simp add: sdiv_micros sgn_if)
  ultimately show ?thesis
    using PriceQuantity_Micros [OF assms] div_micros_bounds [of ?x] sdiv_micros_neg [of ?x] by simp
qed

theorem PriceQuantity_rounds_half_up_witness:
  "Micros (PriceQuantity 1500 3000000 ''USD'') = 4500 \<and> Micros (PriceQuantity (- 1) 2500000 ''USD'') = - 2"
  using PriceQuantity_rounds_half_up [of 1500 3000000 "''USD''"]
    PriceQuantity_rounds_half_up [of "- 1" 2500000 "''USD''"]
  by (simp add: in_i64_def)

lemma PriceQuantity_nonneg:
  assumes "0 \<le> q" and "0 \<le> p" and "in_i64 (q * p + 500000)"
  shows "0 \<le> Micros (PriceQuantity q p cur)"
proof -
  have "0 \<le> q * p" using assms by simp
  then show ?thesis
    using assms by (simp add: PriceQuantity_def Let_def sdiv_micros Zero_def sgn_if pos_imp_zdiv_nonneg_iff)
qed

lemma Add_same [simp]:
  "Currency m = Currency n \<Longrightarrow> Add m n = (\<lparr>Micros = i64 (Micros m + Micros n), Currency = Currency m\<rparr>, None)"
  by (simp add: Add_def checkCurrency_def)

lemma Sub_same [simp]:
  "Currency m = Currency n \<Longrightarrow> Sub m n = (\<lparr>Micros = i64 (Micros m - Micros n), Currency = Currency m\<rparr>, None)"
  by (simp add: Sub_def checkCurrency_def)

lemma Add_other: "Currency m \<noteq> Currency n \<Longrightarrow> \<exists>er. Add m n = (no_money, Some er)"
  by (simp add: Add_def checkCurrency_def)

end
