(* ===== verification/Price_Book.thy ===== *)
theory Price_Book
  imports Money
begin

text \<open>
  Meters and the versioned price book (\<^verbatim>\<open>internal/cost/meter.go\<close>, \<^verbatim>\<open>internal/cost/pricebook.go\<close>).
  The lemmas characterise the entry a lookup picks: it is one of the entries in force, an
  entry for the exact subject whenever there is one, and the highest version among its kind.
\<close>

section \<open>Meters\<close>

type_synonym meter_id = string

definition MeterInputUncached :: meter_id where "MeterInputUncached = ''input_uncached''"
definition MeterInputCacheRead :: meter_id where "MeterInputCacheRead = ''input_cache_read''"
definition MeterInputCacheWrite :: meter_id where "MeterInputCacheWrite = ''input_cache_write''"
definition MeterOutput :: meter_id where "MeterOutput = ''output''"
definition MeterSandboxSeconds :: meter_id where "MeterSandboxSeconds = ''sandbox_seconds''"
definition MeterToolInvocations :: meter_id where "MeterToolInvocations = ''tool_invocations''"
definition MeterEmbeddingTokens :: meter_id where "MeterEmbeddingTokens = ''embedding_tokens''"
definition MeterUnreportedReservation :: meter_id where
  "MeterUnreportedReservation = ''unreported_reservation''"

lemmas meter_defs = MeterInputUncached_def MeterInputCacheRead_def MeterInputCacheWrite_def
  MeterOutput_def MeterSandboxSeconds_def MeterToolInvocations_def MeterEmbeddingTokens_def
  MeterUnreportedReservation_def

record meter =
  MeterID :: meter_id
  Unit :: string
  Reservable :: bool

type_synonym meter_registry = "meter_id \<rightharpoonup> meter"

definition DefaultMeters :: meter_registry where
  "DefaultMeters =
     foldl (\<lambda>r m. r(MeterID m \<mapsto> m)) Map.empty
       [\<lparr>MeterID = MeterInputUncached, Unit = ''tokens'', Reservable = True\<rparr>,
        \<lparr>MeterID = MeterInputCacheRead, Unit = ''tokens'', Reservable = True\<rparr>,
        \<lparr>MeterID = MeterInputCacheWrite, Unit = ''tokens'', Reservable = True\<rparr>,
        \<lparr>MeterID = MeterOutput, Unit = ''tokens'', Reservable = True\<rparr>,
        \<lparr>MeterID = MeterEmbeddingTokens, Unit = ''tokens'', Reservable = True\<rparr>,
        \<lparr>MeterID = MeterSandboxSeconds, Unit = ''seconds'', Reservable = False\<rparr>,
        \<lparr>MeterID = MeterToolInvocations, Unit = ''count'', Reservable = False\<rparr>]"

definition meter_Lookup :: "meter_registry \<Rightarrow> meter_id \<Rightarrow> meter option" where
  "meter_Lookup r mid = r mid"

definition meter_All :: "meter_registry \<Rightarrow> meter list" where
  "meter_All r =
     List.map_filter r
       [MeterInputUncached, MeterInputCacheRead, MeterInputCacheWrite, MeterOutput,
        MeterEmbeddingTokens, MeterSandboxSeconds, MeterToolInvocations]"

section \<open>The price book\<close>

definition WildcardSubject :: string where
  "WildcardSubject = ''*''"

record price_book_entry =
  EntryID :: uuid
  EntryMeter :: meter_id
  Subject :: string
  Version :: int
  EntryCurrency :: string
  PricePerMillionMicros :: int
  EffectiveFrom :: timestamp
  EffectiveUntil :: "timestamp option"

type_synonym price_book = "price_book_entry list"

definition coversSubject :: "price_book_entry \<Rightarrow> string \<Rightarrow> bool" where
  "coversSubject e subject \<longleftrightarrow> Subject e = subject \<or> Subject e = WildcardSubject"

definition coversTime :: "price_book_entry \<Rightarrow> timestamp \<Rightarrow> bool" where
  "coversTime e at =
     (if at < EffectiveFrom e then False
      else case EffectiveUntil e of None \<Rightarrow> True | Some u \<Rightarrow> at < u)"

text \<open>
  \<^verbatim>\<open>sort.Slice\<close> on a comparison: insertion sort, which is what the library runs on up to twelve
  elements. What is proved about the lookup does not depend on the order of equal elements.
\<close>

fun insert_slice :: "('a \<Rightarrow> 'a \<Rightarrow> bool) \<Rightarrow> 'a \<Rightarrow> 'a list \<Rightarrow> 'a list" where
  "insert_slice lt x [] = [x]"
| "insert_slice lt x (y # ys) = (if lt y x then y # insert_slice lt x ys else x # y # ys)"

definition sort_slice :: "('a \<Rightarrow> 'a \<Rightarrow> bool) \<Rightarrow> 'a list \<Rightarrow> 'a list" where
  "sort_slice lt xs = foldr (insert_slice lt) xs []"

definition entry_before :: "string \<Rightarrow> price_book_entry \<Rightarrow> price_book_entry \<Rightarrow> bool" where
  "entry_before subject a b =
     (let aExact = (Subject a = subject); bExact = (Subject b = subject) in
      if aExact \<noteq> bExact then aExact else Version a > Version b)"

definition candidates :: "price_book \<Rightarrow> meter_id \<Rightarrow> string \<Rightarrow> timestamp \<Rightarrow> price_book_entry list" where
  "candidates pb m subject at =
     filter (\<lambda>e. \<not> (EntryMeter e \<noteq> m \<or> \<not> coversSubject e subject \<or> \<not> coversTime e at)) pb"

definition Lookup :: "price_book \<Rightarrow> meter_id \<Rightarrow> string \<Rightarrow> timestamp \<Rightarrow> price_book_entry option" where
  "Lookup pb m subject at =
     (let cs = candidates pb m subject at in
      if length cs = 0 then None
      else Some (hd (sort_slice (entry_before subject) cs)))"

definition Cost :: "price_book \<Rightarrow> meter_id \<Rightarrow> string \<Rightarrow> int \<Rightarrow> timestamp \<Rightarrow> err + money" where
  "Cost pb m subject quantity at =
     (case Lookup pb m subject at of
        None \<Rightarrow> Inl (Err (''cost: no price book entry for meter '' @ quoted m @ '' subject '' @ quoted subject))
      | Some entry \<Rightarrow> Inr (PriceQuantity quantity (PricePerMillionMicros entry) (EntryCurrency entry)))"

section \<open>What a lookup picks\<close>

lemma insert_slice_not_Nil [simp]: "insert_slice lt x ys \<noteq> []"
  by (cases ys) simp_all

lemma sort_slice_Cons: "sort_slice lt (x # xs) = insert_slice lt x (sort_slice lt xs)"
  by (simp add: sort_slice_def)

lemma sort_slice_Nil_iff [simp]: "sort_slice lt xs = [] \<longleftrightarrow> xs = []"
  by (cases xs) (simp_all add: sort_slice_def)

lemma set_insert_slice [simp]: "set (insert_slice lt x ys) = insert x (set ys)"
  by (induction ys) auto

lemma set_sort_slice [simp]: "set (sort_slice lt xs) = set xs"
  by (induction xs) (simp_all add: sort_slice_def)

lemma hd_sort_slice_in: "xs \<noteq> [] \<Longrightarrow> hd (sort_slice lt xs) \<in> set xs"
  by (metis hd_in_set set_sort_slice sort_slice_Nil_iff)

lemma hd_insert_slice:
  "hd (insert_slice lt x ys) = (if ys \<noteq> [] \<and> lt (hd ys) x then hd ys else x)"
  by (cases ys) auto

text \<open>With a strict weak order, no element precedes the head of the sorted slice.\<close>

lemma hd_sort_slice_min:
  assumes asym: "\<And>a b. lt a b \<Longrightarrow> \<not> lt b a"
    and neg_trans: "\<And>a b c. \<not> lt a b \<Longrightarrow> \<not> lt b c \<Longrightarrow> \<not> lt a c"
    and "y \<in> set xs"
  shows "\<not> lt y (hd (sort_slice lt xs))"
  using \<open>y \<in> set xs\<close>
proof (induction xs arbitrary: y)
  case (Cons x xs)
  let ?h = "hd (sort_slice lt xs)"
  have hd: "hd (sort_slice lt (x # xs)) = (if xs \<noteq> [] \<and> lt ?h x then ?h else x)"
    by (simp add: sort_slice_Cons hd_insert_slice)
  have irrefl: "\<not> lt x x" using asym by blast
  show ?case
  proof (cases "xs \<noteq> [] \<and> lt ?h x")
    case True
    with hd have "hd (sort_slice lt (x # xs)) = ?h" by simp
    moreover have "\<not> lt x ?h" using True asym by blast
    ultimately show ?thesis using Cons.prems Cons.IH [of y] by auto
  next
    case False
    with hd have h: "hd (sort_slice lt (x # xs)) = x" by auto
    show ?thesis
    proof (cases "y = x")
      case False
      with Cons.prems have y: "y \<in> set xs" by simp
      then have "\<not> lt ?h x" using \<open>\<not> (xs \<noteq> [] \<and> lt ?h x)\<close> by (cases xs) simp_all
      with neg_trans [OF Cons.IH [OF y], of x] h show ?thesis by simp
    qed (simp add: h irrefl)
  qed
qed simp

lemma entry_before_asym: "entry_before s a b \<Longrightarrow> \<not> entry_before s b a"
  by (cases "Subject a = s"; cases "Subject b = s"; simp add: entry_before_def)

lemma entry_before_neg_trans:
  "\<not> entry_before s a b \<Longrightarrow> \<not> entry_before s b c \<Longrightarrow> \<not> entry_before s a c"
  by (cases "Subject a = s"; cases "Subject b = s"; cases "Subject c = s"; simp add: entry_before_def)

lemma not_entry_before_iff:
  "\<not> entry_before s a b \<longleftrightarrow>
     \<not> (Subject a = s \<and> Subject b \<noteq> s) \<and> ((Subject a = s) = (Subject b = s) \<longrightarrow> Version a \<le> Version b)"
  by (cases "Subject a = s"; cases "Subject b = s"; simp add: entry_before_def not_less)

text \<open>What it means for an entry to be in force, without reference to the code's helpers.\<close>

definition in_force :: "price_book \<Rightarrow> meter_id \<Rightarrow> string \<Rightarrow> timestamp \<Rightarrow> price_book_entry \<Rightarrow> bool" where
  "in_force pb m subject at e \<longleftrightarrow>
     e \<in> set pb \<and> EntryMeter e = m \<and> (Subject e = subject \<or> Subject e = ''*'') \<and>
     EffectiveFrom e \<le> at \<and> (\<forall>u. EffectiveUntil e = Some u \<longrightarrow> at < u)"

lemma in_candidates_iff: "e \<in> set (candidates pb m subject at) \<longleftrightarrow> in_force pb m subject at e"
  by (auto simp: candidates_def in_force_def coversSubject_def coversTime_def WildcardSubject_def
      split: option.splits)

lemma Lookup_None_iff: "Lookup pb m subject at = None \<longleftrightarrow> (\<forall>e. \<not> in_force pb m subject at e)"
proof -
  have "Lookup pb m subject at = None \<longleftrightarrow> candidates pb m subject at = []"
    by (simp add: Lookup_def Let_def)
  also have "\<dots> \<longleftrightarrow> (\<forall>e. e \<notin> set (candidates pb m subject at))"
    by (cases "candidates pb m subject at") auto
  finally show ?thesis by (simp only: in_candidates_iff)
qed

text \<open>
  a lookup fails exactly when no entry is in force; otherwise it returns an entry in
  force, for the exact subject if any such entry is in force, and no entry in force of the
  same specificity has a higher version.
\<close>

theorem Lookup_picks:
  "case Lookup pb m subject at of
     None \<Rightarrow> \<not> (\<exists>e. in_force pb m subject at e)
   | Some e \<Rightarrow>
       in_force pb m subject at e \<and>
       \<not> (\<exists>e'. in_force pb m subject at e' \<and> Subject e' = subject \<and> Subject e \<noteq> subject) \<and>
       \<not> (\<exists>e'. in_force pb m subject at e' \<and> (Subject e' = subject) = (Subject e = subject) \<and>
               Version e' > Version e)"
proof (cases "Lookup pb m subject at")
  case None
  with Lookup_None_iff [of pb m subject at] show ?thesis by simp
next
  case (Some e)
  let ?cs = "candidates pb m subject at"
  from Some have ne: "?cs \<noteq> []" and e: "e = hd (sort_slice (entry_before subject) ?cs)"
    by (auto simp: Lookup_def Let_def split: if_splits)
  from e hd_sort_slice_in [OF ne] have "in_force pb m subject at e"
    by (simp add: in_candidates_iff)
  moreover have min: "\<not> entry_before subject e' e" if "in_force pb m subject at e'" for e'
    unfolding e
    by (rule hd_sort_slice_min [OF entry_before_asym entry_before_neg_trans])
       (simp_all add: in_candidates_iff that)
  moreover have "\<not> (in_force pb m subject at e' \<and> Subject e' = subject \<and> Subject e \<noteq> subject)"
    and "\<not> (in_force pb m subject at e' \<and> (Subject e' = subject) = (Subject e = subject) \<and>
            Version e' > Version e)" for e'
    using min [of e'] not_entry_before_iff [of subject e' e] by auto
  ultimately show ?thesis unfolding Some option.case by blast
qed

lemma Cost_error_iff:
  "(\<exists>er. Cost pb m subject q at = Inl er) \<longleftrightarrow> (\<forall>e. \<not> in_force pb m subject at e)"
proof -
  have "(\<exists>er. Cost pb m subject q at = Inl er) \<longleftrightarrow> Lookup pb m subject at = None"
    by (simp add: Cost_def split: option.splits)
  then show ?thesis by (simp only: Lookup_None_iff)
qed

end
