(* ===== verification/Cost_Ledger.thy ===== *)
theory Cost_Ledger
  imports Price_Book
begin

text \<open>
  The durable half of the cost gate: budgets, decisions and cost records
  (\<^verbatim>\<open>internal/cost/budget.go\<close>, \<^verbatim>\<open>decision.go\<close>, \<^verbatim>\<open>record.go\<close>), the \<^verbatim>\<open>Ledger\<close> port with its contract as a
  locale, and the in-memory adapter \<^verbatim>\<open>internal/cost/inmem/ledger.go\<close>, on which it is interpreted.
\<close>

section \<open>Rows\<close>

datatype budget_scope = BudgetScopeTenant | BudgetScopeSession

record budget =
  BudgetID :: uuid
  Scope :: budget_scope
  ScopeRef :: "uuid option"
  Ceiling :: money
  Epoch :: int

datatype decision_kind = DecisionAllow | DecisionRefuseCeiling | DecisionDegrade | DecisionSkip

record decision =
  Kind :: decision_kind
  DecReason :: string
  DecBudgetID :: "uuid option"
  Reserved :: money

record cost_record =
  RecID :: uuid
  ReservationID :: "uuid option"
  RecMeter :: meter_id
  Quantity :: int
  RecUnit :: string
  RecCost :: money
  RecModelID :: string
  Unreported :: bool

section \<open>The port\<close>

record 'l ledger_port =
  LLoadPriceBook :: "'l \<Rightarrow> uuid \<Rightarrow> (err + price_book) \<times> 'l"
  LGetBudget :: "'l \<Rightarrow> uuid \<Rightarrow> budget_scope \<Rightarrow> uuid option \<Rightarrow> (err + budget option) \<times> 'l"
  LSumCostRecords :: "'l \<Rightarrow> uuid \<Rightarrow> budget_scope \<Rightarrow> uuid option \<Rightarrow> (err + int) \<times> 'l"
  LRecordDecision :: "'l \<Rightarrow> uuid \<Rightarrow> uuid \<Rightarrow> decision \<Rightarrow> err option \<times> 'l"
  LRecordUsage :: "'l \<Rightarrow> uuid \<Rightarrow> uuid \<Rightarrow> cost_record list \<Rightarrow> err option \<times> 'l"

section \<open>The in-memory adapter\<close>

text \<open>\<open>uuids\<close> is the random source: the \<open>n\<close>-th call of \<^verbatim>\<open>uuid.New\<close> in this adapter draws \<open>uuids n\<close>.\<close>

record ledger =
  priceBooks :: "uuid \<rightharpoonup> price_book_entry list"
  l_budgets :: "uuid \<rightharpoonup> budget list"
  decisions :: "uuid \<rightharpoonup> (uuid \<times> decision) list"
  records :: "uuid \<rightharpoonup> (uuid \<times> cost_record) list"
  fail :: "string \<rightharpoonup> err"
  uuids :: "nat \<Rightarrow> uuid"
  drawn :: nat

text \<open>A missing slice in a Go map is the empty slice.\<close>

definition slice_at :: "('k \<rightharpoonup> 'v list) \<Rightarrow> 'k \<Rightarrow> 'v list" where
  "slice_at m k = (case m k of None \<Rightarrow> [] | Some vs \<Rightarrow> vs)"

definition NewLedger :: "(nat \<Rightarrow> uuid) \<Rightarrow> ledger" where
  "NewLedger ids =
     \<lparr>priceBooks = Map.empty, l_budgets = Map.empty, decisions = Map.empty, records = Map.empty,
      fail = Map.empty, uuids = ids, drawn = 0\<rparr>"

definition SeedPriceBook :: "ledger \<Rightarrow> uuid \<Rightarrow> price_book_entry list \<Rightarrow> ledger" where
  "SeedPriceBook l tenantID entries = l\<lparr>priceBooks := (priceBooks l)(tenantID \<mapsto> entries)\<rparr>"

definition SeedBudget ::
    "ledger \<Rightarrow> uuid \<Rightarrow> budget_scope \<Rightarrow> uuid option \<Rightarrow> money \<Rightarrow> budget \<times> ledger" where
  "SeedBudget l tenantID scope scopeRef ceiling =
     (let b = \<lparr>BudgetID = uuids l (drawn l), Scope = scope, ScopeRef = scopeRef, Ceiling = ceiling, Epoch = 1\<rparr>
      in (b, l\<lparr>l_budgets := (l_budgets l)(tenantID \<mapsto> slice_at (l_budgets l) tenantID @ [b]),
               drawn := drawn l + 1\<rparr>))"

definition FailOn :: "ledger \<Rightarrow> string \<Rightarrow> err option \<Rightarrow> ledger" where
  "FailOn l mname er = l\<lparr>fail := (fail l)(mname := er)\<rparr>"

definition Decisions :: "ledger \<Rightarrow> uuid \<Rightarrow> (uuid \<times> decision) list" where
  "Decisions l tenantID = slice_at (decisions l) tenantID"

definition Records :: "ledger \<Rightarrow> uuid \<Rightarrow> (uuid \<times> cost_record) list" where
  "Records l tenantID = slice_at (records l) tenantID"

definition LoadPriceBook :: "ledger \<Rightarrow> uuid \<Rightarrow> (err + price_book) \<times> ledger" where
  "LoadPriceBook l tenantID =
     (case fail l ''LoadPriceBook'' of
        Some er \<Rightarrow> (Inl er, l)
      | None \<Rightarrow> (Inr (slice_at (priceBooks l) tenantID), l))"

definition sameRef :: "uuid option \<Rightarrow> uuid option \<Rightarrow> bool" where
  "sameRef a b = (case (a, b) of (Some x, Some y) \<Rightarrow> x = y | (None, None) \<Rightarrow> True | _ \<Rightarrow> False)"

definition GetBudget ::
    "ledger \<Rightarrow> uuid \<Rightarrow> budget_scope \<Rightarrow> uuid option \<Rightarrow> (err + budget option) \<times> ledger" where
  "GetBudget l tenantID scope scopeRef =
     (case fail l ''GetBudget'' of
        Some er \<Rightarrow> (Inl er, l)
      | None \<Rightarrow>
          (Inr (find (\<lambda>b. Scope b = scope \<and> sameRef (ScopeRef b) scopeRef) (slice_at (l_budgets l) tenantID)), l))"

definition sum_step :: "budget_scope \<Rightarrow> uuid option \<Rightarrow> int \<Rightarrow> uuid \<times> cost_record \<Rightarrow> int" where
  "sum_step scope sessionID tot r =
     (if scope = BudgetScopeSession \<and> (sessionID = None \<or> Some (fst r) \<noteq> sessionID) then tot
      else i64 (tot + Micros (RecCost (snd r))))"

definition SumCostRecords ::
    "ledger \<Rightarrow> uuid \<Rightarrow> budget_scope \<Rightarrow> uuid option \<Rightarrow> (err + int) \<times> ledger" where
  "SumCostRecords l tenantID scope sessionID =
     (case fail l ''SumCostRecords'' of
        Some er \<Rightarrow> (Inl er, l)
      | None \<Rightarrow> (Inr (foldl (sum_step scope sessionID) 0 (slice_at (records l) tenantID)), l))"

definition RecordDecision :: "ledger \<Rightarrow> uuid \<Rightarrow> uuid \<Rightarrow> decision \<Rightarrow> err option \<times> ledger" where
  "RecordDecision l tenantID sessionID d =
     (case fail l ''RecordDecision'' of
        Some er \<Rightarrow> (Some er, l)
      | None \<Rightarrow>
          (None, l\<lparr>decisions := (decisions l)(tenantID \<mapsto> slice_at (decisions l) tenantID @ [(sessionID, d)])\<rparr>))"

definition record_one :: "uuid \<Rightarrow> uuid \<Rightarrow> ledger \<Rightarrow> cost_record \<Rightarrow> ledger" where
  "record_one tenantID sessionID l r =
     (let (r', l') = (if RecID r = 0 then (r\<lparr>RecID := uuids l (drawn l)\<rparr>, l\<lparr>drawn := drawn l + 1\<rparr>) else (r, l))
      in l'\<lparr>records := (records l')(tenantID \<mapsto> slice_at (records l') tenantID @ [(sessionID, r')])\<rparr>)"

definition RecordUsage :: "ledger \<Rightarrow> uuid \<Rightarrow> uuid \<Rightarrow> cost_record list \<Rightarrow> err option \<times> ledger" where
  "RecordUsage l tenantID sessionID recs =
     (case fail l ''RecordUsage'' of
        Some er \<Rightarrow> (Some er, l)
      | None \<Rightarrow> (None, foldl (record_one tenantID sessionID) l recs))"

definition inmem_ledger :: "ledger ledger_port" where
  "inmem_ledger =
     \<lparr>LLoadPriceBook = LoadPriceBook, LGetBudget = GetBudget, LSumCostRecords = SumCostRecords,
      LRecordDecision = RecordDecision, LRecordUsage = RecordUsage\<rparr>"

section \<open>The contract\<close>

text \<open>
  \<open>charged l t\<close> is the tenant's charges in order, each with its session; \<open>decided l t\<close> its
  decisions. A successful append adds at the end of the tenant's own list and nothing else
  moves; the sum is the wrapped total of what has been charged.
\<close>

definition micros_sum :: "(uuid \<times> money) list \<Rightarrow> int" where
  "micros_sum cs = sum_list (map (Micros \<circ> snd) cs)"

locale ledger_contract =
  fixes L :: "'l ledger_port"
    and charged :: "'l \<Rightarrow> uuid \<Rightarrow> (uuid \<times> money) list"
    and decided :: "'l \<Rightarrow> uuid \<Rightarrow> (uuid \<times> decision) list"
  assumes usage_done:
      "LRecordUsage L l t s recs = (None, l') \<Longrightarrow>
         charged l' = (charged l)(t := charged l t @ map (\<lambda>r. (s, RecCost r)) recs) \<and> decided l' = decided l"
    and usage_failed: "LRecordUsage L l t s recs = (Some er, l') \<Longrightarrow> charged l' = charged l \<and> decided l' = decided l"
    and decision_done:
      "LRecordDecision L l t s d = (None, l') \<Longrightarrow>
         decided l' = (decided l)(t := decided l t @ [(s, d)]) \<and> charged l' = charged l"
    and decision_failed:
      "LRecordDecision L l t s d = (Some er, l') \<Longrightarrow> charged l' = charged l \<and> decided l' = decided l"
    and sum_tenant:
      "LSumCostRecords L l t BudgetScopeTenant ref = (Inr x, l') \<Longrightarrow>
         x = i64 (micros_sum (charged l t))"
    and sum_session:
      "LSumCostRecords L l t BudgetScopeSession (Some sid) = (Inr x, l') \<Longrightarrow>
         x = i64 (micros_sum (filter (\<lambda>c. fst c = sid) (charged l t)))"
    and reads:
      "charged (snd (LLoadPriceBook L l t)) = charged l" "decided (snd (LLoadPriceBook L l t)) = decided l"
      "charged (snd (LGetBudget L l t sc ref)) = charged l" "decided (snd (LGetBudget L l t sc ref)) = decided l"
      "charged (snd (LSumCostRecords L l t sc ref)) = charged l" "decided (snd (LSumCostRecords L l t sc ref)) = decided l"
begin

text \<open>Recording usage moves the tenant's sum by exactly the recorded costs.\<close>

lemma sum_after_usage:
  assumes "LRecordUsage L l t s recs = (None, l')"
    and "LSumCostRecords L l' t BudgetScopeTenant ref = (Inr x, l'')"
  shows "x = i64 (micros_sum (charged l t) + sum_list (map (Micros \<circ> RecCost) recs))"
  using usage_done [OF assms(1)] sum_tenant [OF assms(2)] by (simp add: micros_sum_def comp_def)

text \<open>The charges of one session are part of the tenant's.\<close>

lemma usage_other_tenant: "LRecordUsage L l t s recs = (er, l') \<Longrightarrow> t' \<noteq> t \<Longrightarrow> charged l' t' = charged l t'"
  by (cases er) (auto dest: usage_done usage_failed)

end

section \<open>The in-memory adapter meets the contract\<close>

definition inmem_charged :: "ledger \<Rightarrow> uuid \<Rightarrow> (uuid \<times> money) list" where
  "inmem_charged l t = map (apsnd RecCost) (Records l t)"

lemma foldl_sum_tenant:
  "foldl (sum_step BudgetScopeTenant ref) a rs = (if rs = [] then a else i64 (a + micros_sum (map (apsnd RecCost) rs)))"
  by (induction rs arbitrary: a) (auto simp: sum_step_def micros_sum_def add.assoc)

lemma foldl_sum_session:
  "foldl (sum_step BudgetScopeSession (Some sid)) a rs =
     (if filter (\<lambda>c. fst c = sid) rs = [] then a
      else i64 (a + micros_sum (filter (\<lambda>c. fst c = sid) (map (apsnd RecCost) rs))))"
  by (induction rs arbitrary: a) (auto simp: sum_step_def micros_sum_def add.assoc filter_empty_conv)

lemma record_one_views:
  "inmem_charged (record_one t s l r) = (inmem_charged l)(t := inmem_charged l t @ [(s, RecCost r)])"
  "Decisions (record_one t s l r) = Decisions l"
  by (auto simp: record_one_def inmem_charged_def Records_def Decisions_def slice_at_def fun_eq_iff)

lemma record_all_views:
  "inmem_charged (foldl (record_one t s) l rs) =
     (inmem_charged l)(t := inmem_charged l t @ map (\<lambda>r. (s, RecCost r)) rs) \<and>
   Decisions (foldl (record_one t s) l rs) = Decisions l"
  by (induction rs arbitrary: l) (simp_all add: record_one_views)

lemma i64_zero [simp]: "i64 0 = 0"
  by (simp add: i64_def)

interpretation iledger: ledger_contract inmem_ledger inmem_charged Decisions
proof unfold_locales
  fix l t s recs er l'
  show "LRecordUsage inmem_ledger l t s recs = (None, l') \<Longrightarrow>
     inmem_charged l' = (inmem_charged l)(t := inmem_charged l t @ map (\<lambda>r. (s, RecCost r)) recs) \<and>
     Decisions l' = Decisions l"
    by (auto simp: inmem_ledger_def RecordUsage_def record_all_views split: option.splits)
  show "LRecordUsage inmem_ledger l t s recs = (Some er, l') \<Longrightarrow>
     inmem_charged l' = inmem_charged l \<and> Decisions l' = Decisions l"
    by (auto simp: inmem_ledger_def RecordUsage_def split: option.splits)
next
  fix l t s d er l'
  show "LRecordDecision inmem_ledger l t s d = (None, l') \<Longrightarrow>
     Decisions l' = (Decisions l)(t := Decisions l t @ [(s, d)]) \<and> inmem_charged l' = inmem_charged l"
    by (auto simp: inmem_ledger_def RecordDecision_def Decisions_def inmem_charged_def Records_def
        slice_at_def fun_eq_iff split: option.splits)
  show "LRecordDecision inmem_ledger l t s d = (Some er, l') \<Longrightarrow>
     inmem_charged l' = inmem_charged l \<and> Decisions l' = Decisions l"
    by (auto simp: inmem_ledger_def RecordDecision_def split: option.splits)
next
  fix l t ref x l'
  show "LSumCostRecords inmem_ledger l t BudgetScopeTenant ref = (Inr x, l') \<Longrightarrow>
     x = i64 (micros_sum (inmem_charged l t))"
    by (auto simp: inmem_ledger_def SumCostRecords_def foldl_sum_tenant inmem_charged_def Records_def
        micros_sum_def split: option.splits if_splits)
next
  fix l t sid x l'
  show "LSumCostRecords inmem_ledger l t BudgetScopeSession (Some sid) = (Inr x, l') \<Longrightarrow>
     x = i64 (micros_sum (filter (\<lambda>c. fst c = sid) (inmem_charged l t)))"
    by (auto simp: inmem_ledger_def SumCostRecords_def foldl_sum_session inmem_charged_def Records_def
        micros_sum_def filter_map comp_def split: option.splits if_splits)
qed (auto simp: inmem_ledger_def LoadPriceBook_def GetBudget_def SumCostRecords_def split: option.splits)

end
