(* ===== verification/Cost_Counters.thy ===== *)
theory Cost_Counters
  imports Nexus_Prelude
begin

text \<open>
  The shared spend counters behind a tenant ceiling: the port of \<^verbatim>\<open>internal/cost/ports.go\<close>, its
  contract as a locale, and the in-memory adapter of \<^verbatim>\<open>internal/cost/inmem/counters.go\<close>, on which
  the locale is interpreted. The locale's lemmas show that no sequence of operations takes a
  counter past the ceiling its reservations were checked against.
\<close>

section \<open>The port\<close>

datatype reserve_outcome = ReserveUnavailable | ReserveStaleEpoch | ReserveOverCeiling | ReserveOK

record 'c counters_port =
  CReserve :: "'c \<Rightarrow> uuid \<Rightarrow> int \<Rightarrow> int \<Rightarrow> int \<Rightarrow> (reserve_outcome \<times> int \<times> err option) \<times> 'c"
  CRelease :: "'c \<Rightarrow> uuid \<Rightarrow> int \<Rightarrow> int \<Rightarrow> err option \<times> 'c"
  CArm :: "'c \<Rightarrow> uuid \<Rightarrow> int \<Rightarrow> int \<Rightarrow> err option \<times> 'c"

section \<open>The in-memory adapter\<close>

record counter =
  epoch :: int
  spend :: int

record counters =
  budgets :: "uuid \<rightharpoonup> counter"
  failErr :: "err option"

definition NewCounters :: counters where
  "NewCounters = \<lparr>budgets = Map.empty, failErr = None\<rparr>"

definition Flush :: "counters \<Rightarrow> counters" where
  "Flush c = c\<lparr>budgets := Map.empty\<rparr>"

definition FailWith :: "counters \<Rightarrow> err option \<Rightarrow> counters" where
  "FailWith c er = c\<lparr>failErr := er\<rparr>"

definition Spend :: "counters \<Rightarrow> uuid \<Rightarrow> int \<times> bool" where
  "Spend c budgetID = (case budgets c budgetID of None \<Rightarrow> (0, False) | Some b \<Rightarrow> (spend b, True))"

definition Counters_Reserve ::
    "counters \<Rightarrow> uuid \<Rightarrow> int \<Rightarrow> int \<Rightarrow> int \<Rightarrow> (reserve_outcome \<times> int \<times> err option) \<times> counters" where
  "Counters_Reserve c budgetID ep amount ceiling =
     (case failErr c of
        Some er \<Rightarrow> ((ReserveUnavailable, 0, Some er), c)
      | None \<Rightarrow>
          (case budgets c budgetID of
             None \<Rightarrow> ((ReserveUnavailable, 0, None), c)
           | Some b \<Rightarrow>
               if epoch b \<noteq> ep then ((ReserveStaleEpoch, epoch b, None), c)
               else if i64 (spend b + amount) > ceiling then ((ReserveOverCeiling, spend b, None), c)
               else
                 let b' = b\<lparr>spend := i64 (spend b + amount)\<rparr>
                 in ((ReserveOK, spend b', None), c\<lparr>budgets := (budgets c)(budgetID \<mapsto> b')\<rparr>)))"

definition Counters_Release :: "counters \<Rightarrow> uuid \<Rightarrow> int \<Rightarrow> int \<Rightarrow> err option \<times> counters" where
  "Counters_Release c budgetID ep delta =
     (case failErr c of
        Some er \<Rightarrow> (Some er, c)
      | None \<Rightarrow>
          (case budgets c budgetID of
             Some b \<Rightarrow>
               if epoch b = ep
               then (None, c\<lparr>budgets := (budgets c)(budgetID \<mapsto> b\<lparr>spend := i64 (spend b - delta)\<rparr>)\<rparr>)
               else (None, c)
           | None \<Rightarrow> (None, c)))"

definition Counters_Arm :: "counters \<Rightarrow> uuid \<Rightarrow> int \<Rightarrow> int \<Rightarrow> err option \<times> counters" where
  "Counters_Arm c budgetID ep baseline =
     (case failErr c of
        Some er \<Rightarrow> (Some er, c)
      | None \<Rightarrow>
          (case budgets c budgetID of
             None \<Rightarrow> (None, c\<lparr>budgets := (budgets c)(budgetID \<mapsto> \<lparr>epoch = ep, spend = baseline\<rparr>)\<rparr>)
           | Some _ \<Rightarrow> (None, c)))"

definition inmem_counters :: "counters counters_port" where
  "inmem_counters =
     \<lparr>CReserve = Counters_Reserve, CRelease = Counters_Release, CArm = Counters_Arm\<rparr>"

section \<open>The contract\<close>

text \<open>
  \<open>view c b\<close> is budget \<open>b\<close>'s epoch and spend, \<open>None\<close> when it was never armed. The laws are the
  port's documented ones: a reservation is granted only under the caller's epoch and within
  the ceiling, and then adds exactly its amount; everything else leaves the counters alone.
\<close>

locale counters_contract =
  fixes P :: "'c counters_port"
    and view :: "'c \<Rightarrow> uuid \<rightharpoonup> int \<times> int"
  assumes reserve_granted:
      "CReserve P c b ep amt ceil = ((ReserveOK, tot, er), c') \<Longrightarrow>
         \<exists>s. view c b = Some (ep, s) \<and> tot = i64 (s + amt) \<and> tot \<le> ceil \<and> er = None \<and>
             view c' = (view c)(b \<mapsto> (ep, tot))"
    and reserve_refused:
      "CReserve P c b ep amt ceil = ((out, tot, er), c') \<Longrightarrow> out \<noteq> ReserveOK \<Longrightarrow> view c' = view c"
    and reserve_over:
      "CReserve P c b ep amt ceil = ((ReserveOverCeiling, tot, None), c') \<Longrightarrow>
         view c b = Some (ep, tot) \<and> ceil < i64 (tot + amt)"
    and release_done:
      "CRelease P c b ep delta = (None, c') \<Longrightarrow>
         view c' = (case view c b of
                      Some (ep', s) \<Rightarrow> if ep' = ep then (view c)(b \<mapsto> (ep, i64 (s - delta))) else view c
                    | None \<Rightarrow> view c)"
    and release_failed: "CRelease P c b ep delta = (Some e, c') \<Longrightarrow> view c' = view c"
    and arm_done:
      "CArm P c b ep baseline = (None, c') \<Longrightarrow>
         view c' = (case view c b of None \<Rightarrow> (view c)(b \<mapsto> (ep, baseline)) | Some _ \<Rightarrow> view c)"
    and arm_failed: "CArm P c b ep baseline = (Some e, c') \<Longrightarrow> view c' = view c"
begin

text \<open>A reservation never touches another budget, and takes its own at most to the ceiling.\<close>

lemma reserve_frame: "CReserve P c b ep amt ceil = (r, c') \<Longrightarrow> b' \<noteq> b \<Longrightarrow> view c' b' = view c b'"
proof -
  assume r: "CReserve P c b ep amt ceil = (r, c')" and "b' \<noteq> b"
  obtain out tot er where "r = (out, tot, er)" by (cases r)
  with r \<open>b' \<noteq> b\<close> show ?thesis
    by (cases "out = ReserveOK") (auto dest: reserve_granted reserve_refused)
qed

lemma reserve_le:
  assumes "CReserve P c b ep amt ceil = (r, c')"
    and "\<And>ep' s. view c b = Some (ep', s) \<Longrightarrow> s \<le> ceil"
    and "view c' b = Some (ep', s')"
  shows "s' \<le> ceil"
proof -
  obtain out tot er where r: "r = (out, tot, er)" by (cases r)
  show ?thesis
  proof (cases "out = ReserveOK")
    case True
    with assms(1,3) r reserve_granted [of c b ep amt ceil tot er c'] show ?thesis by auto
  next
    case False
    with assms(1) r have "view c' = view c" by (auto dest: reserve_refused)
    with assms(2,3) show ?thesis by simp
  qed
qed

text \<open>What is released straight after it was reserved leaves the counter as it was.\<close>

lemma reserve_release:
  assumes "CReserve P c b ep amt ceil = ((ReserveOK, tot, er), c')"
    and "CRelease P c' b ep amt = (None, c'')" and "\<And>s. view c b = Some (ep, s) \<Longrightarrow> in_i64 s"
  shows "view c'' = view c"
proof -
  from reserve_granted [OF assms(1)] obtain s where
    s: "view c b = Some (ep, s)" "tot = i64 (s + amt)" "view c' = (view c)(b \<mapsto> (ep, tot))" by auto
  with release_done [OF assms(2)] assms(3) [OF s(1)] show ?thesis by (auto simp: fun_upd_idem)
qed

end

section \<open>The in-memory adapter meets the contract\<close>

definition inmem_view :: "counters \<Rightarrow> uuid \<rightharpoonup> int \<times> int" where
  "inmem_view c b = map_option (\<lambda>x. (epoch x, spend x)) (budgets c b)"

lemmas counters_defs = inmem_counters_def Counters_Reserve_def Counters_Release_def Counters_Arm_def

interpretation icounters: counters_contract inmem_counters inmem_view
  by unfold_locales
     (auto simp: counters_defs inmem_view_def fun_eq_iff Let_def split: option.splits if_splits)

end
