(* ===== verification/Provider.thy ===== *)
theory Provider
  imports Nexus_Prelude
begin

text \<open>
  The model-call port (\<^verbatim>\<open>internal/provider\<close>): the normalized stream, the transcript's typed
  blocks, the classification of stream failures, failover across providers with its commit
  point, and the routing table. The lemmas say which provider's answer a failover call
  returns, that the peeked stream replays what it peeked, and that routing is total.
\<close>

section \<open>Chunks and messages\<close>

datatype done_reason = DoneStop | DoneMaxOutput | DoneError | DoneRefusal

record usage =
  InputUncached :: int
  InputCacheRead :: int
  InputCacheWrite :: int
  OutputTokens :: int

definition no_usage :: usage where
  "no_usage = \<lparr>InputUncached = 0, InputCacheRead = 0, InputCacheWrite = 0, OutputTokens = 0\<rparr>"

text \<open>A chunk's kind decides which of the source's fields it carries.\<close>

datatype chunk =
    ChunkContent string
  | ChunkReasoning bytes
  | ChunkToolUse string string bytes
  | ChunkUsage usage
  | ChunkDone done_reason string

datatype content_block =
    BlockText string
  | BlockThinking string string
  | BlockToolUse string string bytes
  | BlockToolResult string string bool

fun block_text :: "content_block \<Rightarrow> string" where
  "block_text (BlockText t) = t"
| "block_text (BlockThinking t sig) = t"
| "block_text (BlockToolUse i n inp) = ''''"
| "block_text (BlockToolResult i t er) = t"

record msg =
  Role :: string
  Blocks :: "content_block list"

definition TextMessage :: "string \<Rightarrow> string \<Rightarrow> msg" where
  "TextMessage role text = \<lparr>Role = role, Blocks = [BlockText text]\<rparr>"

definition ToolResultMessage :: "string \<Rightarrow> string \<Rightarrow> bool \<Rightarrow> msg" where
  "ToolResultMessage toolUseID text isError =
     \<lparr>Role = ''tool'', Blocks = [BlockToolResult toolUseID text isError]\<rparr>"

text \<open>\<^verbatim>\<open>Message.PlainText\<close>: the blocks' texts, a newline before each but the first.\<close>

fun join_lines :: "string list \<Rightarrow> string" where
  "join_lines [] = ''''"
| "join_lines [t] = t"
| "join_lines (t # ts) = t @ [CHR 0x0A] @ join_lines ts"

definition PlainText :: "msg \<Rightarrow> string" where
  "PlainText m = (if length (Blocks m) = 0 then '''' else join_lines (map block_text (Blocks m)))"

record prompt =
  System :: string
  Messages :: "msg list"

record tool_schema =
  SchemaName :: string
  Description :: string
  InputSchema :: bytes

record run_context =
  RcTenant :: uuid
  RcSession :: uuid

section \<open>Streams\<close>

text \<open>
  A stream is what its \<^verbatim>\<open>Next\<close> calls will return: some chunks, then an error or a clean end.
  \<open>Next\<close> yields \<open>Inl\<close> an error, or \<open>Inr\<close> a chunk (\<open>None\<close>: \<^verbatim>\<open>ok\<close> is false).
\<close>

type_synonym stream = "chunk list \<times> err option"

fun stream_Next :: "stream \<Rightarrow> (err + chunk option) \<times> stream" where
  "stream_Next (c # cs, e) = (Inr (Some c), (cs, e))"
| "stream_Next ([], Some e) = (Inl e, ([], None))"
| "stream_Next ([], None) = (Inr None, ([], None))"

type_synonym 'w provider =
  "'w \<Rightarrow> prompt \<Rightarrow> tool_schema list \<Rightarrow> run_context \<Rightarrow> (err + stream) \<times> 'w"

section \<open>Failover\<close>

datatype trigger_class = TriggerRetryable | TriggerPermanent | TriggerContextOverflow

definition is_overflow :: "err \<Rightarrow> bool" where
  "is_overflow e = (case e of ContextOverflowError r \<Rightarrow> True | _ \<Rightarrow> False)"

definition is_throttle :: "err \<Rightarrow> bool" where
  "is_throttle e = (case e of ThrottleError r \<Rightarrow> True | _ \<Rightarrow> False)"

definition ClassifyTrigger :: "err \<Rightarrow> trigger_class" where
  "ClassifyTrigger er =
     (if errors_as er is_overflow then TriggerContextOverflow
      else if errors_as er is_throttle then TriggerRetryable
      else if errors_is er DeadlineExceeded \<or> errors_is er UnexpectedEOF then TriggerRetryable
      else TriggerPermanent)"

record peeked_stream =
  first :: "chunk option"
  hasFirst :: bool
  inner :: stream

text \<open>\<open>failover_from\<close> is the loop over the providers; the world carries the providers' effects.\<close>

fun failover_from ::
    "'w provider list \<Rightarrow> err \<Rightarrow> 'w \<Rightarrow> prompt \<Rightarrow> tool_schema list \<Rightarrow> run_context
      \<Rightarrow> (err + peeked_stream) \<times> 'w" where
  "failover_from [] lastErr w p ts rc = (Inl lastErr, w)"
| "failover_from (prov # rest) lastErr w p ts rc =
     (let hasNext = (rest \<noteq> []) in
      case prov w p ts rc of
        (Inl er, w') \<Rightarrow>
          if hasNext \<and> ClassifyTrigger er = TriggerRetryable then failover_from rest er w' p ts rc
          else (Inl er, w')
      | (Inr s, w') \<Rightarrow>
          (case stream_Next s of
             (Inl nerr, s') \<Rightarrow>
               if hasNext \<and> ClassifyTrigger nerr = TriggerRetryable then failover_from rest nerr w' p ts rc
               else (Inl nerr, w')
           | (Inr c, s') \<Rightarrow> (Inr \<lparr>first = c, hasFirst = True, inner = s'\<rparr>, w')))"

definition failover_Stream ::
    "'w provider list \<Rightarrow> 'w \<Rightarrow> prompt \<Rightarrow> tool_schema list \<Rightarrow> run_context
      \<Rightarrow> (err + peeked_stream) \<times> 'w" where
  "failover_Stream providers w p ts rc =
     (if length providers = 0 then (Inl (Err ''failover: no providers configured''), w)
      else failover_from providers (Err '''') w p ts rc)"

definition peeked_Next :: "peeked_stream \<Rightarrow> (err + chunk option) \<times> peeked_stream" where
  "peeked_Next s =
     (if hasFirst s then (Inr (first s), s\<lparr>hasFirst := False\<rparr>)
      else let (r, i) = stream_Next (inner s) in (r, s\<lparr>inner := i\<rparr>))"

section \<open>Routing\<close>

type_synonym data_label = string
type_synonym difficulty = string

record route_decision =
  RouteModelID :: string
  Reason :: "(string \<times> string) list"

definition routeTable :: "data_label \<rightharpoonup> (difficulty \<rightharpoonup> string)" where
  "routeTable =
     [''public'' \<mapsto> [''simple'' \<mapsto> ''claude-haiku-4-5'', ''complex'' \<mapsto> ''claude-sonnet-5''],
      ''internal'' \<mapsto> [''simple'' \<mapsto> ''claude-haiku-4-5'', ''complex'' \<mapsto> ''claude-sonnet-5''],
      ''confidential'' \<mapsto> [''simple'' \<mapsto> ''claude-sonnet-5'', ''complex'' \<mapsto> ''claude-opus-5''],
      ''restricted'' \<mapsto> [''simple'' \<mapsto> ''claude-opus-5'', ''complex'' \<mapsto> ''claude-opus-5'']]"

text \<open>Indexing a Go map with a missing key gives the zero value.\<close>

definition map_at :: "('k \<rightharpoonup> string) \<Rightarrow> 'k \<Rightarrow> string" where
  "map_at m k = (case m k of None \<Rightarrow> '''' | Some v \<Rightarrow> v)"

definition Route :: "data_label \<Rightarrow> difficulty \<Rightarrow> route_decision" where
  "Route label difficulty =
     (case routeTable label of
        None \<Rightarrow>
          \<lparr>RouteModelID = map_at (case routeTable ''confidential'' of None \<Rightarrow> Map.empty | Some t \<Rightarrow> t) ''complex'',
           Reason = [(''data_label'', label), (''difficulty'', difficulty),
                     (''fallback'', ''unknown data_label '' @ quoted label @ '' '' @ em_dash @ '' routed to the most conservative tier'')]\<rparr>
      | Some byDifficulty \<Rightarrow>
          (case byDifficulty difficulty of
             None \<Rightarrow>
               \<lparr>RouteModelID = map_at byDifficulty ''complex'',
                Reason = [(''data_label'', label), (''difficulty'', difficulty),
                          (''fallback'', ''unknown difficulty '' @ quoted difficulty @ '' '' @ em_dash @ '' routed to the complex tier for this label'')]\<rparr>
           | Some modelID \<Rightarrow>
               \<lparr>RouteModelID = modelID,
                Reason = [(''data_label'', label), (''difficulty'', difficulty)]\<rparr>))"

section \<open>What a failover call returns\<close>

text \<open>
  One provider's attempt as the caller of failover can see it: a failure to open the stream
  or a failure of its first \<^verbatim>\<open>Next\<close> is a failed attempt; anything else is the stream.
\<close>

definition attempt :: "'w provider \<Rightarrow> 'w \<Rightarrow> prompt \<Rightarrow> tool_schema list \<Rightarrow> run_context \<Rightarrow> (err + stream) \<times> 'w" where
  "attempt prov w p ts rc =
     (case prov w p ts rc of
        (Inr ([], Some er), w') \<Rightarrow> (Inl er, w')
      | other \<Rightarrow> other)"

definition peeked :: "stream \<Rightarrow> peeked_stream" where
  "peeked s = (case stream_Next s of
     (Inr c, s') \<Rightarrow> \<lparr>first = c, hasFirst = True, inner = s'\<rparr>
   | (Inl _, s') \<Rightarrow> \<lparr>first = None, hasFirst = False, inner = s'\<rparr>)"

lemma failover_from_Cons:
  "failover_from (prov # rest) lastErr w p ts rc =
     (case attempt prov w p ts rc of
        (Inl er, w') \<Rightarrow>
          if rest \<noteq> [] \<and> ClassifyTrigger er = TriggerRetryable then failover_from rest er w' p ts rc
          else (Inl er, w')
      | (Inr s, w') \<Rightarrow> (Inr (peeked s), w'))"
proof (cases "prov w p ts rc")
  case (Pair r w')
  show ?thesis
  proof (cases r)
    case (Inr s)
    obtain cs e where "s = (cs, e)" by (cases s)
    then show ?thesis using Pair Inr
      by (cases cs; cases e) (simp_all add: attempt_def peeked_def)
  qed (use Pair in \<open>simp add: attempt_def Let_def\<close>)
qed

text \<open>The world after the first \<open>k\<close> providers have been tried.\<close>

fun world_after :: "'w provider list \<Rightarrow> nat \<Rightarrow> 'w \<Rightarrow> prompt \<Rightarrow> tool_schema list \<Rightarrow> run_context \<Rightarrow> 'w" where
  "world_after ps 0 w p ts rc = w"
| "world_after [] (Suc k) w p ts rc = w"
| "world_after (prov # ps) (Suc k) w p ts rc = world_after ps k (snd (attempt prov w p ts rc)) p ts rc"

definition failed_retryably :: "(err + stream) \<times> 'w \<Rightarrow> bool" where
  "failed_retryably r = (case fst r of Inl er \<Rightarrow> ClassifyTrigger er = TriggerRetryable | Inr _ \<Rightarrow> False)"

definition settles :: "'w provider list \<Rightarrow> nat \<Rightarrow> 'w \<Rightarrow> prompt \<Rightarrow> tool_schema list \<Rightarrow> run_context
    \<Rightarrow> (err + peeked_stream) \<times> 'w \<Rightarrow> bool" where
  "settles ps n w p ts rc result \<longleftrightarrow>
     n < length ps \<and>
     (\<forall>i < n. failed_retryably (attempt (ps ! i) (world_after ps i w p ts rc) p ts rc)) \<and>
     (Suc n < length ps \<longrightarrow> \<not> failed_retryably (attempt (ps ! n) (world_after ps n w p ts rc) p ts rc)) \<and>
     result = apfst (map_sum id peeked) (attempt (ps ! n) (world_after ps n w p ts rc) p ts rc)"

lemma failover_from_settles:
  assumes "ps \<noteq> []"
  shows "\<exists>n. settles ps n w p ts rc (failover_from ps lastErr w p ts rc)"
  using assms
proof (induction ps arbitrary: lastErr w)
  case (Cons prov rest)
  obtain r w' where a: "attempt prov w p ts rc = (r, w')" by (cases "attempt prov w p ts rc")
  show ?case
  proof (cases "rest \<noteq> [] \<and> failed_retryably (r, w')")
    case True
    then obtain er where r: "r = Inl er" "ClassifyTrigger er = TriggerRetryable"
      by (cases r) (auto simp: failed_retryably_def)
    with Cons.IH [of w' er] True obtain n where
      "settles rest n w' p ts rc (failover_from rest er w' p ts rc)" by blast
    then have "settles (prov # rest) (Suc n) w p ts rc (failover_from (prov # rest) lastErr w p ts rc)"
      using a r True
      by (auto simp: settles_def failover_from_Cons less_Suc_eq_0_disj simp del: failover_from.simps)
    then show ?thesis ..
  next
    case False
    then have "settles (prov # rest) 0 w p ts rc (failover_from (prov # rest) lastErr w p ts rc)"
      using a by (cases r) (auto simp: settles_def failover_from_Cons failed_retryably_def simp del: failover_from.simps)
    then show ?thesis ..
  qed
qed simp

text \<open>
  C21: a failover call with at least one provider returns exactly the answer of one provider:
  every provider before it failed before its first chunk with a retryable error, and it is the
  last one or did not fail that way. So a context overflow or a permanent error is never
  retried, and no provider is called after one that produced a chunk.
\<close>

theorem failover_Stream_settles:
  assumes "ps \<noteq> []"
  shows "\<exists>n. settles ps n w p ts rc (failover_Stream ps w p ts rc)"
  using failover_from_settles [OF assms] assms by (simp add: failover_Stream_def)

theorem failover_Stream_settles_witness:
  "\<exists>n. settles
      [\<lambda>w p ts rc. (Inl (ThrottleError ''busy''), w + (1 :: nat)), \<lambda>w p ts rc. (Inr ([ChunkContent ''hi''], None), w + 10)]
      n 0 \<lparr>System = '''', Messages = []\<rparr> [] \<lparr>RcTenant = 1, RcSession = 2\<rparr>
      (failover_Stream
        [\<lambda>w p ts rc. (Inl (ThrottleError ''busy''), w + (1 :: nat)), \<lambda>w p ts rc. (Inr ([ChunkContent ''hi''], None), w + 10)]
        0 \<lparr>System = '''', Messages = []\<rparr> [] \<lparr>RcTenant = 1, RcSession = 2\<rparr>)"
  by (rule failover_Stream_settles) simp

section \<open>The peeked stream\<close>

fun nexts :: "nat \<Rightarrow> ('s \<Rightarrow> 'r \<times> 's) \<Rightarrow> 's \<Rightarrow> 'r list" where
  "nexts 0 nxt s = []"
| "nexts (Suc n) nxt s = (case nxt s of (r, s') \<Rightarrow> r # nexts n nxt s')"

lemma nexts_peeked_tail:
  "\<not> hasFirst ps \<Longrightarrow> nexts n peeked_Next ps = nexts n stream_Next (inner ps)"
  by (induction n arbitrary: ps) (auto simp: peeked_Next_def split: prod.splits)

text \<open>
  the stream a failover call hands out answers every sequence of \<^verbatim>\<open>Next\<close> calls as the
  provider's own stream would have, whatever the number of calls.
\<close>

theorem peeked_Next_replays:
  "case stream_Next s of (Inl _, _) \<Rightarrow> True | (Inr _, _) \<Rightarrow> nexts n peeked_Next (peeked s) = nexts n stream_Next s"
proof (cases n)
  case (Suc m)
  obtain r s' where "stream_Next s = (r, s')" by (cases "stream_Next s")
  then show ?thesis
    by (cases r) (simp_all add: Suc peeked_def peeked_Next_def nexts_peeked_tail)
qed (simp split: prod.splits sum.splits)

section \<open>Routing\<close>

text \<open>
  routing is total: every label and difficulty, known or not, gets one of the three models,
  an unknown or restricted label gets the most capable one, and confidential data never gets the
  smallest.
\<close>

theorem Route_total:
  "RouteModelID (Route label difficulty) \<in> {''claude-haiku-4-5'', ''claude-sonnet-5'', ''claude-opus-5''} \<and>
   (label \<notin> {''public'', ''internal'', ''confidential''} \<longrightarrow>
      RouteModelID (Route label difficulty) = ''claude-opus-5'') \<and>
   (RouteModelID (Route label difficulty) = ''claude-haiku-4-5'' \<longrightarrow>
      label \<in> {''public'', ''internal''} \<and> difficulty = ''simple'')"
  by (simp add: Route_def routeTable_def map_at_def)

theorem Route_total_witness:
  "RouteModelID (Route ''restricted'' ''simple'') = ''claude-opus-5''"
  using Route_total [of "''restricted''" "''simple''"] by simp

end
