(* ===== verification/Cost_Gate.thy ===== *)
theory Cost_Gate
  imports Cost_Ledger Cost_Counters Provider
begin

text \<open>
  The reserve-then-reconcile gate (\<^verbatim>\<open>internal/cost/gate.go\<close>, \<^verbatim>\<open>gate_helpers.go\<close>, \<^verbatim>\<open>reserve.go\<close>,
  \<^verbatim>\<open>reconcile.go\<close>). The gate's ports are the records of \<open>Cost_Ledger\<close> and \<open>Cost_Counters\<close>; the
  clock and the random source are arguments of the calls that read them. Calls are sequential:
  the gate's mutex protects its maps, and an interleaving of two calls is not modelled.
  The lemmas show when a reservation is refused, that an allowed one stays within both
  ceilings, that reserving and then reconciling charges exactly the actual cost, and that a
  cold start arms a counter with the spend the ledger has recorded.
\<close>

section \<open>State\<close>

definition DefaultCurrency :: string where
  "DefaultCurrency = ''USD''"

datatype purpose =
    PurposeTurn | PurposeCompaction | PurposeSafetyModel | PurposeHookPrompt | PurposeJudge
  | PurposeTitle | PurposeEmbedding

record reserve_request =
  ReqTenant :: uuid
  ReqSession :: uuid
  ReqModel :: string
  ReqPurpose :: purpose

record reservation =
  ResID :: uuid
  ResTenant :: uuid
  ResSession :: uuid
  ResModel :: string
  ResDecision :: decision
  sessionBudget :: "budget option"
  tenantBudget :: "budget option"
  tenantEpoch :: int

record gate_config =
  CfgCurrency :: string
  MaxInputTokenEstimate :: int
  MaxOutputTokenEstimate :: int
  MaxEmbeddingTokenEstimate :: int
  DegradeThresholdPercent :: int

definition withDefaults :: "gate_config \<Rightarrow> gate_config" where
  "withDefaults c0 =
     (let c1 = (if CfgCurrency c0 = '''' then c0\<lparr>CfgCurrency := DefaultCurrency\<rparr> else c0);
          c2 = (if MaxInputTokenEstimate c1 \<le> 0 then c1\<lparr>MaxInputTokenEstimate := 8000\<rparr> else c1);
          c3 = (if MaxOutputTokenEstimate c2 \<le> 0 then c2\<lparr>MaxOutputTokenEstimate := 4096\<rparr> else c2);
          c4 = (if MaxEmbeddingTokenEstimate c3 \<le> 0 then c3\<lparr>MaxEmbeddingTokenEstimate := 8000\<rparr> else c3)
      in if DegradeThresholdPercent c4 \<le> 0 then c4\<lparr>DegradeThresholdPercent := 80\<rparr> else c4)"

record session_ceil =
  ceil_budget :: "budget option"
  spent :: money

text \<open>
  A gate is its construction-time part \<open>gate_env\<close> (the two ports, the meters, the
  configuration) and its mutable part \<open>gate\<close>, which also holds the ports' own states.
\<close>

record ('l, 'c) gate_env =
  ledgerP :: "'l ledger_port"
  countersP :: "'c counters_port option"
  meters :: meter_registry
  cfg :: gate_config

record ('l, 'c) gate =
  g_ledger :: 'l
  g_counters :: 'c
  g_priceBooks :: "uuid \<rightharpoonup> price_book"
  sessionState :: "uuid \<rightharpoonup> session_ceil"
  tenantCache :: "uuid \<rightharpoonup> budget option"
  armed :: "uuid \<Rightarrow> bool"

definition NewGate ::
    "'l ledger_port \<Rightarrow> 'l \<Rightarrow> 'c counters_port option \<Rightarrow> 'c \<Rightarrow> meter_registry option \<Rightarrow> gate_config
      \<Rightarrow> ('l, 'c) gate_env \<times> ('l, 'c) gate" where
  "NewGate lp l cp c ms gc =
     (\<lparr>ledgerP = lp, countersP = cp,
       meters = (case ms of None \<Rightarrow> DefaultMeters | Some m \<Rightarrow> m), cfg = withDefaults gc\<rparr>,
      \<lparr>g_ledger = l, g_counters = c, g_priceBooks = Map.empty, sessionState = Map.empty,
       tenantCache = Map.empty, armed = (\<lambda>_. False)\<rparr>)"

definition session_spent :: "('l, 'c) gate \<Rightarrow> uuid \<Rightarrow> money" where
  "session_spent g sid = (case sessionState g sid of None \<Rightarrow> no_money | Some st \<Rightarrow> spent st)"

section \<open>Helpers\<close>

definition subject_of :: "string \<Rightarrow> string" where
  "subject_of modelID = (if modelID = '''' then WildcardSubject else modelID)"

definition worstCaseCost ::
    "('l, 'c) gate_env \<Rightarrow> price_book \<Rightarrow> string \<Rightarrow> purpose \<Rightarrow> timestamp \<Rightarrow> err + money" where
  "worstCaseCost E pb modelID purp now =
     (let subject = subject_of modelID in
      if purp = PurposeEmbedding
      then Cost pb MeterEmbeddingTokens subject (MaxEmbeddingTokenEstimate (cfg E)) now
      else
        case Cost pb MeterInputUncached subject (MaxInputTokenEstimate (cfg E)) now of
          Inl er \<Rightarrow> Inl er
        | Inr inp \<Rightarrow>
            (case Cost pb MeterOutput subject (MaxOutputTokenEstimate (cfg E)) now of
               Inl er \<Rightarrow> Inl er
             | Inr out \<Rightarrow> (case Add inp out of (m, None) \<Rightarrow> Inr m | (m, Some er) \<Rightarrow> Inl er)))"

definition priceBookFor ::
    "('l, 'c) gate_env \<Rightarrow> ('l, 'c) gate \<Rightarrow> uuid \<Rightarrow> (err + price_book) \<times> ('l, 'c) gate" where
  "priceBookFor E g tenantID =
     (case g_priceBooks g tenantID of
        Some pb \<Rightarrow> (Inr pb, g)
      | None \<Rightarrow>
          (case LLoadPriceBook (ledgerP E) (g_ledger g) tenantID of
             (Inl er, l) \<Rightarrow> (Inl er, g\<lparr>g_ledger := l\<rparr>)
           | (Inr pb, l) \<Rightarrow>
               (Inr pb, g\<lparr>g_ledger := l, g_priceBooks := (g_priceBooks g)(tenantID \<mapsto> pb)\<rparr>)))"

text \<open>The Ledger's answer already has the shape of \<^verbatim>\<open>budgetFor\<close>'s: an error, no budget, or one.\<close>

definition budgetFor ::
    "('l, 'c) gate_env \<Rightarrow> ('l, 'c) gate \<Rightarrow> uuid \<Rightarrow> budget_scope \<Rightarrow> uuid option
      \<Rightarrow> (err + budget option) \<times> ('l, 'c) gate" where
  "budgetFor E g tenantID scope scopeRef =
     (let (r, l) = LGetBudget (ledgerP E) (g_ledger g) tenantID scope scopeRef in (r, g\<lparr>g_ledger := l\<rparr>))"

definition sessionBudgetFor ::
    "('l, 'c) gate_env \<Rightarrow> ('l, 'c) gate \<Rightarrow> uuid \<Rightarrow> uuid \<Rightarrow> (err + budget option) \<times> ('l, 'c) gate" where
  "sessionBudgetFor E g tenantID sessionID =
     (case sessionState g sessionID of
        Some st \<Rightarrow> (Inr (ceil_budget st), g)
      | None \<Rightarrow>
          (case budgetFor E g tenantID BudgetScopeSession (Some sessionID) of
             (Inl er, g') \<Rightarrow> (Inl er, g')
           | (Inr found, g') \<Rightarrow>
               (Inr found,
                g'\<lparr>sessionState := (sessionState g')(sessionID \<mapsto> \<lparr>ceil_budget = found, spent = no_money\<rparr>)\<rparr>)))"

definition tenantBudgetFor ::
    "('l, 'c) gate_env \<Rightarrow> ('l, 'c) gate \<Rightarrow> uuid \<Rightarrow> (err + budget option) \<times> ('l, 'c) gate" where
  "tenantBudgetFor E g tenantID =
     (case tenantCache g tenantID of
        Some b \<Rightarrow> (Inr b, g)
      | None \<Rightarrow>
          (case budgetFor E g tenantID BudgetScopeTenant None of
             (Inl er, g') \<Rightarrow> (Inl er, g')
           | (Inr found, g') \<Rightarrow> (Inr found, g'\<lparr>tenantCache := (tenantCache g')(tenantID \<mapsto> found)\<rparr>)))"

definition ensureArmed ::
    "('l, 'c) gate_env \<Rightarrow> 'c counters_port \<Rightarrow> ('l, 'c) gate \<Rightarrow> uuid \<Rightarrow> budget \<Rightarrow> err option \<times> ('l, 'c) gate" where
  "ensureArmed E P g tenantID b =
     (if armed g (BudgetID b) then (None, g)
      else
        case LSumCostRecords (ledgerP E) (g_ledger g) tenantID BudgetScopeTenant None of
          (Inl er, l) \<Rightarrow> (Some (Wrapped ''sum existing cost records to arm budget'' er), g\<lparr>g_ledger := l\<rparr>)
        | (Inr baseline, l) \<Rightarrow>
            (case CArm P (g_counters g) (BudgetID b) (Epoch b) baseline of
               (Some er, c) \<Rightarrow> (Some er, g\<lparr>g_ledger := l, g_counters := c\<rparr>)
             | (None, c) \<Rightarrow>
                 (None, g\<lparr>g_ledger := l, g_counters := c, armed := (armed g)(BudgetID b := True)\<rparr>)))"

definition persistDecision ::
    "('l, 'c) gate_env \<Rightarrow> ('l, 'c) gate \<Rightarrow> uuid \<Rightarrow> uuid \<Rightarrow> decision \<Rightarrow> err option \<times> ('l, 'c) gate" where
  "persistDecision E g tenantID sessionID d =
     (let (er, l) = LRecordDecision (ledgerP E) (g_ledger g) tenantID sessionID d in (er, g\<lparr>g_ledger := l\<rparr>))"

definition bestEffortPersist ::
    "('l, 'c) gate_env \<Rightarrow> ('l, 'c) gate \<Rightarrow> uuid \<Rightarrow> uuid \<Rightarrow> decision \<Rightarrow> ('l, 'c) gate" where
  "bestEffortPersist E g tenantID sessionID d = snd (persistDecision E g tenantID sessionID d)"

definition refuse ::
    "('l, 'c) gate_env \<Rightarrow> ('l, 'c) gate \<Rightarrow> (decision \<Rightarrow> reservation) \<Rightarrow> uuid option \<Rightarrow> money \<Rightarrow> string
      \<Rightarrow> (reservation \<times> err option) \<times> ('l, 'c) gate" where
  "refuse E g res budgetID reserved reason =
     (let d = \<lparr>Kind = DecisionRefuseCeiling, DecReason = reason, DecBudgetID = budgetID,
               Reserved = \<lparr>Micros = 0, Currency = Currency reserved\<rparr>\<rparr>;
          r = res d
      in ((r, Some (Err (''cost: '' @ reason))), bestEffortPersist E g (ResTenant r) (ResSession r) d))"

definition decisionReason :: "decision_kind \<Rightarrow> budget option \<Rightarrow> budget option \<Rightarrow> string" where
  "decisionReason kind sessBudget tenBudget =
     (if kind = DecisionDegrade
      then ''reservation fit but crossed the soft threshold toward a configured ceiling''
      else case (sessBudget, tenBudget) of
             (Some _, Some _) \<Rightarrow> ''session ceiling has room; tenant ceiling has room''
           | (Some _, None) \<Rightarrow> ''session ceiling has room''
           | (None, Some _) \<Rightarrow> ''tenant ceiling has room''
           | (None, None) \<Rightarrow> '''')"

section \<open>Reserve\<close>

text \<open>
  The session half: the tentative spend and whether it crosses the soft threshold, or the
  reason to refuse. The error of the addition is dropped, as in the code.
\<close>

definition session_leg ::
    "('l, 'c) gate_env \<Rightarrow> ('l, 'c) gate \<Rightarrow> reserve_request \<Rightarrow> money \<Rightarrow> budget option \<Rightarrow> string + money \<times> bool" where
  "session_leg E g req worst sessBudget =
     (case sessBudget of
        None \<Rightarrow> Inr (no_money, False)
      | Some b \<Rightarrow>
          (let current0 = session_spent g (ReqSession req);
               current = (if Currency current0 = '''' then \<lparr>Micros = 0, Currency = Currency (Ceiling b)\<rparr> else current0);
               tentativeSessionSpent = fst (Add current worst)
           in if Micros tentativeSessionSpent > Micros (Ceiling b)
              then Inl (''session budget ceiling '' @ money_String (Ceiling b) @
                        '' exceeded (this reservation would reach '' @ money_String tentativeSessionSpent @ '')'')
              else Inr (tentativeSessionSpent,
                        i64 (Micros tentativeSessionSpent * 100)
                          \<ge> i64 (Micros (Ceiling b) * DegradeThresholdPercent (cfg E)))))"

text \<open>
  The tenant half: the soft-threshold flag, whether the counter holds a reservation, and the
  epoch it was taken under, or the reason to refuse.
\<close>

definition tenant_leg ::
    "('l, 'c) gate_env \<Rightarrow> ('l, 'c) gate \<Rightarrow> reserve_request \<Rightarrow> money \<Rightarrow> budget option \<Rightarrow> bool
      \<Rightarrow> (string + bool \<times> bool \<times> int) \<times> ('l, 'c) gate" where
  "tenant_leg E g req worst tenBudget softHit =
     (case tenBudget of
        None \<Rightarrow> (Inr (softHit, False, 0), g)
      | Some b \<Rightarrow>
          (case countersP E of
             None \<Rightarrow> (Inl ''tenant budget configured but no counter is wired (fail closed)'', g)
           | Some P \<Rightarrow>
               (case ensureArmed E P g (ReqTenant req) b of
                  (Some er, g1) \<Rightarrow> (Inl (''tenant budget epoch unavailable (fail closed): '' @ err_msg er), g1)
                | (None, g1) \<Rightarrow>
                    (case CReserve P (g_counters g1) (BudgetID b) (Epoch b) (Micros worst) (Micros (Ceiling b)) of
                       ((outcome, tot, rerr), c) \<Rightarrow>
                         (let g2 = g1\<lparr>g_counters := c\<rparr> in
                          case rerr of
                            Some er \<Rightarrow> (Inl (''tenant budget check failed (fail closed): '' @ err_msg er), g2)
                          | None \<Rightarrow>
                              (case outcome of
                                 ReserveUnavailable \<Rightarrow>
                                   (Inl ''tenant budget epoch unavailable (fail closed, never assumed zero spend)'', g2)
                               | ReserveStaleEpoch \<Rightarrow>
                                   (Inl ''tenant budget epoch changed since last check (fail closed)'', g2)
                               | ReserveOverCeiling \<Rightarrow>
                                   (Inl (''tenant budget ceiling '' @ money_String (Ceiling b) @ '' exceeded (already at '' @
                                         money_String \<lparr>Micros = tot, Currency = Currency (Ceiling b)\<rparr> @ '')''), g2)
                               | ReserveOK \<Rightarrow>
                                   (Inr (softHit \<or> i64 (tot * 100) \<ge> i64 (Micros (Ceiling b) * DegradeThresholdPercent (cfg E)),
                                         True, Epoch b), g2)))))))"

text \<open>
  The last part: record the decision, rolling the counter back when that fails, and only then
  move the session's spend.
\<close>

definition settle ::
    "('l, 'c) gate_env \<Rightarrow> ('l, 'c) gate \<Rightarrow> uuid \<Rightarrow> reserve_request \<Rightarrow> money \<Rightarrow> money \<Rightarrow> budget option \<Rightarrow> budget option
      \<Rightarrow> bool \<Rightarrow> bool \<Rightarrow> int \<Rightarrow> (reservation \<times> err option) \<times> ('l, 'c) gate" where
  "settle E g resID req worst tentativeSessionSpent sessBudget tenBudget softHit reservedInRedis epo =
     (let deciding = (case sessBudget of None \<Rightarrow> tenBudget | Some b \<Rightarrow> Some b);
          kind = (if softHit then DecisionDegrade else DecisionAllow);
          d = \<lparr>Kind = kind, DecReason = decisionReason kind sessBudget tenBudget,
               DecBudgetID = map_option BudgetID deciding, Reserved = worst\<rparr>;
          res = (\<lambda>d sb tb. \<lparr>ResID = resID, ResTenant = ReqTenant req, ResSession = ReqSession req,
                      ResModel = ReqModel req, ResDecision = d, sessionBudget = sb, tenantBudget = tb,
                      tenantEpoch = epo\<rparr>)
      in case persistDecision E g (ReqTenant req) (ReqSession req) d of
           (Some er, g1) \<Rightarrow>
             (let g2 = (case (reservedInRedis, tenBudget, countersP E) of
                          (True, Some b, Some P) \<Rightarrow>
                            g1\<lparr>g_counters := snd (CRelease P (g_counters g1) (BudgetID b) (Epoch b) (Micros worst))\<rparr>
                        | _ \<Rightarrow> g1)
              in refuse E g2 (\<lambda>d. res d None None) (map_option BudgetID deciding) worst
                   (''failed to record budget decision (fail closed): '' @ err_msg er))
         | (None, g1) \<Rightarrow>
             (let g2 = (case sessBudget of
                          None \<Rightarrow> g1
                        | Some b \<Rightarrow>
                            g1\<lparr>sessionState := (sessionState g1)
                                 (ReqSession req \<mapsto> \<lparr>ceil_budget = Some b, spent = tentativeSessionSpent\<rparr>)\<rparr>)
              in ((res d sessBudget tenBudget, None), g2)))"

definition Reserve ::
    "('l, 'c) gate_env \<Rightarrow> ('l, 'c) gate \<Rightarrow> uuid \<Rightarrow> timestamp \<Rightarrow> reserve_request
      \<Rightarrow> (reservation \<times> err option) \<times> ('l, 'c) gate" where
  "Reserve E g resID now req =
     (let res = (\<lambda>d. \<lparr>ResID = resID, ResTenant = ReqTenant req, ResSession = ReqSession req,
                     ResModel = ReqModel req, ResDecision = d, sessionBudget = None, tenantBudget = None,
                     tenantEpoch = 0\<rparr>);
          zero = \<lparr>Micros = 0, Currency = CfgCurrency (cfg E)\<rparr>
      in case priceBookFor E g (ReqTenant req) of
           (Inl er, g1) \<Rightarrow> refuse E g1 res None zero (''price book unavailable (fail closed): '' @ err_msg er)
         | (Inr pb, g1) \<Rightarrow>
        (case worstCaseCost E pb (ReqModel req) (ReqPurpose req) now of
           Inl er \<Rightarrow> refuse E g1 res None zero (''cannot price a worst-case reservation (fail closed): '' @ err_msg er)
         | Inr worst \<Rightarrow>
        (case sessionBudgetFor E g1 (ReqTenant req) (ReqSession req) of
           (Inl er, g2) \<Rightarrow> refuse E g2 res None worst (''session budget lookup failed (fail closed): '' @ err_msg er)
         | (Inr sessBudget, g2) \<Rightarrow>
        (case tenantBudgetFor E g2 (ReqTenant req) of
           (Inl er, g3) \<Rightarrow> refuse E g3 res None worst (''tenant budget lookup failed (fail closed): '' @ err_msg er)
         | (Inr tenBudget, g3) \<Rightarrow>
             if sessBudget = None \<and> tenBudget = None then
               (let d = \<lparr>Kind = DecisionSkip, DecReason = ''no session- or tenant-scoped budget configured'',
                         DecBudgetID = None, Reserved = zero\<rparr>
                in ((res d, None), bestEffortPersist E g3 (ReqTenant req) (ReqSession req) d))
             else
               (case session_leg E g3 req worst sessBudget of
                  Inl reason \<Rightarrow> refuse E g3 res (map_option BudgetID sessBudget) worst reason
                | Inr (tentativeSessionSpent, softHit) \<Rightarrow>
                    (case tenant_leg E g3 req worst tenBudget softHit of
                       (Inl reason, g4) \<Rightarrow> refuse E g4 res (map_option BudgetID tenBudget) worst reason
                     | (Inr (softHit', reservedInRedis, epo), g4) \<Rightarrow>
                         settle E g4 resID req worst tentativeSessionSpent sessBudget tenBudget
                           softHit' reservedInRedis epo))))))"

section \<open>Reconcile\<close>

text \<open>The tail both reconciliations share: give back what was reserved and not used.\<close>

definition finishReconcile ::
    "('l, 'c) gate_env \<Rightarrow> ('l, 'c) gate \<Rightarrow> reservation \<Rightarrow> money \<Rightarrow> err option \<times> ('l, 'c) gate" where
  "finishReconcile E g res actual =
     (if Kind (ResDecision res) = DecisionSkip \<or> Kind (ResDecision res) = DecisionRefuseCeiling then (None, g)
      else
        let reserved0 = Reserved (ResDecision res);
            reserved = (if Currency reserved0 = '''' then reserved0\<lparr>Currency := CfgCurrency (cfg E)\<rparr> else reserved0)
        in case Sub reserved actual of
             (_, Some er) \<Rightarrow> (Some (Wrapped ''cost: reconcile'' er), g)
           | (delta, None) \<Rightarrow>
               (let g1 = (case sessionBudget res of
                            None \<Rightarrow> g
                          | Some _ \<Rightarrow>
                              (case Sub (session_spent g (ResSession res)) delta of
                                 (_, Some _) \<Rightarrow> g
                               | (adjusted, None) \<Rightarrow>
                                   g\<lparr>sessionState := (sessionState g)(ResSession res \<mapsto>
                                       \<lparr>ceil_budget = (case sessionState g (ResSession res) of
                                                          None \<Rightarrow> None | Some st \<Rightarrow> ceil_budget st),
                                        spent = adjusted\<rparr>)\<rparr>));
                    g2 = (case (tenantBudget res, countersP E) of
                            (Some b, Some P) \<Rightarrow>
                              g1\<lparr>g_counters := snd (CRelease P (g_counters g1) (BudgetID b) (tenantEpoch res) (Micros delta))\<rparr>
                          | _ \<Rightarrow> g1)
                in (None, g2)))"

definition cost_record_of :: "reservation \<Rightarrow> meter_id \<Rightarrow> int \<Rightarrow> string \<Rightarrow> bool \<Rightarrow> money \<Rightarrow> cost_record" where
  "cost_record_of res m qty un unreported c =
     \<lparr>RecID = 0, ReservationID = Some (ResID res), RecMeter = m, Quantity = qty, RecUnit = un,
      RecCost = c, RecModelID = ResModel res, Unreported = unreported\<rparr>"

text \<open>The loop over the four token classes; a class with no tokens is skipped.\<close>

fun price_usage ::
    "('l, 'c) gate_env \<Rightarrow> price_book \<Rightarrow> reservation \<Rightarrow> string \<Rightarrow> timestamp \<Rightarrow> (meter_id \<times> int) list
      \<Rightarrow> cost_record list \<Rightarrow> money \<Rightarrow> err + cost_record list \<times> money" where
  "price_usage E pb res subject now [] recs actual = Inr (recs, actual)"
| "price_usage E pb res subject now ((m, qty) # us) recs actual =
     (if qty = 0 then price_usage E pb res subject now us recs actual
      else
        case meter_Lookup (meters E) m of
          None \<Rightarrow> Inl (Wrapped ''cost: reconcile'' (Err (''cost: unknown meter '' @ quoted m)))
        | Some mt \<Rightarrow>
            (case Cost pb m subject qty now of
               Inl er \<Rightarrow> Inl (Wrapped ''cost: reconcile'' er)
             | Inr c \<Rightarrow>
                 price_usage E pb res subject now us
                   (recs @ [cost_record_of res m qty (Unit mt) False c]) (fst (Add actual c))))"

definition usage_classes :: "usage \<Rightarrow> (meter_id \<times> int) list" where
  "usage_classes u =
     [(MeterInputUncached, InputUncached u), (MeterInputCacheRead, InputCacheRead u),
      (MeterInputCacheWrite, InputCacheWrite u), (MeterOutput, OutputTokens u)]"

definition unreported_charge :: "('l, 'c) gate_env \<Rightarrow> reservation \<Rightarrow> money" where
  "unreported_charge E res =
     (let actual = Reserved (ResDecision res)
      in if Currency actual = '''' then actual\<lparr>Currency := CfgCurrency (cfg E)\<rparr> else actual)"

definition record_and_finish ::
    "('l, 'c) gate_env \<Rightarrow> ('l, 'c) gate \<Rightarrow> string \<Rightarrow> reservation \<Rightarrow> cost_record list \<Rightarrow> money
      \<Rightarrow> err option \<times> ('l, 'c) gate" where
  "record_and_finish E g pre res recs actual =
     (if length recs > 0 then
        (case LRecordUsage (ledgerP E) (g_ledger g) (ResTenant res) (ResSession res) recs of
           (Some er, l) \<Rightarrow> (Some (Wrapped pre er), g\<lparr>g_ledger := l\<rparr>)
         | (None, l) \<Rightarrow> finishReconcile E (g\<lparr>g_ledger := l\<rparr>) res actual)
      else finishReconcile E g res actual)"

definition Reconcile ::
    "('l, 'c) gate_env \<Rightarrow> ('l, 'c) gate \<Rightarrow> timestamp \<Rightarrow> reservation \<Rightarrow> usage \<Rightarrow> bool \<Rightarrow> err option \<times> ('l, 'c) gate" where
  "Reconcile E g now res u reported =
     (let subject = subject_of (ResModel res) in
      if \<not> reported then
        (let actual = unreported_charge E res
         in record_and_finish E g ''cost: reconcile'' res
              [cost_record_of res MeterUnreportedReservation 1 ''reservation'' True actual] actual)
      else
        case priceBookFor E g (ResTenant res) of
          (Inl er, g1) \<Rightarrow> (Some (Wrapped ''cost: reconcile: price book unavailable'' er), g1)
        | (Inr pb, g1) \<Rightarrow>
            (case price_usage E pb res subject now (usage_classes u) [] \<lparr>Micros = 0, Currency = CfgCurrency (cfg E)\<rparr> of
               Inl er \<Rightarrow> (Some er, g1)
             | Inr (recs, actual) \<Rightarrow> record_and_finish E g1 ''cost: reconcile'' res recs actual))"

definition ReconcileUsage ::
    "('l, 'c) gate_env \<Rightarrow> ('l, 'c) gate \<Rightarrow> timestamp \<Rightarrow> reservation \<Rightarrow> int \<Rightarrow> int \<Rightarrow> int \<Rightarrow> int \<Rightarrow> bool
      \<Rightarrow> err option \<times> ('l, 'c) gate" where
  "ReconcileUsage E g now res inputUncached inputCacheRead inputCacheWrite outputTokens reported =
     Reconcile E g now res
       \<lparr>InputUncached = inputUncached, InputCacheRead = inputCacheRead,
        InputCacheWrite = inputCacheWrite, OutputTokens = outputTokens\<rparr> reported"

definition ReconcileEmbedding ::
    "('l, 'c) gate_env \<Rightarrow> ('l, 'c) gate \<Rightarrow> timestamp \<Rightarrow> reservation \<Rightarrow> int \<Rightarrow> bool \<Rightarrow> err option \<times> ('l, 'c) gate" where
  "ReconcileEmbedding E g now res tokensUsed reported =
     (let subject = subject_of (ResModel res); pre = ''cost: reconcile embedding'' in
      if \<not> reported then
        (let actual = unreported_charge E res
         in record_and_finish E g pre res
              [cost_record_of res MeterUnreportedReservation 1 ''reservation'' True actual] actual)
      else if tokensUsed > 0 then
        (case priceBookFor E g (ResTenant res) of
           (Inl er, g1) \<Rightarrow> (Some (Wrapped ''cost: reconcile embedding: price book unavailable'' er), g1)
         | (Inr pb, g1) \<Rightarrow>
             (case Cost pb MeterEmbeddingTokens subject tokensUsed now of
                Inl er \<Rightarrow> (Some (Wrapped pre er), g1)
              | Inr c \<Rightarrow>
                  record_and_finish E g1 pre res
                    [cost_record_of res MeterEmbeddingTokens tokensUsed ''tokens'' False c] c))
      else record_and_finish E g pre res [] \<lparr>Micros = 0, Currency = CfgCurrency (cfg E)\<rparr>)"

definition Record ::
    "('l, 'c) gate_env \<Rightarrow> ('l, 'c) gate \<Rightarrow> timestamp \<Rightarrow> uuid \<Rightarrow> uuid \<Rightarrow> meter_id \<Rightarrow> int \<Rightarrow> string
      \<Rightarrow> err option \<times> ('l, 'c) gate" where
  "Record E g now tenantID sessionID m qty modelID =
     (case meter_Lookup (meters E) m of
        None \<Rightarrow> (Some (Err (''cost: unknown meter '' @ quoted m)), g)
      | Some mt \<Rightarrow>
          (case priceBookFor E g tenantID of
             (Inl er, g1) \<Rightarrow> (Some (Wrapped ''cost: record: price book unavailable'' er), g1)
           | (Inr pb, g1) \<Rightarrow>
               (case Cost pb m (subject_of modelID) qty now of
                  Inl er \<Rightarrow> (Some (Wrapped ''cost: record'' er), g1)
                | Inr c \<Rightarrow>
                    (case LRecordUsage (ledgerP E) (g_ledger g1) tenantID sessionID
                            [\<lparr>RecID = 0, ReservationID = None, RecMeter = m, Quantity = qty, RecUnit = Unit mt,
                              RecCost = c, RecModelID = modelID, Unreported = False\<rparr>] of
                       (er, l) \<Rightarrow> (er, g1\<lparr>g_ledger := l\<rparr>)))))"

section \<open>What the helpers touch\<close>

lemma refuse_eq:
  "refuse E g res bid reserved reason =
     (let d = \<lparr>Kind = DecisionRefuseCeiling, DecReason = reason, DecBudgetID = bid,
               Reserved = \<lparr>Micros = 0, Currency = Currency reserved\<rparr>\<rparr>
      in ((res d, Some (Err (''cost: '' @ reason))),
          g\<lparr>g_ledger := snd (LRecordDecision (ledgerP E) (g_ledger g) (ResTenant (res d)) (ResSession (res d)) d)\<rparr>))"
  by (simp add: refuse_def bestEffortPersist_def persistDecision_def Let_def split: prod.splits)

lemma priceBookFor_frame:
  "priceBookFor E g t = (r, g') \<Longrightarrow>
     sessionState g' = sessionState g \<and> g_counters g' = g_counters g \<and> armed g' = armed g \<and>
     tenantCache g' = tenantCache g \<and> g_ledger g' \<in> {g_ledger g, snd (LLoadPriceBook (ledgerP E) (g_ledger g) t)}"
  by (auto simp: priceBookFor_def split: option.splits prod.splits sum.splits)

lemma tenantBudgetFor_frame:
  "tenantBudgetFor E g t = (r, g') \<Longrightarrow>
     sessionState g' = sessionState g \<and> g_counters g' = g_counters g \<and> armed g' = armed g \<and>
     g_ledger g' \<in> {g_ledger g, snd (LGetBudget (ledgerP E) (g_ledger g) t BudgetScopeTenant None)} \<and>
     (\<forall>b. tenantCache g t = Some b \<longrightarrow> r = Inr b)"
  by (auto simp: tenantBudgetFor_def budgetFor_def Let_def split: option.splits prod.splits sum.splits)

text \<open>A session's first look-up starts its spend at the zero amount, which it already reads as.\<close>

lemma sessionBudgetFor_frame:
  "sessionBudgetFor E g t s = (r, g') \<Longrightarrow>
     session_spent g' = session_spent g \<and> g_counters g' = g_counters g \<and> armed g' = armed g \<and>
     tenantCache g' = tenantCache g \<and>
     g_ledger g' \<in> {g_ledger g, snd (LGetBudget (ledgerP E) (g_ledger g) t BudgetScopeSession (Some s))}"
  by (auto simp: sessionBudgetFor_def budgetFor_def Let_def session_spent_def fun_eq_iff
      split: option.splits prod.splits sum.splits if_splits)

lemma ensureArmed_frame:
  "ensureArmed E P g t b = (r, g') \<Longrightarrow>
     sessionState g' = sessionState g \<and> tenantCache g' = tenantCache g \<and>
     g_ledger g' \<in> {g_ledger g, snd (LSumCostRecords (ledgerP E) (g_ledger g) t BudgetScopeTenant None)}"
  by (auto simp: ensureArmed_def split: option.splits prod.splits sum.splits if_splits)

lemma tenant_leg_frame:
  "tenant_leg E g req worst tb soft = (r, g') \<Longrightarrow>
     sessionState g' = sessionState g \<and>
     g_ledger g' \<in> {g_ledger g, snd (LSumCostRecords (ledgerP E) (g_ledger g) (ReqTenant req) BudgetScopeTenant None)}"
  by (auto simp: tenant_leg_def Let_def dest!: ensureArmed_frame
      split: option.splits prod.splits reserve_outcome.splits)

lemmas gate_frames = priceBookFor_frame tenantBudgetFor_frame sessionBudgetFor_frame tenant_leg_frame

section \<open>Inverting a reservation\<close>

lemma Reserve_cases_legs:
  assumes b: "priceBookFor E g (ReqTenant req) = (Inr pb, g1)"
      "worstCaseCost E pb (ReqModel req) (ReqPurpose req) now = Inr worst"
      "sessionBudgetFor E g1 (ReqTenant req) (ReqSession req) = (Inr sb, g2)"
      "tenantBudgetFor E g2 (ReqTenant req) = (Inr tb, g3)"
  obtains
    (refused) g1 res bid m reason where
      "Reserve E g resID now req = refuse E g1 res bid m reason"
      "\<And>d. ResID (res d) = resID \<and> ResTenant (res d) = ReqTenant req \<and> ResSession (res d) = ReqSession req \<and>
            ResDecision (res d) = d"
  | (skip) g1 d where
      "Reserve E g resID now req =
         ((\<lparr>ResID = resID, ResTenant = ReqTenant req, ResSession = ReqSession req, ResModel = ReqModel req,
            ResDecision = d, sessionBudget = None, tenantBudget = None, tenantEpoch = 0\<rparr>, None), g1)"
      "Kind d = DecisionSkip" "sb = None" "tb = None"
      "g1 = bestEffortPersist E g3 (ReqTenant req) (ReqSession req) d"
  | (settled) tent soft soft' red epo g4 where
      "session_leg E g3 req worst sb = Inr (tent, soft)"
      "tenant_leg E g3 req worst tb soft = (Inr (soft', red, epo), g4)"
      "Reserve E g resID now req = settle E g4 resID req worst tent sb tb soft' red epo"
proof (cases "sb = None \<and> tb = None")
  case True
  show thesis by (rule skip) (simp add: Reserve_def Let_def b True, simp_all add: True b)
next
  case False
  note R = Reserve_def Let_def b False
  show thesis
  proof (cases "session_leg E g3 req worst sb")
    case (Inl reason)
    show thesis by (rule refused) (simp add: R Inl, simp)
  next
    case 5: (Inr p)
    obtain tent soft where p: "p = (tent, soft)" by force
    obtain r g4 where 6: "tenant_leg E g3 req worst tb soft = (r, g4)" by force
    show thesis
    proof (cases r)
      case (Inl reason)
      show thesis by (rule refused) (simp add: R 5 p 6 Inl, simp)
    next
      case (Inr q)
      obtain soft' red epo where q: "q = (soft', red, epo)" by (cases q)
      show thesis by (rule settled) (use 5 p 6 Inr q in \<open>simp_all add: R\<close>)
    qed
  qed
qed

text \<open>Every call ends in a refusal, in the skip of an unbudgeted call, or in \<^const>\<open>settle\<close>.\<close>

lemma Reserve_cases:
  obtains
    (refused) g1 res bid m reason where
      "Reserve E g resID now req = refuse E g1 res bid m reason"
      "\<And>d. ResID (res d) = resID \<and> ResTenant (res d) = ReqTenant req \<and> ResSession (res d) = ReqSession req \<and>
            ResDecision (res d) = d"
  | (skip) pb g1 g2 g3 g4 d where
      "priceBookFor E g (ReqTenant req) = (Inr pb, g1)"
      "sessionBudgetFor E g1 (ReqTenant req) (ReqSession req) = (Inr None, g2)"
      "tenantBudgetFor E g2 (ReqTenant req) = (Inr None, g3)"
      "Reserve E g resID now req =
         ((\<lparr>ResID = resID, ResTenant = ReqTenant req, ResSession = ReqSession req, ResModel = ReqModel req,
            ResDecision = d, sessionBudget = None, tenantBudget = None, tenantEpoch = 0\<rparr>, None), g4)"
      "Kind d = DecisionSkip"
      "g4 = bestEffortPersist E g3 (ReqTenant req) (ReqSession req) d"
  | (settled) pb g1 worst sb g2 tb g3 tent soft soft' red epo g4 where
      "priceBookFor E g (ReqTenant req) = (Inr pb, g1)"
      "worstCaseCost E pb (ReqModel req) (ReqPurpose req) now = Inr worst"
      "sessionBudgetFor E g1 (ReqTenant req) (ReqSession req) = (Inr sb, g2)"
      "tenantBudgetFor E g2 (ReqTenant req) = (Inr tb, g3)"
      "session_leg E g3 req worst sb = Inr (tent, soft)"
      "tenant_leg E g3 req worst tb soft = (Inr (soft', red, epo), g4)"
      "Reserve E g resID now req = settle E g4 resID req worst tent sb tb soft' red epo"
proof -
  note R = Reserve_def Let_def
  obtain r1 g1 where 1: "priceBookFor E g (ReqTenant req) = (r1, g1)" by force
  show thesis
  proof (cases r1)
    case (Inl er)
    show thesis by (rule refused) (simp add: R 1 Inl, simp)
  next
    case (Inr pb)
    note 1 = 1 [unfolded Inr]
    show thesis
    proof (cases "worstCaseCost E pb (ReqModel req) (ReqPurpose req) now")
      case (Inl er)
      show thesis by (rule refused) (simp add: R 1 Inl, simp)
    next
      case 2: (Inr worst)
      obtain r2 g2 where 3: "sessionBudgetFor E g1 (ReqTenant req) (ReqSession req) = (r2, g2)" by force
      show thesis
      proof (cases r2)
        case (Inl er)
        show thesis by (rule refused) (simp add: R 1 2 3 Inl, simp)
      next
        case (Inr sb)
        note 3 = 3 [unfolded Inr]
        obtain r3 g3 where 4: "tenantBudgetFor E g2 (ReqTenant req) = (r3, g3)" by force
        show thesis
        proof (cases r3)
          case (Inl er)
          show thesis by (rule refused) (simp add: R 1 2 3 4 Inl, simp)
        next
          case (Inr tb)
          note 4 = 4 [unfolded Inr]
          show thesis
            by (rule Reserve_cases_legs [OF 1 2 3 4])
               (rule refused, assumption+, rule skip [OF 1], use 3 4 in simp_all,
                rule settled [OF 1 2 3 4], assumption+)
        qed
      qed
    qed
  qed
qed

text \<open>A successful settlement, spelled out.\<close>

lemma settle_success:
  assumes "settle E g resID req worst tent sb tb soft red epo = ((r, None), g')"
  shows "r = \<lparr>ResID = resID, ResTenant = ReqTenant req, ResSession = ReqSession req, ResModel = ReqModel req,
             ResDecision = ResDecision r, sessionBudget = sb, tenantBudget = tb, tenantEpoch = epo\<rparr>"
    and "Kind (ResDecision r) = (if soft then DecisionDegrade else DecisionAllow)"
    and "Reserved (ResDecision r) = worst"
    and "LRecordDecision (ledgerP E) (g_ledger g) (ReqTenant req) (ReqSession req) (ResDecision r) = (None, g_ledger g')"
    and "g_counters g' = g_counters g"
    and "sessionState g' = (case sb of None \<Rightarrow> sessionState g
           | Some b \<Rightarrow> (sessionState g)(ReqSession req \<mapsto> \<lparr>ceil_budget = Some b, spent = tent\<rparr>))"
  using assms
  by (auto simp: settle_def Let_def persistDecision_def refuse_eq split: prod.splits option.splits)

text \<open>
  a reservation call always returns a reservation for the request, its error is present
  exactly when the decision is a refusal, and a refusal reserves nothing.
\<close>

theorem Reserve_error_iff_refuse:
  "case Reserve E g resID now req of ((r, er), g') \<Rightarrow>
     ResID r = resID \<and> ResTenant r = ReqTenant req \<and> ResSession r = ReqSession req \<and>
     (er \<noteq> None) = (Kind (ResDecision r) = DecisionRefuseCeiling) \<and>
     (er = None \<or> Micros (Reserved (ResDecision r)) = 0)"
  by (rule Reserve_cases [of E g resID now req])
     (auto simp: refuse_eq settle_def Let_def split: prod.splits option.splits)

section \<open>The gate over its two ports\<close>

text \<open>What the ledger and the counters promise gives the gate's ceilings and its accounting.\<close>

locale gate_ports =
  ledger_contract L charged decided + counters_contract P view
  for L :: "'l ledger_port" and charged decided and P :: "'c counters_port" and view +
  fixes E :: "('l, 'c) gate_env"
  assumes wired: "ledgerP E = L" "countersP E = Some P"
begin

lemma tenant_leg_reserved:
  assumes "tenant_leg E g req worst (Some b) soft = (Inr (soft', red, epo), g')"
  shows "red \<and> epo = Epoch b \<and>
         (\<exists>g1 s. ensureArmed E P g (ReqTenant req) b = (None, g1) \<and>
            view (g_counters g1) (BudgetID b) = Some (Epoch b, s) \<and>
            view (g_counters g') (BudgetID b) = Some (Epoch b, i64 (s + Micros worst)) \<and>
            i64 (s + Micros worst) \<le> Micros (Ceiling b))"
  using assms
  by (auto simp: tenant_leg_def Let_def wired dest!: reserve_granted
      split: option.splits prod.splits reserve_outcome.splits)

text \<open>Both ceilings hold after a granted reservation.\<close>

lemma granted_within:
  assumes "Reserve E g resID now req = ((r, None), g')"
  shows "\<forall>b. sessionBudget r = Some b \<longrightarrow> Micros (session_spent g' (ReqSession req)) \<le> Micros (Ceiling b)"
    and "\<forall>b. tenantBudget r = Some b \<longrightarrow>
           (\<exists>s. view (g_counters g') (BudgetID b) = Some (Epoch b, s) \<and> s \<le> Micros (Ceiling b))"
proof (atomize (full), rule Reserve_cases [of E g resID now req], goal_cases)
  case (3 pb g1 worst sb g2 tb g3 tent soft soft' red epo g4)
  note s = settle_success [OF 3(7) [symmetric, unfolded assms]]
  have "sessionBudget r = sb" "tenantBudget r = tb" by (subst s(1), simp)+
  with 3(5,6) s(5,6) show ?case
    by (auto simp: session_spent_def session_leg_def Let_def dest!: tenant_leg_reserved split: option.splits if_splits)
qed (use assms in \<open>auto simp: refuse_eq Let_def\<close>)

text \<open>A counter that was never armed is armed with what the ledger has recorded.\<close>

lemma ensureArmed_cold:
  assumes "ensureArmed E P g t b = (None, g')" and "\<not> armed g (BudgetID b)"
    and "view (g_counters g) (BudgetID b) = None"
  shows "view (g_counters g') (BudgetID b) = Some (Epoch b, i64 (micros_sum (charged (g_ledger g) t)))"
  using assms
  by (auto simp: ensureArmed_def wired dest!: arm_done sum_tenant split: prod.splits sum.splits option.splits)

text \<open>
  Pricing the usage: with the configured currency not empty, either every price is in it and
  the total is the sum of the records, or the total's currency is empty.
\<close>

lemma price_usage_lost:
  "price_usage E' pb res subject now us recs actual = Inr (recs', actual') \<Longrightarrow> Currency actual = [] \<Longrightarrow>
     Currency actual' = []"
proof (induction E' pb res subject now us recs actual rule: price_usage.induct)
  case (2 E' pb res subject now m qty us recs actual)
  then show ?case
    by (auto simp: Add_def checkCurrency_def no_money_def split: if_splits option.splits sum.splits)
qed simp

lemma price_usage_sum:
  "price_usage E' pb res subject now us recs actual = Inr (recs', actual') \<Longrightarrow> Currency actual' \<noteq> [] \<Longrightarrow>
     \<exists>new. recs' = recs @ new \<and> Currency actual' = Currency actual \<and>
       i64 (Micros actual') = i64 (Micros actual + sum_list (map (Micros \<circ> RecCost) new))"
proof (induction E' pb res subject now us recs actual rule: price_usage.induct)
  case (2 E' pb res subject now m qty us recs actual)
  show ?case
  proof (cases "qty = 0")
    case True
    with 2 show ?thesis by simp
  next
    case False
    with "2.prems"(1) obtain mt c where mt: "meter_Lookup (meters E') m = Some mt"
      and c: "Cost pb m subject qty now = Inr c"
      and rest: "price_usage E' pb res subject now us
        (recs @ [cost_record_of res m qty (Unit mt) False c]) (fst (Add actual c)) = Inr (recs', actual')"
      by (auto split: option.splits sum.splits)
    have cur: "Currency actual = Currency c"
    proof (rule ccontr)
      assume "Currency actual \<noteq> Currency c"
      then have "Currency (fst (Add actual c)) = []"
        by (simp add: Add_def checkCurrency_def no_money_def)
      with price_usage_lost [OF rest] "2.prems"(2) show False by simp
    qed
    from "2.IH"(2) [OF False mt c rest "2.prems"(2)] cur show ?thesis
      by (force simp: cost_record_of_def add.assoc)
  qed
qed auto

text \<open>
  The charge of a reported call: what reconciling adds to the ledger is what it leaves in the
  session's spend, counted from before the reservation.
\<close>

lemma finishReconcile_granted:
  assumes "finishReconcile E g res actual = (None, g')"
    and "Kind (ResDecision res) = DecisionAllow \<or> Kind (ResDecision res) = DecisionDegrade"
    and "CfgCurrency (cfg E) \<noteq> []"
  shows "Currency actual \<noteq> []"
    and "Currency (Reserved (ResDecision res)) \<noteq> [] \<Longrightarrow> Currency actual = Currency (Reserved (ResDecision res))"
    and "g_ledger g' = g_ledger g"
    and "\<lbrakk>sessionBudget res = Some b; Currency (session_spent g (ResSession res)) = Currency actual\<rbrakk> \<Longrightarrow>
          Micros (session_spent g' (ResSession res)) =
            i64 (Micros (session_spent g (ResSession res)) - (Micros (Reserved (ResDecision res)) - Micros actual))"
    and "sessionBudget res = None \<Longrightarrow> session_spent g' = session_spent g"
    and "tenantBudget res = Some tb \<Longrightarrow>
          g_counters g' = snd (CRelease P (g_counters g) (BudgetID tb) (tenantEpoch res)
                            (i64 (Micros (Reserved (ResDecision res)) - Micros actual)))"
    and "tenantBudget res = None \<Longrightarrow> g_counters g' = g_counters g"
  using assms wired
  by (auto simp: finishReconcile_def Let_def Sub_def checkCurrency_def session_spent_def fun_eq_iff
      split: option.splits if_splits prod.splits)

lemma finishReconcile_skip:
  "Kind (ResDecision res) = DecisionSkip \<Longrightarrow> finishReconcile E g res actual = (None, g)"
  by (simp add: finishReconcile_def)

lemma Reserve_session_spent:
  assumes "Reserve E g resID now req = ((r, None), g')" and "sessionBudget r = Some b"
    and "Currency (Reserved (ResDecision r)) = Currency (Ceiling b)" and "Currency (Ceiling b) \<noteq> []"
    and "session_spent g (ReqSession req) = no_money \<or>
         Currency (session_spent g (ReqSession req)) = Currency (Ceiling b)"
  shows "session_spent g' (ReqSession req) =
           \<lparr>Micros = i64 (Micros (session_spent g (ReqSession req)) + Micros (Reserved (ResDecision r))),
            Currency = Currency (Ceiling b)\<rparr>"
proof (rule Reserve_cases [of E g resID now req], goal_cases)
  case (3 pb g1 worst sb g2 tb g3 tent soft soft' red epo g4)
  note s = settle_success [OF 3(7) [symmetric, unfolded assms(1)]]
  have sb: "sb = Some b" using s(1) assms(2) by (metis reservation.select_convs(6))
  have "session_spent g3 = session_spent g"
    using 3(1,3,4) by (auto dest!: gate_frames simp: session_spent_def fun_eq_iff)
  then have "tent = \<lparr>Micros = i64 (Micros (session_spent g (ReqSession req)) + Micros worst),
                      Currency = Currency (Ceiling b)\<rparr>"
    using 3(5) sb assms(3-5) s(3)
    by (auto simp: session_leg_def Let_def no_money_def split: if_splits)
  with s(3,6) sb show ?case by (simp add: session_spent_def)
qed (use assms(1,2) in \<open>auto simp: refuse_eq Let_def\<close>)

lemma frames_charged:
  "priceBookFor E g t = (x, g') \<Longrightarrow> charged (g_ledger g') = charged (g_ledger g)"
  "sessionBudgetFor E g t sid = (y, g') \<Longrightarrow> charged (g_ledger g') = charged (g_ledger g)"
  "tenantBudgetFor E g t = (y, g') \<Longrightarrow> charged (g_ledger g') = charged (g_ledger g)"
  "tenant_leg E g req worst tb soft = (z, g') \<Longrightarrow> charged (g_ledger g') = charged (g_ledger g)"
  by (auto dest!: gate_frames simp: reads wired)

lemma bestEffortPersist_charged: "charged (g_ledger (bestEffortPersist E g t sid d)) = charged (g_ledger g)"
  by (cases "LRecordDecision L (g_ledger g) t sid d"; cases "fst (LRecordDecision L (g_ledger g) t sid d)")
     (auto simp: bestEffortPersist_def persistDecision_def wired dest!: decision_done decision_failed)

lemma bestEffortPersist_keeps:
  "sessionState (bestEffortPersist E g t sid d) = sessionState g"
  "g_counters (bestEffortPersist E g t sid d) = g_counters g"
  by (auto simp: bestEffortPersist_def persistDecision_def split: prod.splits)

lemma Reserve_charged:
  assumes "Reserve E g resID now req = ((r, None), g')"
  shows "charged (g_ledger g') = charged (g_ledger g)"
proof (rule Reserve_cases [of E g resID now req], goal_cases)
  case 2
  with assms show ?case by (auto dest!: frames_charged simp: bestEffortPersist_charged)
next
  case (3 pb g1 worst sb g2 tb g3 tent soft soft' red epo g4)
  from settle_success(4) [OF 3(7) [symmetric, unfolded assms]]
  have "charged (g_ledger g') = charged (g_ledger g4)" by (auto simp: wired dest!: decision_done)
  with 3(1,3,4,6) show ?case by (auto dest!: frames_charged)
qed (use assms in \<open>auto simp: refuse_eq Let_def\<close>)

lemma Reconcile_reported:
  assumes "Reconcile E g now res u True = (None, g')"
  obtains recs :: "cost_record list" and actual g1 where
    "finishReconcile E g1 res actual = (None, g')"
    "session_spent g1 = session_spent g" "g_counters g1 = g_counters g"
    "charged (g_ledger g1) = (charged (g_ledger g))(ResTenant res := charged (g_ledger g) (ResTenant res)
        @ map (\<lambda>c. (ResSession res, RecCost c)) recs)"
    "Currency actual \<noteq> [] \<Longrightarrow> i64 (Micros actual) = i64 (sum_list (map (Micros \<circ> RecCost) recs))"
proof -
  obtain pb g1 recs actual where pb: "priceBookFor E g (ResTenant res) = (Inr pb, g1)"
    and pu: "price_usage E pb res (subject_of (ResModel res)) now (usage_classes u) []
              \<lparr>Micros = 0, Currency = CfgCurrency (cfg E)\<rparr> = Inr (recs, actual)"
    and rf: "record_and_finish E g1 ''cost: reconcile'' res recs actual = (None, g')"
    using assms(1) by (auto simp: Reconcile_def Let_def split: prod.splits sum.splits)
  obtain g2 where fin: "finishReconcile E g2 res actual = (None, g')"
    and g2: "session_spent g2 = session_spent g1" "g_counters g2 = g_counters g1"
      "charged (g_ledger g2) = (charged (g_ledger g1))(ResTenant res := charged (g_ledger g1) (ResTenant res)
        @ map (\<lambda>c. (ResSession res, RecCost c)) recs)"
    using rf
    by (fastforce simp: record_and_finish_def wired session_spent_def fun_eq_iff dest!: usage_done
        split: prod.splits option.splits if_splits)
  have "i64 (Micros actual) = i64 (sum_list (map (Micros \<circ> RecCost) recs))" if "Currency actual \<noteq> []"
    using price_usage_sum [OF pu that] by auto
  moreover have "session_spent g1 = session_spent g" "g_counters g1 = g_counters g"
    using pb by (auto dest!: gate_frames simp: session_spent_def fun_eq_iff)
  ultimately show thesis
    using that [OF fin, of recs] g2 frames_charged(1) [OF pb] by simp
qed

lemma Reserve_granted_ids:
  assumes "Reserve E g resID now req = ((r, None), g')"
  shows "ResTenant r = ReqTenant req" and "ResSession r = ReqSession req"
    and "Kind (ResDecision r) = DecisionAllow \<or> Kind (ResDecision r) = DecisionDegrade \<or>
         Kind (ResDecision r) = DecisionSkip \<and> sessionBudget r = None \<and> tenantBudget r = None"
proof (atomize (full), rule Reserve_cases [of E g resID now req], goal_cases)
  case (3 pb g1 worst sb g2 tb g3 tent soft soft' red epo g4)
  note s = settle_success(1,2) [OF 3(7) [symmetric, unfolded assms(1)]]
  from s(2) show ?case by (subst s(1), subst s(1)) simp
qed (use assms in \<open>auto simp: refuse_eq Let_def\<close>)

text \<open>A scope with no budget is not touched; a counter that was armed holds the reservation on top.\<close>

lemma Reserve_unbudgeted:
  assumes "Reserve E g resID now req = ((r, None), g')"
  shows "sessionBudget r = None \<Longrightarrow> session_spent g' = session_spent g"
    and "tenantBudget r = None \<Longrightarrow> g_counters g' = g_counters g"
proof (atomize (full), rule Reserve_cases [of E g resID now req], goal_cases)
  case 2
  with assms show ?case by (auto dest!: gate_frames simp: bestEffortPersist_keeps session_spent_def fun_eq_iff)
next
  case (3 pb g1 worst sb g2 tb g3 tent soft soft' red epo g4)
  note s = settle_success [OF 3(7) [symmetric, unfolded assms]]
  have "sessionBudget r = sb" "tenantBudget r = tb" by (subst s(1), simp)+
  moreover have "tb = None \<Longrightarrow> g4 = g3" using 3(6) by (auto simp: tenant_leg_def)
  moreover have "session_spent g4 = session_spent g" "g_counters g3 = g_counters g"
    using 3(1,3,4,6) by (auto dest!: gate_frames simp: session_spent_def fun_eq_iff)
  ultimately show ?case using s(5,6) by (auto simp: session_spent_def fun_eq_iff)
qed (use assms in \<open>auto simp: refuse_eq Let_def\<close>)

lemma ensureArmed_warm:
  "ensureArmed E P g t b = (None, g') \<Longrightarrow> view (g_counters g) (BudgetID b) = Some x \<Longrightarrow>
     view (g_counters g') (BudgetID b) = Some x"
  by (auto simp: ensureArmed_def dest!: arm_done split: prod.splits sum.splits option.splits if_splits)

lemma Reserve_counter:
  assumes "Reserve E g resID now req = ((r, None), g')" and "tenantBudget r = Some b"
    and "view (g_counters g) (BudgetID b) = Some (Epoch b, s)"
  shows "tenantEpoch r = Epoch b"
    and "view (g_counters g') (BudgetID b) = Some (Epoch b, i64 (s + Micros (Reserved (ResDecision r))))"
proof (atomize (full), rule Reserve_cases [of E g resID now req], goal_cases)
  case (3 pb g1 worst sb g2 tb g3 tent soft soft' red epo g4)
  note st = settle_success [OF 3(7) [symmetric, unfolded assms(1)]]
  have "tenantBudget r = tb" "tenantEpoch r = epo" by (subst st(1), simp)+
  moreover have "g_counters g3 = g_counters g" using 3(1,3,4) by (auto dest!: gate_frames)
  ultimately show ?case
    using 3(6) assms(2,3) st(3,5) by (auto dest!: tenant_leg_reserved dest: ensureArmed_warm)
qed (use assms in \<open>auto simp: refuse_eq Let_def\<close>)

lemma released:
  assumes "view c b = Some (ep, i64 (s + x))" and "fst (CRelease P c b ep (i64 (x - y))) = None"
  shows "view (snd (CRelease P c b ep (i64 (x - y)))) b = Some (ep, i64 (s + y))"
proof -
  have "CRelease P c b ep (i64 (x - y)) = (None, snd (CRelease P c b ep (i64 (x - y))))"
    using assms(2) by (simp add: prod_eq_iff)
  moreover have "i64 (i64 (s + x) - i64 (x - y)) = i64 (s + y)" by simp
  ultimately show ?thesis using release_done assms(1) by simp
qed

lemma reserve_then_reconcile:
  assumes res: "Reserve E g0 resID now req = ((r, None), g1)"
    and rec: "Reconcile E g1 now' r u True = (None, g2)"
    and ne: "CfgCurrency (cfg E) \<noteq> []"
  shows "\<exists>recs :: cost_record list.
           charged (g_ledger g2) (ReqTenant req) =
             charged (g_ledger g0) (ReqTenant req) @ map (\<lambda>c. (ReqSession req, RecCost c)) recs \<and>
           (case sessionBudget r of
              None \<Rightarrow> session_spent g2 (ReqSession req) = session_spent g0 (ReqSession req)
            | Some b \<Rightarrow>
                Currency (Reserved (ResDecision r)) = Currency (Ceiling b) \<and> Currency (Ceiling b) \<noteq> [] \<and>
                (session_spent g0 (ReqSession req) = no_money \<or>
                 Currency (session_spent g0 (ReqSession req)) = Currency (Ceiling b)) \<longrightarrow>
                Micros (session_spent g2 (ReqSession req)) =
                  i64 (Micros (session_spent g0 (ReqSession req)) + sum_list (map (Micros \<circ> RecCost) recs))) \<and>
           (case tenantBudget r of
              None \<Rightarrow> g_counters g2 = g_counters g0
            | Some b \<Rightarrow>
                (\<forall>x. fst (CRelease P (g_counters g1) (BudgetID b) (Epoch b) x) = None) \<longrightarrow>
                (\<forall>s. view (g_counters g0) (BudgetID b) = Some (Epoch b, s) \<longrightarrow>
                   view (g_counters g2) (BudgetID b) =
                     Some (Epoch b, i64 (s + sum_list (map (Micros \<circ> RecCost) recs)))))"
proof -
  note ids = Reserve_granted_ids(1,2) [OF res] and kind = Reserve_granted_ids(3) [OF res]
  note none = Reserve_unbudgeted [OF res]
  obtain recs :: "cost_record list" and actual g where fin: "finishReconcile E g r actual = (None, g2)"
    and g: "session_spent g = session_spent g1" "g_counters g = g_counters g1"
    and ch: "charged (g_ledger g) = (charged (g_ledger g1))
        (ResTenant r := charged (g_ledger g1) (ResTenant r) @ map (\<lambda>c. (ResSession r, RecCost c)) recs)"
    and sum: "Currency actual \<noteq> [] \<Longrightarrow> i64 (Micros actual) = i64 (sum_list (map (Micros \<circ> RecCost) recs))"
    by (rule Reconcile_reported [OF rec]) blast
  let ?sum = "sum_list (map (Micros \<circ> RecCost) recs)"
  have charged: "charged (g_ledger g) (ReqTenant req) =
      charged (g_ledger g0) (ReqTenant req) @ map (\<lambda>c. (ReqSession req, RecCost c)) recs"
    using ch ids Reserve_charged [OF res] by simp
  show ?thesis
  proof (cases "Kind (ResDecision r) = DecisionSkip")
    case True
    with kind fin finishReconcile_skip [OF True] g none charged show ?thesis by auto
  next
    case False
    with kind have k: "Kind (ResDecision r) = DecisionAllow \<or> Kind (ResDecision r) = DecisionDegrade" by simp
    note fin' = finishReconcile_granted [OF fin k ne]
    have i: "i64 (x + Micros actual) = i64 (x + ?sum)" for x
      using sum [OF fin'(1)] by (metis i64_add_right)
    have spent: "Micros (session_spent g2 (ReqSession req)) = i64 (Micros (session_spent g0 (ReqSession req)) + ?sum)"
      if b: "sessionBudget r = Some b" and cur: "Currency (Reserved (ResDecision r)) = Currency (Ceiling b)"
        "Currency (Ceiling b) \<noteq> []" "session_spent g0 (ReqSession req) = no_money \<or>
         Currency (session_spent g0 (ReqSession req)) = Currency (Ceiling b)" for b
      using fin'(4) [OF b] fin'(2) Reserve_session_spent [OF res b cur] cur(1,2) g ids i by simp
    have counter: "view (g_counters g2) (BudgetID b) = Some (Epoch b, i64 (s + ?sum))"
      if b: "tenantBudget r = Some b" and v: "view (g_counters g0) (BudgetID b) = Some (Epoch b, s)"
        and "\<And>x. fst (CRelease P (g_counters g1) (BudgetID b) (Epoch b) x) = None" for b s
      using released [OF Reserve_counter(2) [OF res b v] that(3)] Reserve_counter(1) [OF res b v] fin'(6) [OF b] g i
      by simp
    show ?thesis
      using fin'(3,5,7) g none charged spent counter by (intro exI [of _ recs]) (auto simp: fun_eq_iff split: option.split)
  qed
qed

end

section \<open>The gate over the in-memory ports\<close>

definition inmem_env :: "gate_config \<Rightarrow> (ledger, counters) gate_env" where
  "inmem_env gc = fst (NewGate inmem_ledger (NewLedger (\<lambda>n. n)) (Some inmem_counters) NewCounters None gc)"

lemma inmem_env_simps [simp]:
  "ledgerP (inmem_env gc) = inmem_ledger" "countersP (inmem_env gc) = Some inmem_counters"
  "meters (inmem_env gc) = DefaultMeters" "cfg (inmem_env gc) = withDefaults gc"
  by (simp_all add: inmem_env_def NewGate_def)

interpretation igate: gate_ports inmem_ledger inmem_charged Decisions inmem_counters inmem_view "inmem_env gc" for gc
  by unfold_locales simp_all

text \<open>A tenant with a price book, a session ceiling and a tenant ceiling, for the witnesses.\<close>

definition ex_entry :: "meter_id \<Rightarrow> int \<Rightarrow> price_book_entry" where
  "ex_entry m price =
     \<lparr>EntryID = 9, EntryMeter = m, Subject = ''*'', Version = 1, EntryCurrency = ''USD'',
      PricePerMillionMicros = price, EffectiveFrom = 0, EffectiveUntil = None\<rparr>"

definition ex_ledger :: ledger where
  "ex_ledger =
     snd (SeedBudget
       (snd (SeedBudget
         (SeedPriceBook (NewLedger (\<lambda>n. 100 + n)) 1
            [ex_entry MeterInputUncached 3000000, ex_entry MeterOutput 15000000])
         1 BudgetScopeSession (Some 2) \<lparr>Micros = 1000000, Currency = ''USD''\<rparr>))
       1 BudgetScopeTenant None \<lparr>Micros = 5000000, Currency = ''USD''\<rparr>)"

definition ex_cfg :: gate_config where
  "ex_cfg = \<lparr>CfgCurrency = '''', MaxInputTokenEstimate = 0, MaxOutputTokenEstimate = 0,
             MaxEmbeddingTokenEstimate = 0, DegradeThresholdPercent = 0\<rparr>"

definition ex_gate :: "(ledger, counters) gate" where
  "ex_gate = snd (NewGate inmem_ledger ex_ledger (Some inmem_counters) NewCounters None ex_cfg)"

definition ex_req :: reserve_request where
  "ex_req = \<lparr>ReqTenant = 1, ReqSession = 2, ReqModel = ''m'', ReqPurpose = PurposeTurn\<rparr>"

definition ex_reserved :: "(reservation \<times> err option) \<times> (ledger, counters) gate" where
  "ex_reserved = Reserve (inmem_env ex_cfg) ex_gate 7 100 ex_req"

definition ex_usage :: usage where
  "ex_usage = \<lparr>InputUncached = 1000, InputCacheRead = 0, InputCacheWrite = 0, OutputTokens = 100\<rparr>"

definition ex_reconciled :: "err option \<times> (ledger, counters) gate" where
  "ex_reconciled = Reconcile (inmem_env ex_cfg) (snd ex_reserved) 101 (fst (fst ex_reserved)) ex_usage True"

lemma ex_reserved_ok:
  "snd (fst ex_reserved) = None \<and>
   map_option (Micros \<circ> Ceiling) (sessionBudget (fst (fst ex_reserved))) = Some 1000000 \<and>
   map_option (Micros \<circ> Ceiling) (tenantBudget (fst (fst ex_reserved))) = Some 5000000"
proof -
  have "(case ex_reserved of ((r, er), g) \<Rightarrow>
      (er, map_option (Micros \<circ> Ceiling) (sessionBudget r), map_option (Micros \<circ> Ceiling) (tenantBudget r)))
    = (None, Some 1000000, Some 5000000)"
    by code_simp
  then show ?thesis by (simp add: split_beta)
qed

text \<open>
  C19: after a granted reservation the session's spend is within the session ceiling and the
  tenant's counter, taken under the budget's epoch, is within the tenant ceiling.
\<close>

theorem Reserve_within_ceilings:
  assumes "Reserve (inmem_env gc) g resID now req = ((r, None), g')"
  shows "(\<forall>b. sessionBudget r = Some b \<longrightarrow> Micros (session_spent g' (ReqSession req)) \<le> Micros (Ceiling b)) \<and>
         (\<forall>b. tenantBudget r = Some b \<longrightarrow>
            (\<exists>s. inmem_view (g_counters g') (BudgetID b) = Some (Epoch b, s) \<and> s \<le> Micros (Ceiling b)))"
  using igate.granted_within [OF assms] by simp

theorem Reserve_within_ceilings_witness:
  "Micros (session_spent (snd ex_reserved) 2) \<le> 1000000 \<and>
   (\<exists>b s. tenantBudget (fst (fst ex_reserved)) = Some b \<and>
      inmem_view (g_counters (snd ex_reserved)) (BudgetID b) = Some (Epoch b, s) \<and> s \<le> 5000000)"
proof -
  have "Reserve (inmem_env ex_cfg) ex_gate 7 100 ex_req = ((fst (fst ex_reserved), None), snd ex_reserved)"
    using ex_reserved_ok by (simp add: prod_eq_iff ex_reserved_def)
  note w = Reserve_within_ceilings [OF this]
  from w ex_reserved_ok show ?thesis by (auto simp: ex_req_def)
qed








text \<open>
  C20: a gate started over cold counters arms the tenant's counter with the spend the ledger has
  recorded: after its first granted reservation the counter holds that sum plus the
  reservation, and the ceiling was checked against it.
\<close>

theorem cold_start_recovers_spend:
  assumes "(E, g0) = NewGate inmem_ledger l (Some inmem_counters) (Flush c) None gc"
    and "Reserve E g0 resID now req = ((r, None), g1)"
    and "tenantBudget r = Some b"
  shows "inmem_view (g_counters g1) (BudgetID b) =
           Some (Epoch b, i64 (micros_sum (inmem_charged l (ReqTenant req)) + Micros (Reserved (ResDecision r))))"
proof -
  have E: "E = inmem_env gc" and g0: "\<not> armed g0 b'" "inmem_view (g_counters g0) b' = None" "g_ledger g0 = l" for b'
    using assms(1) by (auto simp: NewGate_def inmem_env_def inmem_view_def Flush_def)
  show ?thesis
  proof (rule Reserve_cases [of E g0 resID now req], goal_cases)
    case (3 pb g2 worst sb g3 tb g4 tent soft soft' red epo g5)
    note s = settle_success [OF 3(7) [symmetric, unfolded assms(2)]]
    have tb: "tb = Some b" using s(1) assms(3) by (metis reservation.select_convs(7))
    from igate.tenant_leg_reserved [OF 3(6) [unfolded E tb]] obtain g6 a where
      arm: "ensureArmed (inmem_env gc) inmem_counters g4 (ReqTenant req) b = (None, g6)"
      and v: "inmem_view (g_counters g6) (BudgetID b) = Some (Epoch b, a)"
        "inmem_view (g_counters g5) (BudgetID b) = Some (Epoch b, i64 (a + Micros worst))" by blast
    have "\<not> armed g4 (BudgetID b)" "inmem_view (g_counters g4) (BudgetID b) = None"
      using 3(1,3,4) g0 by (auto dest!: gate_frames)
    from igate.ensureArmed_cold [OF arm this] v(1)
    have "a = i64 (micros_sum (inmem_charged (g_ledger g4) (ReqTenant req)))" by simp
    moreover have "inmem_charged (g_ledger g4) = inmem_charged l"
      using 3(1,3,4) g0(3) unfolding E by (auto dest!: igate.frames_charged)
    ultimately show ?case using v(2) s(3,5) by simp
  qed (use assms(2,3) in \<open>auto simp: refuse_eq Let_def\<close>)
qed

definition ex_restarted :: "(reservation \<times> err option) \<times> (ledger, counters) gate" where
  "ex_restarted =
     (let (E, g) = NewGate inmem_ledger (g_ledger (snd ex_reconciled)) (Some inmem_counters)
                     (Flush (g_counters (snd ex_reconciled))) None ex_cfg
      in Reserve E g 8 102 ex_req)"

lemma ex_restarted_ok:
  "snd (fst ex_restarted) = None \<and> map_option Epoch (tenantBudget (fst (fst ex_restarted))) = Some 1 \<and>
   micros_sum (inmem_charged (g_ledger (snd ex_reconciled)) 1) = 4500 \<and>
   Micros (Reserved (ResDecision (fst (fst ex_restarted)))) = 85440"
proof -
  have "(case ex_reconciled of (_, g) \<Rightarrow>
      case NewGate inmem_ledger (g_ledger g) (Some inmem_counters) (Flush (g_counters g)) None ex_cfg of (E, g') \<Rightarrow>
      case Reserve E g' 8 102 ex_req of ((r, er), _) \<Rightarrow>
      (er, map_option Epoch (tenantBudget r), micros_sum (inmem_charged (g_ledger g) 1), Micros (Reserved (ResDecision r))))
    = (None, Some 1, 4500, 85440)"
    by code_simp
  then show ?thesis by (simp add: split_beta ex_restarted_def)
qed

theorem cold_start_recovers_spend_witness:
  "\<exists>b. tenantBudget (fst (fst ex_restarted)) = Some b \<and>
     inmem_view (g_counters (snd ex_restarted)) (BudgetID b) = Some (1, 4500 + 85440)"
proof -
  obtain b where b: "tenantBudget (fst (fst ex_restarted)) = Some b" "Epoch b = 1"
    using ex_restarted_ok by auto
  obtain E g where n: "NewGate inmem_ledger (g_ledger (snd ex_reconciled)) (Some inmem_counters)
      (Flush (g_counters (snd ex_reconciled))) None ex_cfg = (E, g)" by force
  then have "Reserve E g 8 102 ex_req = ex_restarted"
    by (simp add: ex_restarted_def)
  with ex_restarted_ok have "Reserve E g 8 102 ex_req = ((fst (fst ex_restarted), None), snd ex_restarted)"
    by (simp add: prod_eq_iff)
  from cold_start_recovers_spend [OF n [symmetric] this b(1)] b ex_restarted_ok show ?thesis
    by (simp add: ex_req_def in_i64_def)
qed

text \<open>
  when the counters are flushed under a running gate that has armed the tenant's budget,
  every later reservation of that tenant is refused: the gate fails closed, and does not arm
  the budget again.
\<close>

theorem flushed_counters_refuse:
  assumes "tenantCache g (ReqTenant req) = Some (Some b)" and "armed g (BudgetID b)"
    and "Reserve (inmem_env gc) (g\<lparr>g_counters := Flush (g_counters g)\<rparr>) resID now req = ((r, er), g')"
  shows "er \<noteq> None \<and> Kind (ResDecision r) = DecisionRefuseCeiling"
proof (rule Reserve_cases [of "inmem_env gc" "g\<lparr>g_counters := Flush (g_counters g)\<rparr>" resID now req], goal_cases)
  case (1 g1 res bid m reason)
  then show ?case using assms(3) by (auto simp: refuse_eq Let_def)
next
  case (2 pb g1 g2 g3 g4 d)
  then have False using assms(1) by (auto dest!: gate_frames)
  then show ?case ..
next
  case (3 pb g1 worst sb g2 tb g3 tent soft soft' red epo g4)
  have "armed g3 (BudgetID b)" "inmem_view (g_counters g3) (BudgetID b) = None" "tb = Some b"
    using 3(1,3,4) assms(1,2) by (auto dest!: gate_frames simp: inmem_view_def Flush_def)
  with igate.tenant_leg_reserved [of gc g3 req worst b soft soft' red epo g4] 3(6)
  show ?case by (auto simp: ensureArmed_def)
qed

text \<open>
  a session budget in another currency than the price book's is never enforced: the
  dropped error of the addition leaves a zero amount, which is within every ceiling that is
  not negative, and that zero is what the session's spend is set to.
\<close>

theorem session_leg_other_currency:
  assumes "Currency (session_spent g (ReqSession req)) \<in> {'''', Currency (Ceiling b)}"
    and "Currency worst \<noteq> Currency (Ceiling b)" and "0 \<le> Micros (Ceiling b)"
  shows "map_sum id fst (session_leg E g req worst (Some b)) = Inr no_money"
  using assms by (auto simp: session_leg_def Let_def Add_def checkCurrency_def no_money_def)

theorem session_leg_other_currency_witness:
  "map_sum id fst (session_leg (inmem_env ex_cfg) ex_gate ex_req \<lparr>Micros = 999999999, Currency = ''EUR''\<rparr>
     (Some \<lparr>BudgetID = 1, Scope = BudgetScopeSession, ScopeRef = Some 2,
            Ceiling = \<lparr>Micros = 1, Currency = ''USD''\<rparr>, Epoch = 1\<rparr>)) = Inr no_money"
  by (rule session_leg_other_currency) (simp_all add: ex_gate_def NewGate_def session_spent_def no_money_def)

definition ex_flushed :: "(reservation \<times> err option) \<times> (ledger, counters) gate" where
  "ex_flushed =
     Reserve (inmem_env ex_cfg) ((snd ex_reserved)\<lparr>g_counters := Flush (g_counters (snd ex_reserved))\<rparr>) 8 102 ex_req"

theorem flushed_counters_refuse_witness:
  "Kind (ResDecision (fst (fst ex_flushed))) = DecisionRefuseCeiling"
proof -
  let ?g = "snd ex_reserved"
  have ok: "(case tenantCache ?g 1 of Some (Some b) \<Rightarrow> armed ?g (BudgetID b) | _ \<Rightarrow> False)"
    by code_simp
  then obtain b where b: "tenantCache ?g (ReqTenant ex_req) = Some (Some b)" "armed ?g (BudgetID b)"
    by (auto simp: ex_req_def split: option.splits)
  have "Reserve (inmem_env ex_cfg) (?g\<lparr>g_counters := Flush (g_counters ?g)\<rparr>) 8 102 ex_req =
      ((fst (fst ex_flushed), snd (fst ex_flushed)), snd ex_flushed)"
    by (simp add: ex_flushed_def)
  from flushed_counters_refuse [OF b this] show ?thesis by simp
qed

end
