(* ===== verification/Prompt_Ctx.thy ===== *)
theory Prompt_Ctx
  imports Provider Price_Book "HOL-Library.Multiset" "HOL-Library.List_Lexorder" "HOL-Library.Char_ord"
begin

text \<open>
  Prompt construction (\<^verbatim>\<open>internal/promptctx\<close>): the byte-stable prefix, live pruning of old tool
  results, and the condensation of a long transcript. The lemmas say that the prefix does
  not depend on the order tools were registered in, that a prefix grows with the transcript,
  and what pruning and condensing may touch.
\<close>

section \<open>Building the prompt\<close>

definition newline :: string where
  "newline = [CHR 0x0A]"

definition catalog_line :: "tool_schema \<Rightarrow> string" where
  "catalog_line t = ''- '' @ SchemaName t @ '': '' @ Description t @ newline"

definition message_line :: "msg \<Rightarrow> string" where
  "message_line m = Role m @ '': '' @ PlainText m @ newline"

definition PrefixBytes :: "string \<Rightarrow> tool_schema list \<Rightarrow> msg list \<Rightarrow> bytes" where
  "PrefixBytes sys catalog transcript =
     (let sorted = sort_slice (\<lambda>a b. SchemaName a < SchemaName b) catalog in
      ''system='' @ sys @ newline @ ''catalog:'' @ newline @ concat (map catalog_line sorted)
      @ ''transcript:'' @ newline @ concat (map message_line transcript))"

definition Build :: "string \<Rightarrow> tool_schema list \<Rightarrow> msg list \<Rightarrow> prompt \<times> bytes" where
  "Build sys catalog transcript =
     (\<lparr>System = sys, Messages = transcript\<rparr>, PrefixBytes sys catalog transcript)"

section \<open>Pruning\<close>

text \<open>The policy's fields are naturals: a negative \<^verbatim>\<open>KeepLast\<close> makes the code index out of range.\<close>

record prune_policy =
  KeepLast :: nat
  SoftTrimAt :: nat
  HardClearAt :: nat

definition DefaultPrunePolicy :: prune_policy where
  "DefaultPrunePolicy = \<lparr>KeepLast = 20, SoftTrimAt = 4096, HardClearAt = 16384\<rparr>"

definition previewBytes :: nat where
  "previewBytes = 256"

text \<open>\<open>hex8 s\<close> is the hexadecimal form of the first eight bytes of the SHA-256 of \<open>s\<close>.\<close>

definition pruneMarker :: "(bytes \<Rightarrow> string) \<Rightarrow> string \<Rightarrow> string" where
  "pruneMarker hex8 original =
     ''[pruned: '' @ dec_nat (length original) @ '' bytes, ref='' @ hex8 original @ '']''"

definition prune_message :: "(bytes \<Rightarrow> string) \<Rightarrow> prune_policy \<Rightarrow> msg \<Rightarrow> msg option" where
  "prune_message hex8 policy m =
     (if Role m \<noteq> ''tool'' then None
      else
        let text = PlainText m in
        if HardClearAt policy > 0 \<and> length text > HardClearAt policy
        then Some (TextMessage (Role m) (pruneMarker hex8 text))
        else if SoftTrimAt policy > 0 \<and> length text > SoftTrimAt policy
        then Some (TextMessage (Role m) (take previewBytes text @ newline @ pruneMarker hex8 text))
        else None)"

text \<open>The loop over the messages before the cutoff; what it does not replace stays.\<close>

definition Prune :: "(bytes \<Rightarrow> string) \<Rightarrow> msg list \<Rightarrow> prune_policy \<Rightarrow> msg list \<times> nat" where
  "Prune hex8 transcript policy =
     (if KeepLast policy \<le> 0 \<and> SoftTrimAt policy \<le> 0 \<and> HardClearAt policy \<le> 0 then (transcript, 0)
      else
        let cutoff = length transcript - KeepLast policy;
            old = take cutoff transcript;
            pruned = filter (\<lambda>m. prune_message hex8 policy m \<noteq> None) old
        in (map (\<lambda>m. case prune_message hex8 policy m of None \<Rightarrow> m | Some m' \<Rightarrow> m') old
              @ drop cutoff transcript,
            length pruned))"

section \<open>Condensation\<close>

definition condenseKeepTail :: nat where
  "condenseKeepTail = 4"

definition ShouldCondense :: "msg list \<Rightarrow> int \<Rightarrow> bool \<times> nat" where
  "ShouldCondense transcript thresholdBytes =
     (if thresholdBytes \<le> 0 then (False, 0)
      else if int (sum_list (map (length \<circ> PlainText) transcript)) \<le> thresholdBytes then (False, 0)
      else
        let covered = int (length transcript) - int condenseKeepTail in
        if covered \<le> 0 then (False, 0) else (True, nat covered))"

definition line :: "msg \<Rightarrow> string" where
  "line m = Role m @ '': '' @ take previewBytes (PlainText m)"

definition ExtractivePass :: "msg list \<Rightarrow> string" where
  "ExtractivePass transcript =
     (let n = length transcript in
      if n = 0 then ''''
      else
        let first = line (transcript ! 0); last = line (transcript ! (n - 1)) in
        if n = 1 then first
        else if n = 2 then first @ newline @ last
        else first @ newline @ ''[extractive: '' @ dec_nat (n - 2) @ '' messages omitted]'' @ newline @ last)"

definition CondensePrompt :: "msg list \<Rightarrow> prompt" where
  "CondensePrompt transcript =
     \<lparr>System = ''Summarize the following conversation history concisely, preserving any decisions, facts, or open questions. Never state or imply that any external effect (a tool call, a send, a write) completed or failed '' @ em_dash @ '' only summarize what was said.'',
      Messages = [TextMessage ''user'' (concat (map (\<lambda>m. line m @ newline) transcript))]\<rparr>"

section \<open>Stability of the prefix\<close>

lemma insert_slice_insort: "insert_slice (\<lambda>a b. f a < (f b :: 'k :: linorder)) x ys = insort_key f x ys"
  by (induction ys) auto

lemma sort_slice_sort_key: "sort_slice (\<lambda>a b. f a < (f b :: 'k :: linorder)) xs = sort_key f xs"
  by (simp add: sort_slice_def sort_key_def insert_slice_insort [abs_def])

text \<open>
  the prefix does not depend on the order in which the tools of a catalog were registered,
  as long as their names are distinct; and appending messages to a transcript only extends the
  prefix, so a committed prefix stays byte for byte what it was.
\<close>

theorem PrefixBytes_stable:
  assumes "mset catalog' = mset catalog" and "distinct (map SchemaName catalog)"
  shows "PrefixBytes sys catalog' transcript = PrefixBytes sys catalog transcript \<and>
         prefix (PrefixBytes sys catalog' transcript) (PrefixBytes sys catalog (transcript @ later))"
proof -
  have "inj_on SchemaName (set catalog)" using assms(2) by (simp add: distinct_map)
  then have "sort_key SchemaName catalog = sort_key SchemaName catalog'"
    by (intro sort_key_inj_key_eq) (simp_all add: assms(1))
  then show ?thesis by (simp add: PrefixBytes_def sort_slice_sort_key)
qed

theorem PrefixBytes_stable_witness:
  "prefix
     (PrefixBytes ''s'' [\<lparr>SchemaName = ''b'', Description = '''', InputSchema = ''''\<rparr>,
                         \<lparr>SchemaName = ''a'', Description = '''', InputSchema = ''''\<rparr>] [])
     (PrefixBytes ''s'' [\<lparr>SchemaName = ''a'', Description = '''', InputSchema = ''''\<rparr>,
                         \<lparr>SchemaName = ''b'', Description = '''', InputSchema = ''''\<rparr>] [TextMessage ''user'' ''hi''])"
  by (rule PrefixBytes_stable [where transcript = "[]", THEN conjunct2, unfolded append_Nil]) simp_all

section \<open>What pruning and condensing touch\<close>

lemma prune_message_role: "prune_message hex8 policy m = Some m' \<Longrightarrow> Role m = ''tool'' \<and> Role m' = ''tool'' \<and>
    (\<exists>t. Blocks m' = [BlockText t])"
  by (auto simp: prune_message_def TextMessage_def Let_def split: if_splits)

text \<open>
  pruning keeps the number of messages and their roles, leaves the last messages and every
  message that is not a tool result as they are, and reports how many it replaced. A replaced
  tool result is a single text block, so the tool-use identifiers it answered are no longer in it.
\<close>

theorem Prune_touches_old_tool_messages:
  "case Prune hex8 transcript policy of (out, n) \<Rightarrow>
     length out = length transcript \<and> map Role out = map Role transcript \<and>
     drop (length transcript - KeepLast policy) out = drop (length transcript - KeepLast policy) transcript \<and>
     n \<le> length (filter (\<lambda>m. Role m = ''tool'') (take (length transcript - KeepLast policy) transcript)) \<and>
     list_all2 (\<lambda>m m'. m' = m \<or> Role m = ''tool'' \<and> (\<exists>t. Blocks m' = [BlockText t])) transcript out"
proof (cases "KeepLast policy \<le> 0 \<and> SoftTrimAt policy \<le> 0 \<and> HardClearAt policy \<le> 0")
  case True
  then show ?thesis by (auto simp: Prune_def intro: list_all2_refl)
next
  case False
  define cut where "cut = length transcript - KeepLast policy"
  let ?f = "\<lambda>m. case prune_message hex8 policy m of None \<Rightarrow> m | Some m' \<Rightarrow> m'"
  let ?p = "\<lambda>m. prune_message hex8 policy m \<noteq> None"
  have P: "Prune hex8 transcript policy = (map ?f (take cut transcript) @ drop cut transcript, length (filter ?p (take cut transcript)))"
    unfolding Prune_def cut_def Let_def using False by (simp only: if_False)
  have role: "Role (?f m) = Role m" for m by (auto dest: prune_message_role split: option.splits)
  have one: "?f m = m \<or> Role m = ''tool'' \<and> (\<exists>t. Blocks (?f m) = [BlockText t])" for m
    by (auto dest: prune_message_role split: option.splits)
  have mapped: "list_all2 (\<lambda>m m'. m' = m \<or> Role m = ''tool'' \<and> (\<exists>t. Blocks m' = [BlockText t])) xs (map ?f xs)" for xs
    unfolding list_all2_map2 by (rule list_all2_refl) (rule one)
  have "length (filter ?p xs) \<le> length (filter (\<lambda>m. Role m = ''tool'') xs)" for xs
    by (induction xs) (auto dest: prune_message_role)
  moreover have "cut \<le> length transcript" by (simp add: cut_def)
  moreover have "list_all2 (\<lambda>m m'. m' = m \<or> Role m = ''tool'' \<and> (\<exists>t. Blocks m' = [BlockText t]))
      (take cut transcript @ drop cut transcript) (map ?f (take cut transcript) @ drop cut transcript)"
    by (intro list_all2_appendI list_all2_refl mapped) simp
  moreover have "map Role (map ?f (take cut transcript) @ drop cut transcript) = map Role transcript"
  proof -
    have "map Role (map ?f xs) = map Role xs" for xs using role by simp
    then have "map Role (map ?f (take cut transcript) @ drop cut transcript) =
        map Role (take cut transcript @ drop cut transcript)" by (simp only: map_append)
    then show ?thesis by simp
  qed
  ultimately show ?thesis unfolding P cut_def [symmetric] by (simp add: min_def)
qed

text \<open>
  condensation is only ever offered for a proper prefix that leaves at least the last four
  messages alone, and never when the threshold is not positive or the transcript is small.
\<close>

theorem ShouldCondense_keeps_tail:
  "case ShouldCondense transcript thresholdBytes of (yes, covered) \<Rightarrow>
     (if yes then 0 < covered \<and> covered + 4 = length transcript \<and> 0 < thresholdBytes \<and>
        thresholdBytes < int (sum_list (map (length \<circ> PlainText) transcript))
      else covered = 0)"
  by (auto simp: ShouldCondense_def condenseKeepTail_def Let_def)

end
