(* ===== verification/Reliability.thy ===== *)
theory Reliability
  imports Nexus_Prelude
begin

text \<open>
  Failure handling outside the provider (\<^verbatim>\<open>internal/reliability\<close>): the classification of job
  failures, backoff, the circuit breaker and the stuck detector. The lemmas characterise the
  detector by periodicity of the recent actions, show that the tracker's bounded history
  gives the verdicts of the unbounded one, and describe when a breaker is open in terms of
  the failures since the last success.
\<close>

section \<open>Classification and backoff\<close>

datatype failure_class = FailureRetryable | FailurePermanent

definition is_permanent :: "err \<Rightarrow> bool" where
  "is_permanent e = (case e of PermanentError _ \<Rightarrow> True | _ \<Rightarrow> False)"

definition Classify :: "err option \<Rightarrow> failure_class" where
  "Classify er =
     (case er of
        None \<Rightarrow> FailureRetryable
      | Some e \<Rightarrow>
          if errors_is e DeadlineExceeded \<or> errors_is e Canceled \<or> errors_is e UnexpectedEOF then FailureRetryable
          else if errors_as e is_permanent then FailurePermanent
          else FailureRetryable)"

record backoff_config =
  Base :: int
  Max :: int

definition backoff_defaults :: "backoff_config \<Rightarrow> backoff_config" where
  "backoff_defaults c0 =
     (let c1 = (if Base c0 \<le> 0 then c0\<lparr>Base := 500000000\<rparr> else c0)
      in if Max c1 \<le> 0 then c1\<lparr>Max := 300000000000\<rparr> else c1)"

text \<open>
  Durations are nanoseconds. \<open>rng n\<close> is \<^verbatim>\<open>rand.Rand.Int64N(n)\<close>, a number in \<open>[0, n)\<close>; the log
  reason is left out.
\<close>

definition backoff_ceiling :: "backoff_config \<Rightarrow> int \<Rightarrow> int" where
  "backoff_ceiling c0 attempt0 =
     (let c = backoff_defaults c0;
          attempt = (if attempt0 < 1 then 1 else attempt0);
          ceiling = i64 (Base c * 2 ^ nat (min attempt 20))
      in if ceiling > Max c \<or> ceiling \<le> 0 then Max c else ceiling)"

definition Delay :: "(int \<Rightarrow> int) \<Rightarrow> backoff_config \<Rightarrow> int \<Rightarrow> int" where
  "Delay rng c attempt = rng (i64 (backoff_ceiling c attempt + 1))"

section \<open>The circuit breaker\<close>

record breaker =
  threshold :: int
  consecutive :: int
  b_lastReason :: string
  b_open :: bool

definition NewCircuitBreaker :: "int \<Rightarrow> breaker" where
  "NewCircuitBreaker th =
     \<lparr>threshold = (if th \<le> 0 then 3 else th), consecutive = 0, b_lastReason = '''', b_open = False\<rparr>"

definition RecordFailure :: "breaker \<Rightarrow> string \<Rightarrow> bool \<times> breaker" where
  "RecordFailure b reason =
     (if b_open b then (False, b)
      else
        let b1 = (if reason = b_lastReason b then b\<lparr>consecutive := consecutive b + 1\<rparr>
                  else b\<lparr>b_lastReason := reason, consecutive := 1\<rparr>)
        in if consecutive b1 \<ge> threshold b1 then (True, b1\<lparr>b_open := True\<rparr>) else (False, b1))"

definition RecordSuccess :: "breaker \<Rightarrow> breaker" where
  "RecordSuccess b = b\<lparr>consecutive := 0, b_lastReason := '''', b_open := False\<rparr>"

definition breaker_Open :: "breaker \<Rightarrow> bool" where
  "breaker_Open b = b_open b"

record breaker_registry =
  r_threshold :: int
  breakers :: "string \<rightharpoonup> breaker"

definition NewBreakerRegistry :: "int \<Rightarrow> breaker_registry" where
  "NewBreakerRegistry th = \<lparr>r_threshold = th, breakers = Map.empty\<rparr>"

text \<open>\<^verbatim>\<open>For\<close> hands out a pointer into the registry; here it is the breaker and the registry holding it.\<close>

definition breaker_For :: "breaker_registry \<Rightarrow> string \<Rightarrow> breaker \<times> breaker_registry" where
  "breaker_For r key =
     (case breakers r key of
        Some b \<Rightarrow> (b, r)
      | None \<Rightarrow>
          let b = NewCircuitBreaker (r_threshold r)
          in (b, r\<lparr>breakers := (breakers r)(key \<mapsto> b)\<rparr>))"

section \<open>The stuck detector\<close>

datatype stuck_reason = ReasonRepeatedAction | ReasonOscillation | ReasonZeroNetChange

record action =
  tool :: string
  digest :: bytes

text \<open>\<open>sha\<close> is SHA-256 of a byte string.\<close>

definition Digest :: "(bytes \<Rightarrow> bytes) \<Rightarrow> string \<Rightarrow> bytes \<Rightarrow> bytes" where
  "Digest sha toolName input = sha (toolName @ [CHR 0x00] @ input)"

record verdict =
  Suspected :: bool
  VReason :: "stuck_reason option"
  Period :: nat

definition no_verdict :: verdict where
  "no_verdict = \<lparr>Suspected = False, VReason = None, Period = 0\<rparr>"

text \<open>Windows are naturals: a negative one makes the code slice out of range.\<close>

record detector =
  window :: nat

definition NewDetector :: "nat \<Rightarrow> detector" where
  "NewDetector w = \<lparr>window = (if w < 4 then 4 else w)\<rparr>"

definition tiles :: "action list \<Rightarrow> nat \<Rightarrow> bool" where
  "tiles w period \<longleftrightarrow>
     list_all (\<lambda>i. \<not> (tool (w ! i) \<noteq> tool (w ! (i - period)) \<or> digest (w ! i) \<noteq> digest (w ! (i - period))))
       [period ..< length w]"

definition reason_of :: "nat \<Rightarrow> stuck_reason" where
  "reason_of period =
     (if period = 1 then ReasonRepeatedAction
      else if period = 2 then ReasonOscillation else ReasonZeroNetChange)"

definition Observe :: "detector \<Rightarrow> action list \<Rightarrow> verdict" where
  "Observe d history =
     (if length history < window d then no_verdict
      else
        let w = drop (length history - window d) history
        in case find (\<lambda>period. window d mod period = 0 \<and> tiles w period) [1 ..< window d div 2 + 1] of
             None \<Rightarrow> no_verdict
           | Some period \<Rightarrow> \<lparr>Suspected = True, VReason = Some (reason_of period), Period = period\<rparr>)"

record tracker =
  det :: detector
  t_history :: "action list"
  maxHistory :: nat
  consecutiveTrips :: int
  t_lastReason :: "stuck_reason option"

definition newTracker :: "nat \<Rightarrow> tracker" where
  "newTracker w =
     \<lparr>det = NewDetector w, t_history = [], maxHistory = w * 4, consecutiveTrips = 0, t_lastReason = None\<rparr>"

record tracker_verdict =
  TVerdict :: verdict
  Terminate :: bool

definition Tracker_Record ::
    "(bytes \<Rightarrow> bytes) \<Rightarrow> tracker \<Rightarrow> string \<Rightarrow> bytes \<Rightarrow> tracker_verdict \<times> tracker" where
  "Tracker_Record sha t0 toolName input =
     (let h = t_history t0 @ [\<lparr>tool = toolName, digest = Digest sha toolName input\<rparr>];
          h' = (if length h > maxHistory t0 then drop (length h - maxHistory t0) h else h);
          t = t0\<lparr>t_history := h'\<rparr>;
          v = Observe (det t) h'
      in if \<not> Suspected v
         then (\<lparr>TVerdict = no_verdict, Terminate = False\<rparr>, t\<lparr>consecutiveTrips := 0, t_lastReason := None\<rparr>)
         else
           let t' = (if VReason v = t_lastReason t then t\<lparr>consecutiveTrips := consecutiveTrips t + 1\<rparr>
                     else t\<lparr>t_lastReason := VReason v, consecutiveTrips := 1\<rparr>)
           in (\<lparr>TVerdict = v, Terminate = consecutiveTrips t' \<ge> 2\<rparr>, t'))"

record stuck_registry =
  s_window :: nat
  byID :: "uuid \<rightharpoonup> tracker"

definition NewRegistry :: "nat \<Rightarrow> stuck_registry" where
  "NewRegistry w = \<lparr>s_window = w, byID = Map.empty\<rparr>"

definition Registry_Record ::
    "(bytes \<Rightarrow> bytes) \<Rightarrow> stuck_registry \<Rightarrow> uuid \<Rightarrow> string \<Rightarrow> bytes \<Rightarrow> tracker_verdict \<times> stuck_registry" where
  "Registry_Record sha r sessionID toolName input =
     (let tr = (case byID r sessionID of None \<Rightarrow> newTracker (s_window r) | Some tr \<Rightarrow> tr);
          (v, tr') = Tracker_Record sha tr toolName input
      in (v, r\<lparr>byID := (byID r)(sessionID \<mapsto> tr')\<rparr>))"

definition Registry_Forget :: "stuck_registry \<Rightarrow> uuid \<Rightarrow> stuck_registry" where
  "Registry_Forget r sessionID = r\<lparr>byID := (byID r)(sessionID := None)\<rparr>"

section \<open>Backoff\<close>

text \<open>
  with a random source that returns a number below its bound, a delay is never negative and
  never above the configured maximum, whatever the attempt number and however the shifted base
  wraps.
\<close>

theorem Delay_bounds:
  assumes "\<And>n. 0 < n \<Longrightarrow> 0 \<le> rng n \<and> rng n < n"
    and "in_i64 (Max c + 1)"
  shows "0 \<le> Delay rng c attempt \<and> Delay rng c attempt \<le> Max (backoff_defaults c)"
proof -
  let ?c = "backoff_ceiling c attempt" and ?m = "Max (backoff_defaults c)"
  have m: "0 < ?m" "in_i64 (?m + 1)"
    using assms(2) by (auto simp: backoff_defaults_def Let_def in_i64_def)
  have "0 < ?c" "?c \<le> ?m"
    using m(1) by (auto simp: backoff_ceiling_def Let_def)
  with m(2) have "in_i64 (?c + 1)" by (simp add: in_i64_def)
  then show ?thesis
    using assms(1) [of "?c + 1"] \<open>0 < ?c\<close> \<open>?c \<le> ?m\<close> by (simp add: Delay_def)
qed

theorem Delay_bounds_witness:
  "Delay (\<lambda>n. n - 1) \<lparr>Base = 0, Max = 0\<rparr> 30 \<le> 300000000000"
  using Delay_bounds [of "\<lambda>n. n - 1" "\<lparr>Base = 0, Max = 0\<rparr>" 30]
  by (simp add: in_i64_def backoff_defaults_def)

section \<open>The breaker\<close>

datatype outcome = Failed string | Succeeded

definition breaker_step :: "breaker \<Rightarrow> outcome \<Rightarrow> breaker" where
  "breaker_step b oc = (case oc of Failed r \<Rightarrow> snd (RecordFailure b r) | Succeeded \<Rightarrow> RecordSuccess b)"

definition since_step :: "string list \<Rightarrow> outcome \<Rightarrow> string list" where
  "since_step rs oc = (case oc of Failed r \<Rightarrow> rs @ [r] | Succeeded \<Rightarrow> [])"

text \<open>The reasons of the failures since the last success, oldest first.\<close>

definition failures_since :: "outcome list \<Rightarrow> string list" where
  "failures_since ocs = foldl since_step [] ocs"

definition has_run :: "nat \<Rightarrow> string list \<Rightarrow> bool" where
  "has_run n rs \<longleftrightarrow> (\<exists>pre r post. rs = pre @ replicate n r @ post)"

text \<open>The length of the run of equal reasons at the end.\<close>

definition trail :: "string list \<Rightarrow> nat" where
  "trail rs = (if rs = [] then 0 else length (takeWhile (\<lambda>x. x = last rs) (rev rs)))"

lemma trail_snoc: "trail (rs @ [r]) = (if rs \<noteq> [] \<and> last rs = r then trail rs + 1 else 1)"
  by (cases rs rule: rev_cases) (auto simp: trail_def)

lemma trail_run: "\<exists>pre. rs = pre @ replicate (trail rs) (last rs)"
proof (induction rs rule: rev_induct)
  case (snoc r rs)
  show ?case
  proof (cases "rs \<noteq> [] \<and> last rs = r")
    case True
    define k where "k = trail rs"
    from True snoc obtain pre where "rs = pre @ replicate k r" by (auto simp: k_def)
    then have "rs @ [r] = pre @ replicate (Suc k) r" by (simp add: replicate_append_same)
    moreover have "trail (rs @ [r]) = Suc k" using True by (simp add: trail_snoc k_def)
    ultimately show ?thesis by (metis last_snoc)
  qed (auto simp: trail_snoc)
qed (simp add: trail_def)

lemma trail_ge_iff: "0 < n \<Longrightarrow> n \<le> trail rs \<longleftrightarrow> (\<exists>pre r. rs = pre @ replicate n r)"
proof
  assume "0 < n" and "n \<le> trail rs"
  then obtain k where k: "trail rs = k + n" by (metis add.commute le_Suc_ex)
  obtain pre where "rs = pre @ replicate (trail rs) (last rs)" using trail_run by blast
  then show "\<exists>pre r. rs = pre @ replicate n r"
    unfolding k replicate_add by (metis append.assoc)
next
  assume "0 < n" and "\<exists>pre r. rs = pre @ replicate n r"
  then obtain pre r where "rs = pre @ replicate n r" by blast
  moreover from \<open>0 < n\<close> have "n \<le> trail (pre @ replicate n r)"
    by (simp add: trail_def takeWhile_append)
  ultimately show "n \<le> trail rs" by simp
qed

lemma has_run_snoc: "0 < n \<Longrightarrow> has_run n (rs @ [r]) \<longleftrightarrow> has_run n rs \<or> n \<le> trail (rs @ [r])"
proof
  assume "0 < n" and "has_run n (rs @ [r])"
  then obtain pre x post where eq: "rs @ [r] = pre @ replicate n x @ post" by (auto simp: has_run_def)
  show "has_run n rs \<or> n \<le> trail (rs @ [r])"
  proof (cases post rule: rev_cases)
    case Nil
    with eq \<open>0 < n\<close> show ?thesis using trail_ge_iff [of n "rs @ [r]"] by auto
  next
    case (snoc ys y)
    with eq have "rs = pre @ replicate n x @ ys" by simp
    then show ?thesis by (auto simp: has_run_def)
  qed
next
  assume "0 < n" and "has_run n rs \<or> n \<le> trail (rs @ [r])"
  then show "has_run n (rs @ [r])"
    using trail_ge_iff [of n "rs @ [r]"] unfolding has_run_def by (metis append.assoc append.right_neutral)
qed

definition breaker_inv :: "nat \<Rightarrow> string list \<Rightarrow> breaker \<Rightarrow> bool" where
  "breaker_inv n rs b \<longleftrightarrow>
     threshold b = int n \<and> b_open b = has_run n rs \<and>
     (b_open b \<or> consecutive b = int (trail rs) \<and> b_lastReason b = (if rs = [] then '''' else last rs))"

lemma breaker_inv_step:
  assumes "breaker_inv n rs b" and "0 < n"
  shows "breaker_inv n (since_step rs oc) (breaker_step b oc)"
proof (cases oc)
  case Succeeded
  have "\<not> has_run n []" using assms(2) by (simp add: has_run_def)
  with assms Succeeded show ?thesis
    by (simp add: breaker_inv_def since_step_def breaker_step_def RecordSuccess_def trail_def)
next
  case (Failed r)
  show ?thesis
  proof (cases "b_open b")
    case True
    with assms Failed show ?thesis
      by (simp add: breaker_inv_def since_step_def breaker_step_def RecordFailure_def has_run_snoc)
  next
    case False
    with assms have b: "threshold b = int n" "\<not> has_run n rs" "consecutive b = int (trail rs)"
      "b_lastReason b = (if rs = [] then '''' else last rs)" by (auto simp: breaker_inv_def)
    have c: "int (trail (rs @ [r])) = (if r = b_lastReason b then consecutive b + 1 else 1)"
    proof (cases "rs = []")
      case True
      with b(3) show ?thesis by (simp add: trail_snoc) (simp add: trail_def)
    next
      case False
      with b(3,4) show ?thesis by (cases "last rs = r") (auto simp: trail_snoc)
    qed
    define b1 where "b1 = (if r = b_lastReason b then b\<lparr>consecutive := consecutive b + 1\<rparr>
      else b\<lparr>b_lastReason := r, consecutive := 1\<rparr>)"
    have b1: "consecutive b1 = int (trail (rs @ [r]))" "b_lastReason b1 = r" "threshold b1 = int n" "\<not> b_open b1"
      using b(1) False by (simp_all add: b1_def c)
    have "breaker_step b oc = (if int n \<le> int (trail (rs @ [r])) then b1\<lparr>b_open := True\<rparr> else b1)"
      using False Failed by (simp add: breaker_step_def RecordFailure_def b1 flip: b1_def)
    with b1 b(2) Failed assms(2) show ?thesis
      by (simp add: breaker_inv_def since_step_def has_run_snoc)
  qed
qed

lemma breaker_inv_run:
  assumes "0 < n" and "breaker_inv n rs b"
  shows "breaker_inv n (foldl since_step rs ocs) (foldl breaker_step b ocs)"
  using assms by (induction ocs arbitrary: rs b) (simp_all add: breaker_inv_step)

text \<open>
  a breaker with a positive threshold is open exactly when the failures since the last
  success contain that many consecutive failures with one reason; failures with varying reasons
  never open it, and a success closes it.
\<close>

theorem breaker_open_iff:
  assumes "0 < n"
  shows "breaker_Open (foldl breaker_step (NewCircuitBreaker (int n)) ocs) \<longleftrightarrow> has_run n (failures_since ocs)"
proof -
  have "breaker_inv n [] (NewCircuitBreaker (int n))"
    using assms by (auto simp: breaker_inv_def NewCircuitBreaker_def has_run_def trail_def)
  from breaker_inv_run [OF assms this, of ocs] show ?thesis
    by (simp add: breaker_inv_def breaker_Open_def failures_since_def)
qed

theorem breaker_open_iff_witness:
  "breaker_Open (foldl breaker_step (NewCircuitBreaker 3) [Succeeded, Failed ''x'', Failed ''x'', Failed ''x''])"
proof -
  have "failures_since [Succeeded, Failed ''x'', Failed ''x'', Failed ''x''] = [] @ replicate 3 ''x'' @ []"
    by (simp add: failures_since_def since_step_def numeral_3_eq_3)
  then have "has_run 3 (failures_since [Succeeded, Failed ''x'', Failed ''x'', Failed ''x''])"
    unfolding has_run_def by blast
  then show ?thesis
    using breaker_open_iff [of 3 "[Succeeded, Failed ''x'', Failed ''x'', Failed ''x'']"] by simp
qed

section \<open>The detector\<close>

lemma tiles_iff: "tiles w p \<longleftrightarrow> (\<forall>i. p \<le> i \<and> i < length w \<longrightarrow> w ! i = w ! (i - p))"
  for w :: "action list"
  by (auto simp: tiles_def list_all_iff intro!: action.equality)

text \<open>A window repeats with period \<open>p\<close>: \<open>p\<close> divides its length and shifting by \<open>p\<close> changes nothing.\<close>

definition repeats :: "'a list \<Rightarrow> nat \<Rightarrow> bool" where
  "repeats w p \<longleftrightarrow>
     0 < p \<and> 2 * p \<le> length w \<and> length w mod p = 0 \<and> drop p w = take (length w - p) w"

lemma drop_take_iff: "p \<le> length w \<Longrightarrow>
    drop p w = take (length w - p) w \<longleftrightarrow> (\<forall>i. p \<le> i \<and> i < length w \<longrightarrow> w ! i = w ! (i - p))"
proof
  assume "p \<le> length w" and eq: "drop p w = take (length w - p) w"
  show "\<forall>i. p \<le> i \<and> i < length w \<longrightarrow> w ! i = w ! (i - p)"
  proof (intro allI impI)
    fix i assume i: "p \<le> i \<and> i < length w"
    from eq have "drop p w ! (i - p) = take (length w - p) w ! (i - p)" by simp
    with i show "w ! i = w ! (i - p)" by (simp add: diff_less_mono)
  qed
next
  assume "p \<le> length w" and all: "\<forall>i. p \<le> i \<and> i < length w \<longrightarrow> w ! i = w ! (i - p)"
  show "drop p w = take (length w - p) w"
  proof (rule nth_equalityI)
    fix i assume "i < length (drop p w)"
    then show "drop p w ! i = take (length w - p) w ! i"
      using all [rule_format, of "p + i"] by simp
  qed simp
qed

lemma tiles_repeats:
  "1 \<le> p \<Longrightarrow> p < length w div 2 + 1 \<Longrightarrow> length w mod p = 0 \<and> tiles w p \<longleftrightarrow> repeats w p" for w :: "action list"
proof -
  assume "1 \<le> p" "p < length w div 2 + 1"
  then have "0 < p" "2 * p \<le> length w" "p \<le> length w" by linarith+
  then show ?thesis by (simp add: repeats_def tiles_iff drop_take_iff)
qed

lemma find_first:
  "find P [a ..< b] = Some p \<longleftrightarrow> a \<le> p \<and> p < b \<and> P p \<and> (\<forall>q. a \<le> q \<and> q < p \<longrightarrow> \<not> P q)"
proof
  assume "find P [a ..< b] = Some p"
  then obtain i where i: "i < b - a" "P (a + i)" "p = a + i" "\<forall>j < i. \<not> P (a + j)"
    by (auto simp: find_Some_iff)
  moreover have "\<not> P q" if "a \<le> q" "q < p" for q
    using i(3,4) that by (metis le_add_diff_inverse nat_add_left_cancel_less)
  ultimately show "a \<le> p \<and> p < b \<and> P p \<and> (\<forall>q. a \<le> q \<and> q < p \<longrightarrow> \<not> P q)" by auto
next
  assume h: "a \<le> p \<and> p < b \<and> P p \<and> (\<forall>q. a \<le> q \<and> q < p \<longrightarrow> \<not> P q)"
  then have "p - a < length [a ..< b] \<and> P ([a ..< b] ! (p - a)) \<and> p = [a ..< b] ! (p - a)"
    by (simp add: diff_less_mono)
  moreover have "\<not> P ([a ..< b] ! j)" if "j < p - a" for j
  proof -
    have "a + j < p" "a + j < b" using h that by linarith+
    with h show ?thesis by simp
  qed
  ultimately show "find P [a ..< b] = Some p" unfolding find_Some_iff by blast
qed

lemma find_upt_None: "find P [a ..< b] = None \<longleftrightarrow> (\<forall>q. a \<le> q \<and> q < b \<longrightarrow> \<not> P q)"
  by (auto simp: find_None_iff)

definition recent :: "nat \<Rightarrow> 'a list \<Rightarrow> 'a list" where
  "recent n xs = drop (length xs - n) xs"

lemma length_recent: "n \<le> length xs \<Longrightarrow> length (recent n xs) = n"
  by (simp add: recent_def)

lemma recent_recent: "n \<le> m \<Longrightarrow> recent n (recent m xs) = recent n xs"
  by (cases "length xs \<le> m") (auto simp: recent_def)

text \<open>
  the detector suspects a session exactly when a full window of actions is there and
  repeats with some period of at most half the window that divides it; the verdict names the
  smallest such period and the reason that goes with it.
\<close>

theorem Observe_smallest_period:
  "Observe d h =
     (if window d \<le> length h \<and> (\<exists>p. repeats (recent (window d) h) p)
      then let p = (LEAST p. repeats (recent (window d) h) p)
           in \<lparr>Suspected = True, VReason = Some (reason_of p), Period = p\<rparr>
      else no_verdict)"
proof (cases "window d \<le> length h")
  case False
  then show ?thesis by (simp add: Observe_def)
next
  case True
  let ?w = "recent (window d) h"
  let ?P = "\<lambda>p. window d mod p = 0 \<and> tiles ?w p"
  have len: "length ?w = window d" using True by (rule length_recent)
  have P: "?P p \<longleftrightarrow> repeats ?w p" if "1 \<le> p" "p < window d div 2 + 1" for p
    using tiles_repeats [of p ?w] that len by simp
  have range: "1 \<le> p \<and> p < window d div 2 + 1" if "repeats ?w p" for p
    using that len unfolding repeats_def by linarith
  have obs: "Observe d h = (case find ?P [1 ..< window d div 2 + 1] of None \<Rightarrow> no_verdict
      | Some p \<Rightarrow> \<lparr>Suspected = True, VReason = Some (reason_of p), Period = p\<rparr>)"
    using True by (simp add: Observe_def recent_def)
  show ?thesis
  proof (cases "find ?P [1 ..< window d div 2 + 1]")
    case None
    then have "\<nexists>p. repeats ?w p" unfolding find_upt_None using P range by blast
    with None obs show ?thesis by simp
  next
    case (Some p)
    from Some [unfolded find_first] have p: "1 \<le> p" "p < window d div 2 + 1" "?P p" by simp_all
    from Some [unfolded find_first] have least: "\<not> ?P q" if "1 \<le> q" "q < p" for q using that by simp
    have rp: "repeats ?w p" using P [OF p(1,2)] p(3) by blast
    have "(LEAST p. repeats ?w p) = p"
    proof (rule Least_equality)
      fix q assume q: "repeats ?w q"
      with range [of q] P [of q] least [of q] show "p \<le> q" by (meson not_le)
    qed (rule rp)
    with Some obs True rp show ?thesis by auto
  qed
qed

section \<open>The tracker\<close>

text \<open>
  The tracker after a list of calls, and the verdict of the last of them; and what the verdict
  should be, computed from the whole unbounded list of actions.
\<close>

definition action_of :: "(bytes \<Rightarrow> bytes) \<Rightarrow> string \<times> bytes \<Rightarrow> action" where
  "action_of sha c = \<lparr>tool = fst c, digest = Digest sha (fst c) (snd c)\<rparr>"

definition track :: "(bytes \<Rightarrow> bytes) \<Rightarrow> tracker \<Rightarrow> (string \<times> bytes) list \<Rightarrow> tracker" where
  "track sha t cs = foldl (\<lambda>t c. snd (Tracker_Record sha t (fst c) (snd c))) t cs"

definition tracker_inv :: "nat \<Rightarrow> action list \<Rightarrow> tracker \<Rightarrow> bool" where
  "tracker_inv w as t \<longleftrightarrow>
     det t = NewDetector w \<and> maxHistory t = w * 4 \<and> t_history t = recent (w * 4) as \<and>
     t_lastReason t = VReason (Observe (NewDetector w) as) \<and>
     0 \<le> consecutiveTrips t \<and> (Suspected (Observe (NewDetector w) as) \<longleftrightarrow> 1 \<le> consecutiveTrips t)"

lemma Observe_recent: "0 < w \<Longrightarrow> Observe (NewDetector w) (recent (w * 4) as) = Observe (NewDetector w) as"
proof -
  assume "0 < w"
  then have "window (NewDetector w) \<le> w * 4" by (simp add: NewDetector_def)
  then have "recent (window (NewDetector w)) (recent (w * 4) as) = recent (window (NewDetector w)) as"
    and "window (NewDetector w) \<le> length (recent (w * 4) as) \<longleftrightarrow> window (NewDetector w) \<le> length as"
    by (simp_all add: recent_recent) (auto simp: recent_def)
  then show ?thesis by (simp add: Observe_def recent_def not_le [symmetric])
qed

lemma Observe_reason: "VReason (Observe d h) = None \<longleftrightarrow> \<not> Suspected (Observe d h)"
  by (simp add: Observe_def no_verdict_def Let_def split: option.splits)

lemma Observe_unsuspected: "\<not> Suspected (Observe d h) \<Longrightarrow> Observe d h = no_verdict"
  unfolding Observe_def Let_def by (auto split: if_splits option.splits)

lemma recent_snoc:
  "(let h = recent n as @ [a] in if length h > n then drop (length h - n) h else h) = recent n (as @ [a])"
  by (cases "n \<le> length as") (auto simp: recent_def Let_def Suc_diff_le)

lemma Tracker_Record_step:
  assumes "tracker_inv w as t" and "0 < w"
    and v_def: "v = Observe (NewDetector w) (as @ [action_of sha (tn, inp)])"
  shows "tracker_inv w (as @ [action_of sha (tn, inp)]) (snd (Tracker_Record sha t tn inp))"
    and "fst (Tracker_Record sha t tn inp) =
           \<lparr>TVerdict = v,
            Terminate = (Suspected v \<and> Suspected (Observe (NewDetector w) as) \<and>
                         VReason v = VReason (Observe (NewDetector w) as))\<rparr>"
proof -
  let ?as = "as @ [action_of sha (tn, inp)]"
  have t: "det t = NewDetector w" "maxHistory t = w * 4" "t_history t = recent (w * 4) as"
    "t_lastReason t = VReason (Observe (NewDetector w) as)" "0 \<le> consecutiveTrips t"
    "Suspected (Observe (NewDetector w) as) \<longleftrightarrow> 1 \<le> consecutiveTrips t"
    using assms(1) by (auto simp: tracker_inv_def)
  have h: "(let h = t_history t @ [\<lparr>tool = tn, digest = Digest sha tn inp\<rparr>]
       in if length h > maxHistory t then drop (length h - maxHistory t) h else h) = recent (w * 4) ?as"
    using recent_snoc [of "w * 4" as "action_of sha (tn, inp)"]
    unfolding t(2,3) by (simp only: action_of_def fst_conv snd_conv)
  have v: "Observe (NewDetector w) (recent (w * 4) ?as) = v"
    unfolding v_def by (rule Observe_recent [OF assms(2)])
  define t' where "t' = t\<lparr>t_history := recent (w * 4) ?as\<rparr>"
  have rec: "Tracker_Record sha t tn inp =
      (if \<not> Suspected v
       then (\<lparr>TVerdict = no_verdict, Terminate = False\<rparr>, t'\<lparr>consecutiveTrips := 0, t_lastReason := None\<rparr>)
       else let t'' = (if VReason v = t_lastReason t then t'\<lparr>consecutiveTrips := consecutiveTrips t + 1\<rparr>
                       else t'\<lparr>t_lastReason := VReason v, consecutiveTrips := 1\<rparr>)
            in (\<lparr>TVerdict = v, Terminate = consecutiveTrips t'' \<ge> 2\<rparr>, t''))"
    using h v by (simp add: Tracker_Record_def t(1) t'_def Let_def)
  show "tracker_inv w ?as (snd (Tracker_Record sha t tn inp))"
    unfolding rec using t Observe_reason [of "NewDetector w" ?as]
    by (auto simp: tracker_inv_def t'_def Let_def v_def [symmetric])
  show "fst (Tracker_Record sha t tn inp) = \<lparr>TVerdict = v, Terminate = (Suspected v \<and>
      Suspected (Observe (NewDetector w) as) \<and> VReason v = VReason (Observe (NewDetector w) as))\<rparr>"
    unfolding rec using t Observe_reason [of "NewDetector w" as] Observe_reason [of "NewDetector w" ?as]
      Observe_unsuspected [of "NewDetector w" ?as]
    by (auto simp: Let_def v_def [symmetric])
qed

lemma tracker_inv_run:
  assumes "0 < w" and "tracker_inv w as t"
  shows "tracker_inv w (as @ map (action_of sha) cs) (track sha t cs)"
  using assms(2)
proof (induction cs arbitrary: as t)
  case (Cons c cs)
  have "tracker_inv w (as @ [action_of sha c]) (snd (Tracker_Record sha t (fst c) (snd c)))"
    using Tracker_Record_step(1) [OF Cons.prems assms(1) refl, of sha "fst c" "snd c"] by simp
  from Cons.IH [OF this] show ?case by (simp add: track_def)
qed (simp add: track_def)

text \<open>
  C28: with a positive window the tracker, which keeps only the last four windows of a session's
  actions, gives after any calls the verdict of the detector on all of them, and asks to
  terminate exactly when this call and the one before it were both suspected for one reason.
\<close>

theorem Tracker_refines_unbounded:
  assumes "0 < w"
  shows "fst (Tracker_Record sha (track sha (newTracker w) cs) (fst c) (snd c)) =
    (let before = Observe (NewDetector w) (map (action_of sha) cs);
         now = Observe (NewDetector w) (map (action_of sha) (cs @ [c]))
     in \<lparr>TVerdict = now, Terminate = (Suspected now \<and> Suspected before \<and> VReason now = VReason before)\<rparr>)"
proof -
  have "Observe (NewDetector w) [] = no_verdict" by (simp add: Observe_def NewDetector_def)
  then have "tracker_inv w [] (newTracker w)"
    by (simp add: tracker_inv_def newTracker_def recent_def no_verdict_def)
  from Tracker_Record_step(2) [OF tracker_inv_run [OF assms this, of sha cs] assms refl, of sha "fst c" "snd c"]
  show ?thesis by (simp add: Let_def)
qed

theorem Tracker_refines_unbounded_witness:
  "Terminate (fst (Tracker_Record id (track id (newTracker 1) (replicate 4 (''read'', ''x''))) ''read'' ''x''))"
  using Tracker_refines_unbounded [of 1 id "replicate 4 (''read'', ''x'')" "(''read'', ''x'')"]
  by (simp add: Let_def) code_simp

text \<open>
  a tracker made with window zero never suspects anything, although the detector inside it
  has a window of four: its history is cut to nothing after every call.
\<close>

theorem Tracker_window_zero_blind:
  "TVerdict (fst (Tracker_Record sha (track sha (newTracker 0) cs) tn inp)) = no_verdict"
proof -
  have step: "det (snd (Tracker_Record sha t x y)) = NewDetector 0 \<and> maxHistory (snd (Tracker_Record sha t x y)) = 0"
    if "det t = NewDetector 0" "maxHistory t = 0" for t x y
    using that by (simp add: Tracker_Record_def Let_def)
  have "det (track sha t cs) = NewDetector 0 \<and> maxHistory (track sha t cs) = 0"
    if "det t = NewDetector 0" "maxHistory t = 0" for t
    using that by (induction cs arbitrary: t) (simp_all add: track_def step)
  from this [of "newTracker 0"] show ?thesis
    by (simp add: newTracker_def Tracker_Record_def Let_def Observe_def NewDetector_def)
qed

end
