(* ===== verification/Go_Codec.thy ===== *)
theory Go_Codec
  imports Json_Model
begin

text \<open>
  The text forms the Go standard library gives JSON values and byte slices: the compact output of
  \<^verbatim>\<open>json.Marshal\<close> with its HTML-safe escapes, the grammar \<^verbatim>\<open>json.Unmarshal\<close> reads, and padded
  standard base64. Strings are Go strings holding valid UTF-8, byte by byte. The lemmas are the
  two round trips.
\<close>

section \<open>Escapes\<close>

definition code :: "char \<Rightarrow> nat" where
  "code c = of_char c"

definition hex_digit :: "nat \<Rightarrow> char" where
  "hex_digit n = (if n < 10 then char_of (48 + n) else char_of (87 + n))"

definition hex_value :: "char \<Rightarrow> nat option" where
  "hex_value c = (let n = code c in
     if 48 \<le> n \<and> n \<le> 57 then Some (n - 48)
     else if 97 \<le> n \<and> n \<le> 102 then Some (n - 87)
     else if 65 \<le> n \<and> n \<le> 70 then Some (n - 55) else None)"

definition escape_char :: "char \<Rightarrow> string" where
  "escape_char c = (let n = code c in
     if n = 34 then [CHR 92, CHR 34] else if n = 92 then [CHR 92, CHR 92]
     else if n = 8 then [CHR 92, CHR ''b''] else if n = 12 then [CHR 92, CHR ''f'']
     else if n = 10 then [CHR 92, CHR ''n''] else if n = 13 then [CHR 92, CHR ''r'']
     else if n = 9 then [CHR 92, CHR ''t'']
     else if n < 32 \<or> n = 60 \<or> n = 62 \<or> n = 38
     then [CHR 92, CHR ''u'', CHR ''0'', CHR ''0'', hex_digit (n div 16), hex_digit (n mod 16)]
     else [c])"

text \<open>The separators U+2028 and U+2029, three bytes each, are escaped as well.\<close>

fun escape :: "string \<Rightarrow> string" where
  "escape [] = []"
| "escape (c # cs) =
     (if code c = 226 \<and> take 2 cs = [CHR 128, CHR 168]
      then [CHR 92, CHR ''u'', CHR ''2'', CHR ''0'', CHR ''2'', CHR ''8''] @ escape (drop 2 cs)
      else if code c = 226 \<and> take 2 cs = [CHR 128, CHR 169]
      then [CHR 92, CHR ''u'', CHR ''2'', CHR ''0'', CHR ''2'', CHR ''9''] @ escape (drop 2 cs)
      else escape_char c @ escape cs)"

definition utf8 :: "nat \<Rightarrow> string" where
  "utf8 n =
     (if n < 128 then [char_of n]
      else if n < 2048 then [char_of (192 + n div 64), char_of (128 + n mod 64)]
      else if n < 65536 then [char_of (224 + n div 4096), char_of (128 + n div 64 mod 64), char_of (128 + n mod 64)]
      else [char_of (240 + n div 262144), char_of (128 + n div 4096 mod 64), char_of (128 + n div 64 mod 64),
            char_of (128 + n mod 64)])"

text \<open>Four hex digits at the front of the input.\<close>

definition hex4 :: "string \<Rightarrow> nat option" where
  "hex4 cs =
     (case cs of
        a # b # c # d # _ \<Rightarrow>
          (case (hex_value a, hex_value b, hex_value c, hex_value d) of
             (Some x, Some y, Some z, Some w) \<Rightarrow> Some (4096 * x + 256 * y + 16 * z + w)
           | _ \<Rightarrow> None)
      | _ \<Rightarrow> None)"

text \<open>A surrogate pair makes one rune; a half of one alone is the replacement character.\<close>

definition low_surrogate :: "string \<Rightarrow> nat option" where
  "low_surrogate cs =
     (if take 2 cs = [CHR 92, CHR ''u''] then
        (case hex4 (drop 2 cs) of
           Some v \<Rightarrow> if 56320 \<le> v \<and> v < 57344 then Some v else None
         | None \<Rightarrow> None)
      else None)"

definition unescape_char :: "char \<Rightarrow> char option" where
  "unescape_char c = (let n = code c in
     if n = 34 \<or> n = 92 \<or> n = 47 then Some c
     else if n = 98 then Some (CHR 8) else if n = 102 then Some (CHR 12)
     else if n = 110 then Some (CHR 10) else if n = 114 then Some (CHR 13)
     else if n = 116 then Some (CHR 9) else None)"

text \<open>The rest of a string literal after its opening quote, and what follows it.\<close>

function parse_string :: "string \<Rightarrow> (string \<times> string) option" where
  "parse_string cs =
     (case cs of
        [] \<Rightarrow> None
      | c # r \<Rightarrow>
          if code c = 34 then Some ([], r)
          else if code c < 32 then None
          else if code c \<noteq> 92 then map_option (\<lambda>(s, r'). (c # s, r')) (parse_string r)
          else (case r of
                  [] \<Rightarrow> None
                | e # r1 \<Rightarrow>
                    if code e \<noteq> 117 then
                      (case unescape_char e of
                         None \<Rightarrow> None
                       | Some d \<Rightarrow> map_option (\<lambda>(s, r'). (d # s, r')) (parse_string r1))
                    else
                      (case hex4 r1 of
                         None \<Rightarrow> None
                       | Some v \<Rightarrow>
                           if 55296 \<le> v \<and> v < 57344 then
                             (case (if v < 56320 then low_surrogate (drop 4 r1) else None) of
                                Some v2 \<Rightarrow> map_option (\<lambda>(s, r'). (utf8 (65536 + (v - 55296) * 1024 + (v2 - 56320)) @ s, r'))
                                            (parse_string (drop 10 r1))
                              | None \<Rightarrow> map_option (\<lambda>(s, r'). (utf8 65533 @ s, r')) (parse_string (drop 4 r1)))
                           else map_option (\<lambda>(s, r'). (utf8 v @ s, r')) (parse_string (drop 4 r1)))))"
  by pat_completeness auto
termination
  by (relation "measure length") auto

declare parse_string.simps [simp del]

section \<open>Numbers\<close>

text \<open>
  The number at the front of the input and what follows it; none when its fraction or exponent is
  cut short.
\<close>

definition is_digit :: "char \<Rightarrow> bool" where
  "is_digit c \<longleftrightarrow> 48 \<le> code c \<and> code c \<le> 57"

definition is_number_char :: "char \<Rightarrow> bool" where
  "is_number_char c \<longleftrightarrow> is_digit c \<or> c \<in> set ''+-.eE''"

definition scan_sign :: "string \<Rightarrow> string \<Rightarrow> string \<times> string" where
  "scan_sign signs cs = (case cs of [] \<Rightarrow> ([], []) | c # r \<Rightarrow> if c \<in> set signs then ([c], r) else ([], cs))"

definition scan_digits :: "string \<Rightarrow> (string \<times> string) option" where
  "scan_digits cs =
     (if takeWhile is_digit cs = [] then None else Some (takeWhile is_digit cs, dropWhile is_digit cs))"

definition scan_int :: "string \<Rightarrow> (string \<times> string) option" where
  "scan_int cs = (if take 1 cs = ''0'' then Some (''0'', drop 1 cs) else scan_digits cs)"

definition scan_frac :: "string \<Rightarrow> (string \<times> string) option" where
  "scan_frac cs =
     (if take 1 cs = ''.'' then map_option (\<lambda>(d, r). (CHR ''.'' # d, r)) (scan_digits (drop 1 cs)) else Some ([], cs))"

definition scan_exp :: "string \<Rightarrow> (string \<times> string) option" where
  "scan_exp cs =
     (case scan_sign ''eE'' cs of (e, r) \<Rightarrow>
        if e = [] then Some ([], cs)
        else (case scan_sign ''+-'' r of (sg, r1) \<Rightarrow> map_option (\<lambda>(d, r2). (e @ sg @ d, r2)) (scan_digits r1)))"

definition scan_number :: "string \<Rightarrow> (string \<times> string) option" where
  "scan_number cs =
     (case scan_sign ''-'' cs of (sg, cs1) \<Rightarrow>
        (case scan_int cs1 of
           None \<Rightarrow> None
         | Some (i, cs2) \<Rightarrow>
             (case scan_frac cs2 of
                None \<Rightarrow> None
              | Some (f, cs3) \<Rightarrow> map_option (\<lambda>(x, cs4). (sg @ i @ f @ x, cs4)) (scan_exp cs3))))"

definition valid_number :: "string \<Rightarrow> bool" where
  "valid_number s \<longleftrightarrow> scan_number s = Some (s, [])"

section \<open>Values\<close>

definition json_space :: "char \<Rightarrow> bool" where
  "json_space c \<longleftrightarrow> code c \<in> {32, 9, 10, 13}"

definition skip_ws :: "string \<Rightarrow> string" where
  "skip_ws = dropWhile json_space"

definition literal :: "string \<Rightarrow> string \<Rightarrow> json \<Rightarrow> (json \<times> string) option" where
  "literal word cs v = (if take (length word) cs = word then Some (v, drop (length word) cs) else None)"

fun parse_value :: "nat \<Rightarrow> string \<Rightarrow> (json \<times> string) option"
and parse_members :: "nat \<Rightarrow> string \<Rightarrow> ((string \<times> json) list \<times> string) option"
and parse_elements :: "nat \<Rightarrow> string \<Rightarrow> (json list \<times> string) option" where
  "parse_value 0 cs = None"
| "parse_value (Suc n) cs =
     (case skip_ws cs of
        [] \<Rightarrow> None
      | c # r \<Rightarrow>
          if c = CHR ''{'' then
            (if take 1 (skip_ws r) = ''}'' then Some (JObj [], drop 1 (skip_ws r))
             else map_option (\<lambda>(fs, r'). (JObj fs, r')) (parse_members n r))
          else if c = CHR ''['' then
            (if take 1 (skip_ws r) = '']'' then Some (JArr [], drop 1 (skip_ws r))
             else map_option (\<lambda>(vs, r'). (JArr vs, r')) (parse_elements n r))
          else if c = CHR 34 then map_option (\<lambda>(s, r'). (JStr s, r')) (parse_string r)
          else if c = CHR ''t'' then literal ''true'' (c # r) (JBool True)
          else if c = CHR ''f'' then literal ''false'' (c # r) (JBool False)
          else if c = CHR ''n'' then literal ''null'' (c # r) JNull
          else map_option (\<lambda>(t, r'). (JNum t, r')) (scan_number (c # r)))"
| "parse_members 0 cs = None"
| "parse_members (Suc n) cs =
     (if take 1 (skip_ws cs) \<noteq> [CHR 34] then None
      else (case parse_string (drop 1 (skip_ws cs)) of
              None \<Rightarrow> None
            | Some (key, r) \<Rightarrow>
                if take 1 (skip_ws r) \<noteq> '':'' then None
                else (case parse_value n (drop 1 (skip_ws r)) of
                        None \<Rightarrow> None
                      | Some (v, r1) \<Rightarrow>
                          if take 1 (skip_ws r1) = ''}'' then Some ([(key, v)], drop 1 (skip_ws r1))
                          else if take 1 (skip_ws r1) = '','' then
                            map_option (\<lambda>(fs, r'). ((key, v) # fs, r')) (parse_members n (drop 1 (skip_ws r1)))
                          else None)))"
| "parse_elements 0 cs = None"
| "parse_elements (Suc n) cs =
     (case parse_value n cs of
        None \<Rightarrow> None
      | Some (v, r1) \<Rightarrow>
          if take 1 (skip_ws r1) = '']'' then Some ([v], drop 1 (skip_ws r1))
          else if take 1 (skip_ws r1) = '','' then
            map_option (\<lambda>(vs, r'). (v # vs, r')) (parse_elements n (drop 1 (skip_ws r1)))
          else None)"

text \<open>Each nesting level consumes input, so the length of the text is fuel enough.\<close>

definition json_parse :: "string \<Rightarrow> err + json" where
  "json_parse cs =
     (case parse_value (2 * length cs) cs of
        Some (v, r) \<Rightarrow> if skip_ws r = [] then Inr v else Inl (Err ''invalid character after top-level value'')
      | None \<Rightarrow> Inl (Err ''invalid JSON text''))"

definition render_string :: "string \<Rightarrow> string" where
  "render_string s = CHR 34 # escape s @ [CHR 34]"

definition joined :: "string list \<Rightarrow> string" where
  "joined xs = concat (case xs of [] \<Rightarrow> [] | x # r \<Rightarrow> x # map (\<lambda>y. CHR '','' # y) r)"

fun json_render :: "json \<Rightarrow> string" where
  "json_render JNull = ''null''"
| "json_render (JBool b) = (if b then ''true'' else ''false'')"
| "json_render (JNum t) = t"
| "json_render (JStr s) = render_string s"
| "json_render (JArr vs) = ''['' @ joined (map json_render vs) @ '']''"
| "json_render (JObj fs) = ''{'' @ joined (map (\<lambda>(key, v). render_string key @ '':'' @ json_render v) fs) @ ''}''"

section \<open>A rendered value reads back\<close>

lemma hex_value_digit: "d < 16 \<Longrightarrow> hex_value (hex_digit d) = Some d"
  by (auto simp: hex_value_def hex_digit_def code_def Let_def)

lemma char_codes:
  "char_of (34::nat) = CHR 34" "char_of (92::nat) = CHR 92" "char_of (8::nat) = CHR 8"
  "char_of (12::nat) = CHR 12" "char_of (10::nat) = CHR 10" "char_of (13::nat) = CHR 13"
  "char_of (9::nat) = CHR 9" "char_of (226::nat) = CHR 226" "char_of (128::nat) = CHR 128"
  "char_of (168::nat) = CHR 168" "char_of (169::nat) = CHR 169"
  by code_simp+

lemma hex_value_0: "hex_value (CHR ''0'') = Some 0"
  by code_simp

lemma code_eq: "code c = n \<Longrightarrow> c = char_of n"
  by (auto simp: code_def)

lemma code_less: "code c < 256"
  by (simp add: code_def)

lemma parse_string_plain:
  "32 \<le> code c \<Longrightarrow> code c \<noteq> 34 \<Longrightarrow> code c \<noteq> 92 \<Longrightarrow>
     parse_string (c # r) = map_option (\<lambda>(s, r'). (c # s, r')) (parse_string r)"
  by (subst parse_string.simps) simp

lemma parse_string_short:
  "code e \<noteq> 117 \<Longrightarrow> unescape_char e = Some d \<Longrightarrow>
     parse_string (CHR 92 # e # r) = map_option (\<lambda>(s, r'). (d # s, r')) (parse_string r)"
  by (subst parse_string.simps) (simp add: code_def)

lemma parse_string_unicode:
  "hex4 cs = Some v \<Longrightarrow> v < 55296 \<Longrightarrow>
     parse_string (CHR 92 # CHR ''u'' # cs) = map_option (\<lambda>(s, r'). (utf8 v @ s, r')) (parse_string (drop 4 cs))"
  by (subst parse_string.simps) (simp add: code_def)

lemma parse_string_escape_char:
  "parse_string (escape_char c @ r) = map_option (\<lambda>(s, r'). (c # s, r')) (parse_string r)"
proof -
  let ?n = "code c"
  have c: "c = char_of ?n" by (simp add: code_def)
  consider "?n = 34" | "?n = 92" | "?n = 8" | "?n = 12" | "?n = 10" | "?n = 13" | "?n = 9"
    | "?n \<notin> {34, 92, 8, 12, 10, 13, 9}" "?n < 32 \<or> ?n = 60 \<or> ?n = 62 \<or> ?n = 38"
    | "32 \<le> ?n" "?n \<notin> {34, 92, 60, 62, 38}"
    by (cases "?n < 32"; cases "?n \<in> {34, 92, 8, 12, 10, 13, 9}"; cases "?n \<in> {60, 62, 38}") auto
  then show ?thesis
  proof cases
    case 8
    then have n: "?n < 64" by auto
    then have "hex4 (CHR ''0'' # CHR ''0'' # hex_digit (?n div 16) # hex_digit (?n mod 16) # r) = Some ?n"
      using hex_value_digit [of "?n div 16"] hex_value_digit [of "?n mod 16"]
      by (simp add: hex4_def hex_value_0)
    moreover have "utf8 ?n = [c]" using n c by (simp add: utf8_def)
    ultimately show ?thesis using 8 n by (auto simp: escape_char_def Let_def parse_string_unicode)
  next
    case 9
    then show ?thesis by (simp add: escape_char_def parse_string_plain)
  qed (drule code_eq, simp add: char_codes escape_char_def parse_string_short unescape_char_def code_def)+
qed

lemma parse_string_escape: "parse_string (escape s @ CHR 34 # r) = Some (s, r)"
proof (induction s rule: escape.induct)
  case 1
  show ?case by (subst parse_string.simps) (simp add: code_def)
next
  case (2 c cs)
  have sep: "utf8 8232 = [CHR 226, CHR 128, CHR 168]" "utf8 8233 = [CHR 226, CHR 128, CHR 169]"
    by (simp_all add: utf8_def char_codes)
  have h: "hex4 (''2028'' @ x) = Some 8232" "hex4 (''2029'' @ x) = Some 8233" for x
    by (simp_all add: hex4_def hex_value_def code_def)
  have split: "cs = take 2 cs @ drop 2 cs" by simp
  consider (ls) "code c = 226" "take 2 cs = [CHR 128, CHR 168]" | (ps) "code c = 226" "take 2 cs = [CHR 128, CHR 169]"
    | (other) "\<not> (code c = 226 \<and> take 2 cs = [CHR 128, CHR 168])" "\<not> (code c = 226 \<and> take 2 cs = [CHR 128, CHR 169])"
    by blast
  then show ?case
  proof cases
    case ls
    then have "c # cs = [CHR 226, CHR 128, CHR 168] @ drop 2 cs"
      using split code_eq [of c 226] by (simp add: char_codes)
    with ls 2 h(1) [of "escape (drop 2 cs) @ CHR 34 # r"] show ?thesis
      by (simp add: parse_string_unicode sep)
  next
    case ps
    then have "c # cs = [CHR 226, CHR 128, CHR 169] @ drop 2 cs"
      using split code_eq [of c 226] by (simp add: char_codes)
    with ps 2 h(2) [of "escape (drop 2 cs) @ CHR 34 # r"] show ?thesis
      by (simp add: parse_string_unicode sep)
  next
    case other
    with 2 show ?thesis by (auto simp: parse_string_escape_char)
  qed
qed

fun wf_json :: "json \<Rightarrow> bool" where
  "wf_json (JNum t) = valid_number t"
| "wf_json (JArr vs) = list_all wf_json vs"
| "wf_json (JObj fs) = list_all (\<lambda>(key, v). wf_json v) fs"
| "wf_json _ = True"

text \<open>What may stand after a value: nothing, or a character that closes or separates.\<close>

definition follows :: "string \<Rightarrow> bool" where
  "follows r \<longleftrightarrow> r = [] \<or> hd r \<in> set '',]}''"

text \<open>A number is scanned the same whatever follows it, and what is scanned is a number.\<close>

definition stops :: "string \<Rightarrow> bool" where
  "stops r \<longleftrightarrow> r = [] \<or> \<not> is_number_char (hd r)"

lemma stops_char: "stops r \<Longrightarrow> c \<in> set ''+-.eE'' \<Longrightarrow> take 1 r \<noteq> [c]"
  by (cases r) (auto simp: stops_def is_number_char_def)

lemma stops_digit: "stops r \<Longrightarrow> takeWhile is_digit r = [] \<and> dropWhile is_digit r = r"
  by (cases r) (auto simp: stops_def is_number_char_def)

lemma While_append:
  "takeWhile P r = [] \<Longrightarrow> dropWhile P r = r \<Longrightarrow>
     takeWhile P (xs @ r) = takeWhile P xs \<and> dropWhile P (xs @ r) = dropWhile P xs @ r"
  by (induction xs) auto

lemma scan_sign_append:
  "stops r \<Longrightarrow> set signs \<subseteq> set ''+-.eE'' \<Longrightarrow> scan_sign signs (cs @ r) = (case scan_sign signs cs of (sg, t) \<Rightarrow> (sg, t @ r))"
  by (cases cs; cases r) (auto simp: scan_sign_def stops_def is_number_char_def)

lemma scan_digits_append: "stops r \<Longrightarrow> scan_digits (cs @ r) = map_option (\<lambda>(t, u). (t, u @ r)) (scan_digits cs)"
  using While_append [of is_digit r cs] stops_digit [of r] by (simp add: scan_digits_def)

lemma scan_int_append: "stops r \<Longrightarrow> scan_int (cs @ r) = map_option (\<lambda>(t, u). (t, u @ r)) (scan_int cs)"
proof (cases cs)
  case Nil
  assume r: "stops r"
  have "is_digit (CHR ''0'')" by (simp add: is_digit_def code_def)
  then have "take 1 r \<noteq> ''0''" using r by (cases r) (auto simp: stops_def is_number_char_def)
  with Nil stops_digit [OF r] show ?thesis by (simp add: scan_int_def scan_digits_def)
next
  case (Cons c u)
  assume r: "stops r"
  have "take 1 (cs @ r) = take 1 cs" "drop 1 (cs @ r) = drop 1 cs @ r" by (simp_all add: Cons)
  with scan_digits_append [OF r, of cs] show ?thesis by (simp add: scan_int_def del: take_append drop_append)
qed

lemma scan_frac_append: "stops r \<Longrightarrow> scan_frac (cs @ r) = map_option (\<lambda>(t, u). (t, u @ r)) (scan_frac cs)"
  using stops_char [of r "CHR ''.''"]
  by (cases cs) (simp_all add: scan_frac_def scan_digits_append option.map_comp o_def split_beta)

lemma scan_exp_append: "stops r \<Longrightarrow> scan_exp (cs @ r) = map_option (\<lambda>(t, u). (t, u @ r)) (scan_exp cs)"
  by (auto simp: scan_exp_def scan_sign_append scan_digits_append option.map_comp o_def split_beta)

lemma scan_number_append:
  "stops r \<Longrightarrow> scan_number (cs @ r) = map_option (\<lambda>(t, u). (t, u @ r)) (scan_number cs)"
  by (auto simp: scan_number_def scan_sign_append scan_int_append scan_frac_append scan_exp_append option.map_comp o_def
        split_beta split: option.splits)

lemma scan_digits_self: "scan_digits cs = Some (d, u) \<Longrightarrow> takeWhile is_digit v = [] \<Longrightarrow> scan_digits (d @ v) = Some (d, v)"
proof -
  assume "scan_digits cs = Some (d, u)" and v: "takeWhile is_digit v = []"
  then have d: "d \<noteq> []" "\<forall>c \<in> set d. is_digit c" by (auto simp: scan_digits_def dest: set_takeWhileD split: if_splits)
  have "dropWhile is_digit v = v" using v by (cases v) (auto split: if_splits)
  with d v show ?thesis by (auto simp: scan_digits_def takeWhile_append2 dropWhile_append2)
qed

lemma scan_digits_first: "scan_digits cs = Some (c # d, u) \<Longrightarrow> is_digit c"
  by (cases cs) (auto simp: scan_digits_def split: if_splits)

lemma sign_no_digit: "\<not> is_digit (CHR ''+'')" "\<not> is_digit (CHR ''-'')"
  by (simp_all add: is_digit_def code_def)

lemma scan_number_self: "scan_number cs = Some (t, u) \<Longrightarrow> valid_number t"
proof -
  assume "scan_number cs = Some (t, u)"
  then obtain sg cs1 i cs2 f cs3 x where s: "scan_sign ''-'' cs = (sg, cs1)" "scan_int cs1 = Some (i, cs2)"
      "scan_frac cs2 = Some (f, cs3)" "scan_exp cs3 = Some (x, u)" and t: "t = sg @ i @ f @ x"
    by (auto simp: scan_number_def split: prod.splits option.splits)
  have x: "scan_exp x = Some (x, [])" "x = [] \<or> (\<exists>y. x = CHR ''e'' # y) \<or> (\<exists>y. x = CHR ''E'' # y)"
    using s(4) scan_digits_self [of _ _ _ "[]"]
    by (auto simp: scan_exp_def scan_sign_def sign_no_digit dest: scan_digits_first split: list.splits if_splits prod.splits)
  then have "takeWhile is_digit x = []" "take 1 x \<noteq> ''.''" by (auto simp: is_digit_def code_def)
  then have f: "scan_frac (f @ x) = Some (f, x)" "f = [] \<or> (\<exists>y. f = CHR ''.'' # y)"
    using s(3) scan_digits_self [of _ _ _ x] by (auto simp: scan_frac_def split: if_splits)
  then have fx: "takeWhile is_digit (f @ x) = []" using \<open>takeWhile is_digit x = []\<close> by (auto simp: is_digit_def code_def)
  have i: "scan_int (i @ f @ x) = Some (i, f @ x)" "\<exists>c r. i = c # r \<and> c \<noteq> CHR ''-''"
  proof -
    show "scan_int (i @ f @ x) = Some (i, f @ x)"
    proof (cases "take 1 cs1 = ''0''")
      case False
      then have d: "scan_digits cs1 = Some (i, cs2)" using s(2) by (simp add: scan_int_def)
      then have "take 1 (i @ f @ x) = take 1 cs1" by (cases cs1) (auto simp: scan_digits_def split: if_splits)
      with False scan_digits_self [OF d fx] show ?thesis by (simp add: scan_int_def del: take_append)
    qed (use s(2) in \<open>auto simp: scan_int_def\<close>)
    show "\<exists>c r. i = c # r \<and> c \<noteq> CHR ''-''"
      using s(2) by (cases cs1) (auto simp: scan_int_def scan_digits_def is_digit_def code_def split: if_splits)
  qed
  have "scan_sign ''-'' (sg @ i @ f @ x) = (sg, i @ f @ x)"
    using s(1) i(2) by (auto simp: scan_sign_def split: list.splits if_splits)
  with i(1) f(1) x(1) t show ?thesis by (simp add: valid_number_def scan_number_def)
qed

lemma number_first: "valid_number s \<Longrightarrow> \<exists>c r. s = c # r \<and> (is_digit c \<or> c = CHR ''-'')"
proof (cases s)
  case (Cons c r)
  assume "valid_number s"
  then show ?thesis
    by (auto simp: Cons valid_number_def scan_number_def scan_sign_def scan_int_def scan_digits_def is_digit_def code_def
          split: if_splits option.splits)
qed (simp add: valid_number_def scan_number_def scan_sign_def scan_int_def scan_digits_def)

lemma digit_plain: "is_digit c \<Longrightarrow> c \<notin> set ''-{}[],tfn'' \<and> c \<noteq> CHR 34 \<and> \<not> json_space c"
  by (auto simp: is_digit_def json_space_def code_def)

lemma not_space [simp]: "\<not> json_space (CHR 34)" "\<not> json_space (CHR '','')" "\<not> json_space (CHR '']'')" "\<not> json_space (CHR ''}'')"
  "\<not> json_space (CHR '':'')" "\<not> json_space (CHR ''{'')" "\<not> json_space (CHR ''['')"
  "\<not> json_space (CHR ''t'')" "\<not> json_space (CHR ''f'')" "\<not> json_space (CHR ''n'')" "\<not> json_space (CHR ''-'')"
  by (simp_all add: json_space_def code_def)

lemma render_first:
  assumes "wf_json j"
  shows "\<exists>c r. json_render j = c # r \<and> \<not> json_space c \<and> c \<noteq> CHR '']'' \<and> c \<noteq> CHR ''}''"
proof (cases j)
  case (JNum t)
  with assms number_first [of t] obtain c r where "t = c # r" "is_digit c \<or> c = CHR ''-''" by auto
  with JNum digit_plain [of c] not_space show ?thesis by auto
qed (use not_space in \<open>auto simp: render_string_def\<close>)

lemma skip_ws_none [simp]: "\<not> json_space c \<Longrightarrow> skip_ws (c # r) = c # r"
  by (simp add: skip_ws_def)


lemma joined_simps [simp]:
  "joined [] = ''''" "joined [x] = x" "joined (x # y # r) = x @ '','' @ joined (y # r)"
  by (simp_all add: joined_def)

lemma follows_stops: "follows r \<Longrightarrow> stops r"
  by (auto simp: follows_def stops_def is_number_char_def is_digit_def code_def)

definition reads :: "json \<Rightarrow> bool" where
  "reads v \<longleftrightarrow> (\<forall>n r. follows r \<longrightarrow> length (json_render v) \<le> n \<longrightarrow> parse_value n (json_render v @ r) = Some (v, r))"

lemma render_nonempty: "wf_json v \<Longrightarrow> 0 < length (json_render v)"
  using render_first by fastforce

lemma parse_elements_render:
  assumes "list_all (\<lambda>v. wf_json v \<and> reads v) vs" "vs \<noteq> []" "length (joined (map json_render vs)) < n"
  shows "parse_elements n (joined (map json_render vs) @ '']'' @ r) = Some (vs, r)"
  using assms
proof (induction vs arbitrary: n)
  case (Cons v vs)
  obtain m where n: "n = Suc m" using Cons.prems by (cases n) auto
  show ?case
  proof (cases vs)
    case Nil
    with Cons.prems n have "parse_value m (json_render v @ '']'' @ r) = Some (v, '']'' @ r)"
      unfolding reads_def by (simp add: reads_def follows_def)
    with Nil n show ?thesis by simp
  next
    case (Cons y ys)
    note vs = this
    let ?rest = "joined (map json_render vs) @ '']'' @ r"
    from vs n Cons.prems have len: "length (joined (map json_render vs)) < m" and m: "length (json_render v) \<le> m"
      using render_nonempty [of v] by auto
    have "parse_value m (json_render v @ '','' @ ?rest) = Some (v, '','' @ ?rest)"
      using Cons.prems m by (simp add: reads_def follows_def)
    with Cons.IH [of m] len Cons.prems n vs show ?thesis by simp
  qed
qed simp

lemma parse_members_render:
  assumes "list_all (\<lambda>(key, v). wf_json v \<and> reads v) fs" "fs \<noteq> []"
    "length (joined (map (\<lambda>(key, v). render_string key @ '':'' @ json_render v) fs)) < n"
  shows "parse_members n (joined (map (\<lambda>(key, v). render_string key @ '':'' @ json_render v) fs) @ ''}'' @ r) = Some (fs, r)"
  using assms
proof (induction fs arbitrary: n)
  case (Cons f fs)
  obtain key v where f: "f = (key, v)" by fastforce
  obtain m where n: "n = Suc m" using Cons.prems by (cases n) auto
  have str: "parse_string (escape key @ CHR 34 # t) = Some (key, t)" for t by (rule parse_string_escape)
  obtain c t where c: "json_render v = c # t" "\<not> json_space c" using render_first Cons.prems f by force
  show ?case
  proof (cases fs)
    case Nil
    with Cons.prems n f have "parse_value m (json_render v @ ''}'' @ r) = Some (v, ''}'' @ r)"
      by (simp add: reads_def follows_def)
    with Nil n f str show ?thesis by (simp add: render_string_def)
  next
    case (Cons y ys)
    note fs = this
    let ?j = "joined (map (\<lambda>(key, v). render_string key @ '':'' @ json_render v) fs)"
    let ?rest = "?j @ ''}'' @ r"
    from fs n f Cons.prems have len: "length ?j < m" and m: "length (json_render v) \<le> m"
      by (auto simp: render_string_def)
    have "parse_value m (json_render v @ '','' @ ?rest) = Some (v, '','' @ ?rest)"
      using Cons.prems f m by (simp add: reads_def follows_def)
    with Cons.IH [of m] len Cons.prems n fs f str show ?thesis by (simp add: render_string_def)
  qed
qed simp

lemma reads_wf: "wf_json j \<Longrightarrow> reads j"
proof (induction j)
  case (JNum t)
  then obtain c u where t: "t = c # u" "is_digit c \<or> c = CHR ''-''" using number_first [of t] by auto
  show ?case unfolding reads_def
  proof (intro allI impI)
    fix n r assume r: "follows r" and n: "length (json_render (JNum t)) \<le> n"
    have plain: "\<not> json_space c" "c \<notin> set ''{[tfn''" "c \<noteq> CHR 34"
      using t(2) digit_plain [of c] not_space(11) by (elim disjE, simp, simp)+
    have v: "scan_number (c # u @ r) = Some (c # u, r)"
      using JNum t scan_number_append [OF follows_stops [OF r], of "c # u"] by (simp add: valid_number_def)
    obtain m where m: "n = Suc m" using n t by (cases n) auto
    have "parse_value (Suc m) (c # u @ r) = Some (JNum (c # u), r)"
      using plain v by simp
    with m t show "parse_value n (json_render (JNum t) @ r) = Some (JNum t, r)" by simp
  qed
next
  case (JArr vs)
  then have vs: "list_all (\<lambda>v. wf_json v \<and> reads v) vs" by (auto simp: list_all_iff)
  show ?case unfolding reads_def
  proof (intro allI impI)
    fix n r assume n: "length (json_render (JArr vs)) \<le> n"
    then obtain m where m: "n = Suc m" by (cases n) auto
    show "parse_value n (json_render (JArr vs) @ r) = Some (JArr vs, r)"
    proof (cases vs)
      case (Cons v ws)
      then obtain c t where "joined (map json_render vs) = c # t" "\<not> json_space c" "c \<noteq> CHR '']''"
        using render_first [of v] vs by (cases ws) auto
      with parse_elements_render [OF vs, of m r] m n Cons show ?thesis by auto
    qed (simp add: m)
  qed
next
  case (JObj fs)
  then have fs: "list_all (\<lambda>(key, v). wf_json v \<and> reads v) fs" by (fastforce simp: list_all_iff)
  show ?case unfolding reads_def
  proof (intro allI impI)
    fix n r assume n: "length (json_render (JObj fs)) \<le> n"
    then obtain m where m: "n = Suc m" by (cases n) auto
    show "parse_value n (json_render (JObj fs) @ r) = Some (JObj fs, r)"
    proof (cases fs)
      case (Cons f gs)
      then obtain t where "joined (map (\<lambda>(key, v). render_string key @ '':'' @ json_render v) fs) = CHR 34 # t"
        by (cases f; cases gs) (auto simp: render_string_def)
      with parse_members_render [OF fs, of m r] m n Cons show ?thesis by auto
    qed (simp add: m)
  qed
next
  case (JStr s)
  show ?case unfolding reads_def
  proof (intro allI impI)
    fix n r assume "length (json_render (JStr s)) \<le> n"
    then obtain m where "n = Suc m" by (cases n) (auto simp: render_string_def)
    then show "parse_value n (json_render (JStr s) @ r) = Some (JStr s, r)"
      by (simp add: render_string_def parse_string_escape)
  qed
next
  case (JBool b)
  show ?case unfolding reads_def
  proof (intro allI impI)
    fix n r assume "length (json_render (JBool b)) \<le> n"
    then obtain m where "n = Suc m" by (cases n) (auto split: if_splits)
    then show "parse_value n (json_render (JBool b) @ r) = Some (JBool b, r)"
      by (simp add: literal_def)
  qed
next
  case JNull
  show ?case unfolding reads_def
  proof (intro allI impI)
    fix n r assume "length (json_render JNull) \<le> n"
    then obtain m where "n = Suc m" by (cases n) auto
    then show "parse_value n (json_render JNull @ r) = Some (JNull, r)"
      by (simp add: literal_def)
  qed
qed

lemma json_parse_render: "wf_json j \<Longrightarrow> json_parse (json_render j) = Inr j"
  using reads_wf [of j] by (simp add: reads_def follows_def json_parse_def skip_ws_def)

lemma parse_wf:
  "parse_value n cs = Some (v, r) \<Longrightarrow> wf_json v"
  "parse_members n cs = Some (fs, r) \<Longrightarrow> list_all (\<lambda>(key, v). wf_json v) fs"
  "parse_elements n cs = Some (vs, r) \<Longrightarrow> list_all wf_json vs"
proof (induction n cs and n cs and n cs arbitrary: v r and fs r and vs r rule: parse_value_parse_members_parse_elements.induct)
  case (2 n cs)
  then show ?case
    by (simp add: literal_def Let_def split: list.split_asm if_split_asm) (auto dest: scan_number_self)
next
  case (4 n cs)
  from "4.prems" obtain key r0 v r1 where parsed: "parse_string (drop 1 (skip_ws cs)) = Some (key, r0)"
      "take 1 (skip_ws cs) = [CHR 34]" "take 1 (skip_ws r0) = '':''" "parse_value n (drop 1 (skip_ws r0)) = Some (v, r1)"
    by (simp split: if_split_asm option.split_asm prod.split_asm)
  with "4.IH"(1) have "wf_json v" by simp
  with "4.prems" "4.IH"(2) parsed show ?case
    by (simp split: if_split_asm) auto
next
  case (6 n cs)
  from "6.prems" obtain v r1 where parsed: "parse_value n cs = Some (v, r1)"
    by (simp split: option.split_asm prod.split_asm)
  with "6.IH"(1) have "wf_json v" by simp
  with "6.prems" "6.IH"(2) parsed show ?case
    by (simp split: if_split_asm) auto
qed simp_all

lemma json_parse_wf: "json_parse cs = Inr v \<Longrightarrow> wf_json v"
  by (auto simp: json_parse_def dest: parse_wf split: option.splits prod.splits if_splits)

section \<open>Base64\<close>

definition enc64 :: "nat \<Rightarrow> char" where
  "enc64 n =
     (if n < 26 then char_of (65 + n) else if n < 52 then char_of (71 + n)
      else if n < 62 then char_of (n - 4) else if n = 62 then CHR ''+'' else CHR ''/'')"

definition dec64 :: "char \<Rightarrow> nat option" where
  "dec64 c = (let n = code c in
     if 65 \<le> n \<and> n \<le> 90 then Some (n - 65) else if 97 \<le> n \<and> n \<le> 122 then Some (n - 71)
     else if 48 \<le> n \<and> n \<le> 57 then Some (n + 4) else if n = 43 then Some 62
     else if n = 47 then Some 63 else None)"

fun b64_encode :: "string \<Rightarrow> string" where
  "b64_encode (a # b # c # r) =
     [enc64 (code a div 4), enc64 (code a mod 4 * 16 + code b div 16),
      enc64 (code b mod 16 * 4 + code c div 64), enc64 (code c mod 64)] @ b64_encode r"
| "b64_encode [a, b] =
     [enc64 (code a div 4), enc64 (code a mod 4 * 16 + code b div 16), enc64 (code b mod 16 * 4), CHR ''='']"
| "b64_encode [a] = [enc64 (code a div 4), enc64 (code a mod 4 * 16), CHR ''='', CHR ''='']"
| "b64_encode [] = []"

definition byte1 :: "nat \<Rightarrow> nat \<Rightarrow> char" where
  "byte1 w x = char_of (w * 4 + x div 16)"

definition byte2 :: "nat \<Rightarrow> nat \<Rightarrow> char" where
  "byte2 x y = char_of (x mod 16 * 16 + y div 4)"

definition byte3 :: "nat \<Rightarrow> nat \<Rightarrow> char" where
  "byte3 y z = char_of (y mod 4 * 64 + z)"

text \<open>Four characters at a time; only the last group may be padded.\<close>

fun b64_groups :: "string \<Rightarrow> string option" where
  "b64_groups [] = Some []"
| "b64_groups (w # x # y # z # r) =
     (case (dec64 w, dec64 x) of
        (Some w', Some x') \<Rightarrow>
          if z = CHR ''='' \<and> r = [] then
            (if y = CHR ''='' then Some [byte1 w' x']
             else (case dec64 y of Some y' \<Rightarrow> Some [byte1 w' x', byte2 x' y'] | None \<Rightarrow> None))
          else
            (case (dec64 y, dec64 z) of
               (Some y', Some z') \<Rightarrow> map_option (\<lambda>t. [byte1 w' x', byte2 x' y', byte3 y' z'] @ t) (b64_groups r)
             | _ \<Rightarrow> None)
      | _ \<Rightarrow> None)"
| "b64_groups _ = None"

definition b64_decode :: "string \<Rightarrow> err + string" where
  "b64_decode s =
     (case b64_groups (filter (\<lambda>c. code c \<noteq> 10 \<and> code c \<noteq> 13) s) of
        Some t \<Rightarrow> Inr t
      | None \<Rightarrow> Inl (Err ''illegal base64 data''))"

lemma dec_enc64: "n < 64 \<Longrightarrow> dec64 (enc64 n) = Some n"
  by (auto simp: dec64_def enc64_def code_def Let_def)

lemma enc64_plain: "n < 64 \<Longrightarrow> code (enc64 n) \<noteq> 10 \<and> code (enc64 n) \<noteq> 13 \<and> enc64 n \<noteq> CHR ''=''"
proof -
  assume "n < 64"
  then have "dec64 (enc64 n) = Some n" by (rule dec_enc64)
  then show ?thesis by (auto simp: dec64_def code_def)
qed

lemma byte1_enc: "y < 16 \<Longrightarrow> byte1 (code a div 4) (code a mod 4 * 16 + y) = a"
  by (simp add: byte1_def) (simp add: code_def)

lemma byte2_enc: "z < 4 \<Longrightarrow> byte2 (x * 16 + code b div 16) (code b mod 16 * 4 + z) = b"
proof -
  assume z: "z < 4"
  have "code b div 16 < 16" using code_less [of b] by simp
  then have "(x * 16 + code b div 16) mod 16 * 16 + (code b mod 16 * 4 + z) div 4 = code b"
    using z by simp
  then show ?thesis by (simp add: byte2_def code_def)
qed

lemma byte3_enc: "byte3 (y * 4 + code c div 64) (code c mod 64) = c"
proof -
  have "code c div 64 < 4" using code_less [of c] by simp
  then have "(y * 4 + code c div 64) mod 4 * 64 + code c mod 64 = code c" by simp
  then show ?thesis by (simp add: byte3_def code_def)
qed

lemma sextets:
  "code a div 4 < 64" "code a mod 4 * 16 + code b div 16 < 64" "code b mod 16 * 4 + code c div 64 < 64"
  "code c mod 64 < 64" "code b mod 16 * 4 < 64" "code a mod 4 * 16 < 64" "code b div 16 < 16" "code c div 64 < 4"
  using code_less [of a] code_less [of b] code_less [of c] by simp_all

lemma b64_groups_encode: "b64_groups (b64_encode s) = Some s"
proof (induction s rule: b64_encode.induct)
  case (1 a b c r)
  then show ?case
    using enc64_plain [OF sextets(4) [of c]]
    by (simp add: dec_enc64 sextets byte1_enc byte2_enc byte3_enc)
next
  case (2 a b)
  show ?case
    using byte2_enc [of 0 "code a mod 4" b] enc64_plain [OF sextets(5) [of b]]
    by (simp add: dec_enc64 sextets byte1_enc)
next
  case (3 a)
  show ?case using byte1_enc [of 0 a] by (simp add: dec_enc64 sextets)
qed simp

lemma b64_lines: "filter (\<lambda>c. code c \<noteq> 10 \<and> code c \<noteq> 13) (b64_encode s) = b64_encode s"
  by (induction s rule: b64_encode.induct) (simp_all add: enc64_plain sextets, simp_all add: code_def)

lemma b64_decode_encode: "b64_decode (b64_encode s) = Inr s"
  by (simp add: b64_decode_def b64_lines b64_groups_encode)

end
