(* ===== verification/Kernel_Types.thy ===== *)
theory Kernel_Types
  imports Event_Log Cost_Gate Prompt_Ctx Reliability Go_Codec
begin

text \<open>
  The kernel's own types (\<^verbatim>\<open>kernel/types.go\<close>), the payloads it seals into events with their JSON
  form (\<^verbatim>\<open>kernel/events.go\<close>), the terminal reasons (\<^verbatim>\<open>kernel/terminal.go\<close>), and the two
  stand-in ports the package ships. What the payloads need of JSON, base64 and \<^verbatim>\<open>uuid\<close> is a
  \<open>codec\<close>; the contract \<open>codec_laws\<close> is discharged for the Go encodings.
\<close>

section \<open>Requests and results\<close>

record tool_use_request =
  TuID :: string
  TuName :: string
  TuInput :: bytes

type_synonym legs = "bool \<times> bool \<times> bool"

record tool_result =
  Output :: bytes
  IsError :: bool
  TrReason :: string
  Synthetic :: bool
  PermissionDenied :: bool
  AwaitingApproval :: bool
  AskKind :: string
  CanonicalDigest :: bytes
  ApprovalMismatch :: bool
  EffectClass :: string
  AwaitingDelegation :: bool
  ChildSessionID :: uuid
  TaintChanged :: bool
  TaintEngaged :: legs

definition no_result :: tool_result where
  "no_result = \<lparr>Output = '''', IsError = False, TrReason = '''', Synthetic = False, PermissionDenied = False,
     AwaitingApproval = False, AskKind = '''', CanonicalDigest = '''', ApprovalMismatch = False,
     EffectClass = '''', AwaitingDelegation = False, ChildSessionID = 0, TaintChanged = False,
     TaintEngaged = (False, False, False)\<rparr>"

record exec_context =
  EcTenant :: uuid
  EcSession :: uuid
  EcAutonomyLevel :: string

record run_config =
  RunSystem :: string
  Catalog :: "tool_schema list"
  RunModelID :: string
  MaxTurns :: int
  Input :: string
  RunAutonomyLevel :: string
  LoadedTools :: "string list"
  CondenserModelID :: string
  MemorySources :: "string list"
  Conversational :: bool

record suspend_request =
  SuTenant :: uuid
  SuSession :: uuid
  SuToolUseEventID :: uuid
  ApprovalEventID :: uuid
  SuToolID :: string
  SuInput :: bytes
  SuCanonicalDigest :: bytes
  SuAskKind :: string
  SuEffectClass :: string

text \<open>The four known decisions, or another word, for which \<^verbatim>\<open>Resume\<close>'s switch has no case.\<close>

datatype approval_decision =
    ApprovalDecisionGranted
  | ApprovalDecisionGrantedModified
  | ApprovalDecisionDenied
  | ApprovalDecisionInvalidated
  | ApprovalDecisionOther string

record pending_resolution =
  PrToolUseEventID :: uuid
  PrToolID :: string
  PrInput :: bytes
  ModifiedInput :: bytes
  ApprovedDigest :: bytes
  PrDecision :: approval_decision
  PrReason :: string

record delegate_suspend_request =
  DsTenant :: uuid
  DsSession :: uuid
  DsToolUseEventID :: uuid
  DelegationEventID :: uuid
  DsToolID :: string
  DsChildSessionID :: uuid

datatype delegation_outcome =
    DelegationReturned | DelegationReaped | DelegationBoundExceeded | DelegationOther string

record delegation_resolution =
  DrToolUseEventID :: uuid
  DrToolID :: string
  DrOutcome :: delegation_outcome
  DrResult :: bytes
  DrReason :: string

text \<open>The executor and the gate the package itself provides.\<close>

definition NotImplementedToolExecutor :: "tool_use_request \<Rightarrow> exec_context \<Rightarrow> tool_result" where
  "NotImplementedToolExecutor req rc =
     no_result\<lparr>IsError := True, Synthetic := True,
       TrReason := ''tool pipeline not implemented until Phase 3 (internal/tools/pipeline.go)''\<rparr>"

definition Noop_Reserve :: "uuid \<Rightarrow> reserve_request \<Rightarrow> reservation \<times> err option" where
  "Noop_Reserve new_id req =
     (\<lparr>ResID = new_id, ResTenant = ReqTenant req, ResSession = ReqSession req, ResModel = ReqModel req,
       ResDecision = \<lparr>Kind = DecisionSkip, DecReason = ''NoopBudgetGate: cost governance not wired'',
                      DecBudgetID = None, Reserved = \<lparr>Micros = 0, Currency = ''''\<rparr>\<rparr>,
       sessionBudget = None, tenantBudget = None, tenantEpoch = 0\<rparr>, None)"

definition Noop_Reconcile :: "reservation \<Rightarrow> usage \<Rightarrow> bool \<Rightarrow> err option" where
  "Noop_Reconcile res u reported = None"

section \<open>Terminal reasons\<close>

datatype terminal_reason =
    ReasonCompleted | ReasonMaxTurnsExceeded | ReasonCostExhausted | ReasonAborted
  | ReasonStuckTerminated | ReasonPermissionDenied | ReasonContextOverflow | ReasonError
  | ReasonRefused | ReasonIdleTimeout | ReasonUnknown string

fun reason_str :: "terminal_reason \<Rightarrow> string" where
  "reason_str ReasonCompleted = ''completed''"
| "reason_str ReasonMaxTurnsExceeded = ''max_turns_exceeded''"
| "reason_str ReasonCostExhausted = ''cost_exhausted''"
| "reason_str ReasonAborted = ''aborted''"
| "reason_str ReasonStuckTerminated = ''stuck_terminated''"
| "reason_str ReasonPermissionDenied = ''permission_denied''"
| "reason_str ReasonContextOverflow = ''context_overflow''"
| "reason_str ReasonError = ''error''"
| "reason_str ReasonRefused = ''refused''"
| "reason_str ReasonIdleTimeout = ''idle_timeout''"
| "reason_str (ReasonUnknown s) = s"

record terminal =
  TReason :: terminal_reason
  Detail :: string

definition TerminalCompleted :: terminal where
  "TerminalCompleted = \<lparr>TReason = ReasonCompleted, Detail = ''''\<rparr>"

definition TerminalMaxTurnsExceeded :: "int \<Rightarrow> terminal" where
  "TerminalMaxTurnsExceeded maxTurns =
     \<lparr>TReason = ReasonMaxTurnsExceeded, Detail = ''exceeded max_turns='' @ dec_int maxTurns\<rparr>"

definition TerminalCostExhausted :: "string \<Rightarrow> terminal" where
  "TerminalCostExhausted detail = \<lparr>TReason = ReasonCostExhausted, Detail = detail\<rparr>"

definition TerminalAborted :: "string \<Rightarrow> terminal" where
  "TerminalAborted detail = \<lparr>TReason = ReasonAborted, Detail = detail\<rparr>"

definition TerminalStuckTerminated :: "string \<Rightarrow> terminal" where
  "TerminalStuckTerminated detail = \<lparr>TReason = ReasonStuckTerminated, Detail = detail\<rparr>"

definition TerminalPermissionDenied :: "string \<Rightarrow> terminal" where
  "TerminalPermissionDenied toolID = \<lparr>TReason = ReasonPermissionDenied, Detail = ''denied: '' @ toolID\<rparr>"

definition TerminalContextOverflow :: "string \<Rightarrow> terminal" where
  "TerminalContextOverflow detail = \<lparr>TReason = ReasonContextOverflow, Detail = detail\<rparr>"

definition TerminalError :: "err \<Rightarrow> terminal" where
  "TerminalError er = \<lparr>TReason = ReasonError, Detail = err_msg er\<rparr>"

definition TerminalRefused :: "string \<Rightarrow> terminal" where
  "TerminalRefused category =
     \<lparr>TReason = ReasonRefused, Detail = (if category \<noteq> '''' then ''refused: '' @ category else ''refused'')\<rparr>"

definition TerminalIdleTimeout :: "string \<Rightarrow> terminal" where
  "TerminalIdleTimeout detail = \<lparr>TReason = ReasonIdleTimeout, Detail = detail\<rparr>"

definition buildTerminalPayload :: "terminal \<Rightarrow> err + string \<times> string" where
  "buildTerminalPayload t =
     (case TReason t of
        ReasonUnknown s \<Rightarrow> Inl (Err (''kernel: unknown terminal reason '' @ quoted s))
      | _ \<Rightarrow> Inr (reason_str (TReason t), Detail t))"

section \<open>Classification\<close>

datatype classification = ClassificationToolCalls | ClassificationContent | ClassificationEmpty

definition Classify_turn :: "tool_use_request list \<Rightarrow> string \<Rightarrow> classification" where
  "Classify_turn toolUses content =
     (if length toolUses > 0 then ClassificationToolCalls
      else if content \<noteq> '''' then ClassificationContent
      else ClassificationEmpty)"

definition resultText :: "tool_result \<Rightarrow> string" where
  "resultText r = (if IsError r then ''error: '' @ TrReason r else Output r)"

section \<open>Payloads\<close>

datatype payload =
    PUserMessage string
  | PContent string
  | PThought bytes
  | PToolLoaded string
  | PMemoryLoaded "string list"
  | PContextPruned nat
  | PCondensation string int string bool
  | PToolUse string bytes string
  | PToolResult tool_result
  | PStuckSuspected string
  | PApprovalRequested string string string
  | PDelegationRequested string uuid
  | PAwaitingInput
  | PTaintTransition legs
  | PBudgetDecision string string string string
  | PTerminal string string

text \<open>
  What the payloads need of code outside the repository: the text of a JSON value and its
  parser, the base64 form a \<^verbatim>\<open>[]byte\<close> field has, and the text form of a \<^verbatim>\<open>uuid.UUID\<close>. A
  \<^verbatim>\<open>json.RawMessage\<close> is marshalled as the value it parses to, so its white space goes; the spelling
  of escapes inside it is normalised too, where Go would keep it.
\<close>

record codec =
  render :: "json \<Rightarrow> bytes"
  parse :: "bytes \<Rightarrow> err + json"
  b64 :: "bytes \<Rightarrow> string"
  unb64 :: "string \<Rightarrow> err + bytes"
  uuid_String :: "uuid \<Rightarrow> string"
  uuid_Parse :: "string \<Rightarrow> err + uuid"

definition json_raw :: "codec \<Rightarrow> bytes \<Rightarrow> err + json" where
  "json_raw C raw = (if raw = '''' then Inr JNull else parse C raw)"

definition json_bytes :: "codec \<Rightarrow> bytes \<Rightarrow> json" where
  "json_bytes C b = (if b = '''' then JNull else JStr (b64 C b))"

definition json_legs :: "legs \<Rightarrow> json" where
  "json_legs l = (case l of (a, b, c) \<Rightarrow> JArr [JBool a, JBool b, JBool c])"

definition json_result :: "codec \<Rightarrow> tool_result \<Rightarrow> err + json" where
  "json_result C r =
     (case (if Output r = '''' then Inr [] else map_sum id (\<lambda>v. [(''output'', v)]) (parse C (Output r))) of
        Inl er \<Rightarrow> Inl er
      | Inr out \<Rightarrow>
          Inr (JObj (out @ [(''is_error'', JBool (IsError r))]
            @ omit_string ''reason'' (TrReason r)
            @ omit_bool ''synthetic'' (Synthetic r)
            @ omit_bool ''permission_denied'' (PermissionDenied r)
            @ omit_bool ''awaiting_approval'' (AwaitingApproval r)
            @ omit_string ''ask_kind'' (AskKind r)
            @ (if CanonicalDigest r = '''' then [] else [(''canonical_digest'', JStr (b64 C (CanonicalDigest r)))])
            @ omit_bool ''approval_mismatch'' (ApprovalMismatch r)
            @ omit_string ''effect_class'' (EffectClass r)
            @ omit_bool ''awaiting_delegation'' (AwaitingDelegation r)
            @ (if ChildSessionID r = 0 then [] else [(''child_session_id'', JStr (uuid_String C (ChildSessionID r)))])
            @ omit_bool ''taint_changed'' (TaintChanged r)
            @ (if TaintEngaged r = (False, False, False) then [] else [(''taint_engaged'', json_legs (TaintEngaged r))]))))"

fun payload_json :: "codec \<Rightarrow> payload \<Rightarrow> err + json" where
  "payload_json C (PUserMessage body) = Inr (JObj [(''body'', JStr body)])"
| "payload_json C (PContent body) = Inr (JObj [(''body'', JStr body)])"
| "payload_json C (PThought opaque) = Inr (JObj [(''opaque'', json_bytes C opaque)])"
| "payload_json C (PToolLoaded t) = Inr (JObj [(''tool_id'', JStr t)])"
| "payload_json C (PMemoryLoaded ss) = Inr (JObj [(''sources'', JArr (map JStr ss))])"
| "payload_json C (PContextPruned n) = Inr (JObj [(''pruned_count'', JNum (dec_nat n))])"
| "payload_json C (PCondensation cid sq summary degraded) =
     Inr (JObj [(''condensation_id'', JStr cid), (''covered_through_seq'', JNum (dec_int sq)),
                (''summary'', JStr summary), (''degraded'', JBool degraded)])"
| "payload_json C (PToolUse name inp tid) =
     map_sum id (\<lambda>v. JObj ([(''tool_name'', JStr name), (''input'', v)] @ omit_string ''tool_use_id'' tid))
       (json_raw C inp)"
| "payload_json C (PToolResult r) = json_result C r"
| "payload_json C (PStuckSuspected reason) = Inr (JObj [(''reason'', JStr reason)])"
| "payload_json C (PApprovalRequested t reason ask) =
     Inr (JObj (omit_string ''tool_id'' t @ omit_string ''reason'' reason @ omit_string ''ask_kind'' ask))"
| "payload_json C (PDelegationRequested t child) =
     Inr (JObj (omit_string ''tool_id'' t @ [(''child_session_id'', JStr (uuid_String C child))]))"
| "payload_json C PAwaitingInput = Inr (JObj [])"
| "payload_json C (PTaintTransition l) = Inr (JObj [(''engaged'', json_legs l)])"
| "payload_json C (PBudgetDecision d reason bid reserved) =
     Inr (JObj ([(''decision'', JStr d)] @ omit_string ''reason'' reason
                @ omit_string ''budget_id'' bid @ omit_string ''reserved'' reserved))"
| "payload_json C (PTerminal reason detail) =
     Inr (JObj ([(''reason'', JStr reason)] @ omit_string ''detail'' detail))"

definition json_Marshal :: "codec \<Rightarrow> payload \<Rightarrow> err + bytes" where
  "json_Marshal C p = map_sum id (render C) (payload_json C p)"

section \<open>The codec contract\<close>

text \<open>
  A value reads back from its text, numbers being JSON numbers; bytes read back from base64, an
  id from its text form; and what the parser returns is such a value.
\<close>

locale codec_laws =
  fixes C :: codec
  assumes parse_render: "wf_json j \<Longrightarrow> parse C (render C j) = Inr j"
    and parse_wf: "parse C b = Inr j \<Longrightarrow> wf_json j"
    and unb64_b64: "unb64 C (b64 C b) = Inr b"
    and uuid_Parse_String: "uuid_Parse C (uuid_String C u) = Inr u"

definition go_codec :: "(uuid \<Rightarrow> string) \<Rightarrow> (string \<Rightarrow> err + uuid) \<Rightarrow> codec" where
  "go_codec us up = \<lparr>render = json_render, parse = json_parse, b64 = b64_encode, unb64 = b64_decode,
     uuid_String = us, uuid_Parse = up\<rparr>"

lemma go_codec_laws:
  assumes "\<And>u. up (us u) = Inr u"
  shows "codec_laws (go_codec us up)"
  by unfold_locales (simp_all add: go_codec_def json_parse_render json_parse_wf b64_decode_encode assms)

text \<open>The ids' text form is left to the \<^verbatim>\<open>uuid\<close> package; tally marks stand for it here.\<close>

definition tally_codec :: codec where
  "tally_codec = go_codec (\<lambda>n. replicate n (CHR ''1'')) (\<lambda>s. Inr (length s))"

interpretation tally: codec_laws tally_codec
  unfolding tally_codec_def by (rule go_codec_laws) simp

end
