(* ===== verification/Hygiene.thy ===== *)
theory Hygiene
  imports Kernel_Types
begin

text \<open>
  The pass before every model call (\<^verbatim>\<open>kernel/hygiene.go\<close>): results that answer nothing or answer
  twice are dropped, and every tool use left without a result is reported. The lemmas say
  exactly which events are kept, that the report does not depend on the order in which the
  map of tool uses is walked, and that a second pass changes nothing.
\<close>

section \<open>The pass\<close>

record synthetic_result =
  SynPairRef :: uuid
  SynToolID :: "string option"
  SynReason :: string

text \<open>\<^verbatim>\<open>toolUses\<close>: the tool uses by their event id, a later event with the same id winning.\<close>

definition toolUses :: "event list \<Rightarrow> (uuid \<times> event) list" where
  "toolUses history = rev (map (\<lambda>e. (EventID e, e)) (filter (\<lambda>e. EType e = EventToolUse) history))"

text \<open>The second loop; \<open>seen\<close> is the set \<^verbatim>\<open>seenResultFor\<close>, returned as it is at the end.\<close>

fun keep_loop :: "(uuid \<rightharpoonup> event) \<Rightarrow> uuid list \<Rightarrow> event list \<Rightarrow> event list \<times> uuid list" where
  "keep_loop tus seen [] = ([], seen)"
| "keep_loop tus seen (e # es) =
     (if EType e \<noteq> EventToolResult then
        (case keep_loop tus seen es of (kept, seen') \<Rightarrow> (e # kept, seen'))
      else
        (case PairRef e of
           None \<Rightarrow> keep_loop tus seen es
         | Some ref \<Rightarrow>
             if tus ref = None then keep_loop tus seen es
             else if ref \<in> set seen then keep_loop tus seen es
             else (case keep_loop tus (ref # seen) es of (kept, seen') \<Rightarrow> (e # kept, seen'))))"

text \<open>
  The third loop walks the map in some order \<open>ks\<close> of its keys, which Go leaves open; the sort
  that follows makes the answer independent of it.
\<close>

definition synthesize_loop :: "(uuid \<rightharpoonup> event) \<Rightarrow> uuid list \<Rightarrow> uuid list \<Rightarrow> synthetic_result list" where
  "synthesize_loop tus seen ks =
     [\<lparr>SynPairRef = k, SynToolID = Option.bind (tus k) ToolID, SynReason = ''interrupted_before_execution''\<rparr>.
       k \<leftarrow> ks, k \<notin> set seen]"

definition Hygiene_in_order :: "uuid list \<Rightarrow> event list \<Rightarrow> event list \<times> synthetic_result list" where
  "Hygiene_in_order ks history =
     (let tus = map_of (toolUses history);
          (kept, seen) = keep_loop tus [] history in
      (kept, sort_slice (\<lambda>a b. SynPairRef a < SynPairRef b) (synthesize_loop tus seen ks)))"

definition Hygiene :: "event list \<Rightarrow> event list \<times> synthetic_result list" where
  "Hygiene history = Hygiene_in_order (remdups (map fst (toolUses history))) history"

section \<open>What the pass keeps\<close>

definition tool_use_ids :: "event list \<Rightarrow> uuid set" where
  "tool_use_ids history = EventID ` {e \<in> set history. EType e = EventToolUse}"

definition results_for :: "uuid \<Rightarrow> event list \<Rightarrow> event list" where
  "results_for ref history = filter (\<lambda>e. EType e = EventToolResult \<and> PairRef e = Some ref) history"

text \<open>Results that do not say which tool use they answer.\<close>

definition strays :: "event list \<Rightarrow> event list" where
  "strays history = filter (\<lambda>e. EType e = EventToolResult \<and> PairRef e = None) history"

definition others :: "event list \<Rightarrow> event list" where
  "others history = filter (\<lambda>e. EType e \<noteq> EventToolResult) history"

lemma tool_use_ids_append [simp]: "tool_use_ids (h @ h') = tool_use_ids h \<union> tool_use_ids h'"
  by (auto simp: tool_use_ids_def)

lemma tool_use_ids_Nil [simp]: "tool_use_ids [] = {}"
  by (simp add: tool_use_ids_def)

lemma tool_use_ids_Cons [simp]:
  "tool_use_ids (e # h) = (if EType e = EventToolUse then insert (EventID e) (tool_use_ids h) else tool_use_ids h)"
  by (auto simp: tool_use_ids_def)

lemma finite_tool_use_ids [simp]: "finite (tool_use_ids h)"
  by (simp add: tool_use_ids_def)

lemma results_for_simps [simp]:
  "results_for ref [] = []"
  "results_for ref (h @ h') = results_for ref h @ results_for ref h'"
  "results_for ref (e # h) =
     (if EType e = EventToolResult \<and> PairRef e = Some ref then e # results_for ref h else results_for ref h)"
  by (simp_all add: results_for_def)

lemma strays_simps [simp]:
  "strays [] = []"
  "strays (h @ h') = strays h @ strays h'"
  "strays (e # h) = (if EType e = EventToolResult \<and> PairRef e = None then e # strays h else strays h)"
  by (simp_all add: strays_def)

lemma others_simps [simp]:
  "others [] = []"
  "others (h @ h') = others h @ others h'"
  "others (e # h) = (if EType e \<noteq> EventToolResult then e # others h else others h)"
  by (simp_all add: others_def)

lemma tool_use_ids_others: "tool_use_ids (others h) = tool_use_ids h"
  by (induction h) auto

lemma map_of_toolUses: "map_of (toolUses h) ref = None \<longleftrightarrow> ref \<notin> tool_use_ids h"
proof -
  have "fst ` set (toolUses h) = tool_use_ids h"
    by (force simp: toolUses_def tool_use_ids_def image_iff)
  then show ?thesis by (metis map_of_eq_None_iff)
qed

lemma results_for_keep_loop:
  "results_for ref (fst (keep_loop tus seen es)) =
     (if tus ref \<noteq> None \<and> ref \<notin> set seen then take 1 (results_for ref es) else [])"
  by (induction tus seen es rule: keep_loop.induct)
     (auto split: option.splits prod.splits)

lemma others_keep_loop: "others (fst (keep_loop tus seen es)) = others es"
  by (induction tus seen es rule: keep_loop.induct) (auto split: option.splits prod.splits)

lemma strays_keep_loop: "strays (fst (keep_loop tus seen es)) = []"
  by (induction tus seen es rule: keep_loop.induct) (auto split: option.splits prod.splits)

lemma subseq_keep_loop: "subseq (fst (keep_loop tus seen es)) es"
  by (induction tus seen es rule: keep_loop.induct) (auto split: option.splits prod.splits)

lemma seen_keep_loop:
  "set (snd (keep_loop tus seen es)) = set seen \<union> {ref. tus ref \<noteq> None \<and> results_for ref es \<noteq> []}"
  by (induction tus seen es rule: keep_loop.induct) (auto split: option.splits prod.splits)

lemma keep_loop_answers:
  "e \<in> set (fst (keep_loop tus seen es)) \<Longrightarrow> EType e = EventToolResult \<Longrightarrow>
     \<exists>ref. PairRef e = Some ref \<and> tus ref \<noteq> None"
  by (induction tus seen es rule: keep_loop.induct) (auto split: option.splits prod.splits if_splits)

lemma keep_loop_paired:
  assumes "distinct (map PairRef (filter (\<lambda>e. EType e = EventToolResult) es))"
    and "\<And>e. e \<in> set es \<Longrightarrow> EType e = EventToolResult \<Longrightarrow> \<exists>ref. PairRef e = Some ref \<and> tus ref \<noteq> None \<and> ref \<notin> set seen"
  shows "fst (keep_loop tus seen es) = es"
  using assms
proof (induction tus seen es rule: keep_loop.induct)
  case (2 tus seen e es)
  show ?case
  proof (cases "EType e = EventToolResult")
    case False
    with 2 show ?thesis by (auto split: prod.splits)
  next
    case True
    from "2.prems"(2) [of e] True obtain ref where ref: "PairRef e = Some ref" "tus ref \<noteq> None" "ref \<notin> set seen"
      by auto
    have "fst (keep_loop tus (ref # seen) es) = es"
    proof (rule "2.IH"(5) [OF _ ref])
      show "\<not> EType e \<noteq> EventToolResult" using True by simp
      show "distinct (map PairRef (filter (\<lambda>e. EType e = EventToolResult) es))"
        using "2.prems"(1) True by simp
      fix e' assume e': "e' \<in> set es" "EType e' = EventToolResult"
      have "PairRef e' \<noteq> Some ref" using "2.prems"(1) True ref e' by force
      with "2.prems"(2) [of e'] e'
      show "\<exists>ref'. PairRef e' = Some ref' \<and> tus ref' \<noteq> None \<and> ref' \<notin> set (ref # seen)" by auto
    qed
    with True ref show ?thesis by (auto split: prod.splits)
  qed
qed simp

lemma distinct_results:
  "strays es = [] \<Longrightarrow> (\<And>ref. length (results_for ref es) \<le> 1) \<Longrightarrow>
     distinct (map PairRef (filter (\<lambda>e. EType e = EventToolResult) es))"
proof (induction es)
  case (Cons e es)
  have le: "length (results_for ref es) \<le> 1" for ref
    using Cons.prems(2) [of ref] by (auto split: if_splits)
  show ?case
  proof (cases "EType e = EventToolResult")
    case True
    with Cons.prems(1) obtain ref where ref: "PairRef e = Some ref" by (cases "PairRef e") auto
    with True Cons.prems(2) [of ref] have "results_for ref es = []" by simp
    with Cons.IH [OF _ le] Cons.prems(1) True ref show ?thesis by (auto simp: results_for_def filter_empty_conv)
  qed (use Cons.IH [OF _ le] Cons.prems(1) in simp)
qed simp

section \<open>What the pass reports\<close>

definition unanswered :: "event list \<Rightarrow> uuid set" where
  "unanswered history = {ref \<in> tool_use_ids history. results_for ref history = []}"

lemma finite_unanswered [simp]: "finite (unanswered h)"
  by (simp add: unanswered_def)

lemma map_SynPairRef_synthesize: "map SynPairRef (synthesize_loop tus seen ks) = filter (\<lambda>k. k \<notin> set seen) ks"
  by (induction ks) (simp_all add: synthesize_loop_def)

lemma map_insort_key: "map f (insort_key f x xs) = insort (f x) (map f xs)"
  by (induction xs) simp_all

lemma sort_key_map_key: "map f (sort_key f xs) = sort (map f xs)"
  by (induction xs) (simp_all add: map_insort_key)

text \<open>Whatever the order of the walk, the report lists the unanswered tool uses in increasing order.\<close>

lemma report_in_order:
  assumes "distinct ks" and "set ks = tool_use_ids h"
  shows "map SynPairRef (snd (Hygiene_in_order ks h)) = sorted_list_of_set (unanswered h)"
proof -
  let ?tus = "map_of (toolUses h)"
  let ?ks = "filter (\<lambda>k. k \<notin> set (snd (keep_loop ?tus [] h))) ks"
  have "set ?ks = unanswered h"
    using assms(2) by (auto simp: seen_keep_loop unanswered_def map_of_toolUses)
  moreover have "sort ?ks = sorted_list_of_set (set ?ks)"
    using assms(1) sorted_list_of_set_sort_remdups [of ?ks] by (simp only: distinct_remdups_id distinct_filter)
  ultimately show ?thesis
    by (simp add: Hygiene_in_order_def Let_def sort_slice_sort_key sort_key_map_key
          map_SynPairRef_synthesize split_beta)
qed

lemma fst_Hygiene_in_order: "fst (Hygiene_in_order ks h) = fst (keep_loop (map_of (toolUses h)) [] h)"
  by (simp add: Hygiene_in_order_def Let_def split: prod.splits)

lemma walk_keys: "distinct (remdups (map fst (toolUses h)))" "set (remdups (map fst (toolUses h))) = tool_use_ids h"
  by (force simp: toolUses_def tool_use_ids_def image_iff)+

lemma Hygiene_report: "map SynPairRef (snd (Hygiene h)) = sorted_list_of_set (unanswered h)"
  unfolding Hygiene_def by (rule report_in_order) (fact walk_keys)+

lemma results_for_Hygiene:
  "results_for ref (fst (Hygiene h)) = (if ref \<in> tool_use_ids h then take 1 (results_for ref h) else [])"
  by (simp add: Hygiene_def fst_Hygiene_in_order results_for_keep_loop map_of_toolUses)

lemma others_Hygiene: "others (fst (Hygiene h)) = others h"
  by (simp add: Hygiene_def fst_Hygiene_in_order others_keep_loop)

lemma strays_Hygiene: "strays (fst (Hygiene h)) = []"
  by (simp add: Hygiene_def fst_Hygiene_in_order strays_keep_loop)

lemma subseq_Hygiene: "subseq (fst (Hygiene h)) h"
  by (simp add: Hygiene_def fst_Hygiene_in_order subseq_keep_loop)

lemma tool_use_ids_Hygiene [simp]: "tool_use_ids (fst (Hygiene h)) = tool_use_ids h"
  by (metis others_Hygiene tool_use_ids_others)

text \<open>What the pass has kept it keeps.\<close>

lemma Hygiene_idempotent: "fst (Hygiene (fst (Hygiene h))) = fst (Hygiene h)"
proof -
  let ?tus = "map_of (toolUses h)" and ?kept = "fst (Hygiene h)"
  have kept: "?kept = fst (keep_loop ?tus [] h)" by (simp add: Hygiene_def fst_Hygiene_in_order)
  have "fst (keep_loop (map_of (toolUses ?kept)) [] ?kept) = ?kept"
  proof (rule keep_loop_paired)
    show "distinct (map PairRef (filter (\<lambda>e. EType e = EventToolResult) ?kept))"
      by (rule distinct_results [OF strays_Hygiene]) (simp add: results_for_Hygiene)
    fix e assume "e \<in> set ?kept" "EType e = EventToolResult"
    then obtain ref where "PairRef e = Some ref" "?tus ref \<noteq> None" unfolding kept using keep_loop_answers by blast
    then show "\<exists>ref. PairRef e = Some ref \<and> map_of (toolUses ?kept) ref \<noteq> None \<and> ref \<notin> set []"
      by (auto simp: map_of_toolUses simp del: not_None_eq)
  qed
  then show ?thesis by (simp add: Hygiene_def [of ?kept] fst_Hygiene_in_order)
qed

text \<open>The order in which the map of tool uses is walked does not show.\<close>

lemma Hygiene_order_independent:
  assumes "distinct ks" and "set ks = tool_use_ids h"
  shows "Hygiene_in_order ks h = Hygiene h"
proof (rule prod_eqI)
  show "fst (Hygiene_in_order ks h) = fst (Hygiene h)" by (simp add: Hygiene_def fst_Hygiene_in_order)
  let ?tus = "map_of (toolUses h)"
  let ?f = "\<lambda>k. \<lparr>SynPairRef = k, SynToolID = Option.bind (?tus k) ToolID, SynReason = ''interrupted_before_execution''\<rparr>"
  have by_ref: "snd (Hygiene_in_order ls h) = map ?f (map SynPairRef (snd (Hygiene_in_order ls h)))" for ls
    unfolding map_map
    by (rule map_idI [symmetric]) (auto simp: Hygiene_in_order_def Let_def synthesize_loop_def split_beta)
  have "snd (Hygiene_in_order ls h) = map ?f (sorted_list_of_set (unanswered h))"
    if "distinct ls" "set ls = tool_use_ids h" for ls
    using by_ref [of ls] unfolding report_in_order [OF that] .
  then show "snd (Hygiene_in_order ks h) = snd (Hygiene h)"
    unfolding Hygiene_def using assms walk_keys by presburger
qed

lemma count_list_distinct: "distinct xs \<Longrightarrow> count_list xs x = (if x \<in> set xs then 1 else 0)"
  by (induction xs) auto

lemma Hygiene_pairs_lengths:
  "length (results_for ref (fst (Hygiene h))) + length (filter (\<lambda>s. SynPairRef s = ref) (snd (Hygiene h)))
     = (if ref \<in> tool_use_ids h then 1 else 0)"
proof -
  have "length (filter (\<lambda>s. SynPairRef s = ref) (snd (Hygiene h))) = count_list (map SynPairRef (snd (Hygiene h))) ref"
    by (simp add: count_list_eq_length_filter filter_map o_def eq_commute)
  then have "length (filter (\<lambda>s. SynPairRef s = ref) (snd (Hygiene h))) = (if ref \<in> unanswered h then 1 else 0)"
    by (simp add: count_list_distinct Hygiene_report)
  then show ?thesis
    by (auto simp: results_for_Hygiene unanswered_def min_def neq_Nil_conv Suc_le_eq)
qed

text \<open>
  C8: the pass drops events and moves none: it keeps every event that is not a tool result, and of
  the results exactly the first answer to each tool use of the log, so neither a result that
  answers no tool use nor one that does not say what it answers; and it reports, in the order of their
  identifiers and each once, precisely the tool uses no result answers. So the kept results
  and the reported ones together answer every tool use exactly once and nothing else. A second pass
  drops nothing more.
\<close>

theorem Hygiene_pairs:
  "case Hygiene h of (kept, synthesize) \<Rightarrow>
     subseq kept h \<and> others kept = others h \<and> strays kept = [] \<and>
     (\<forall>ref. results_for ref kept = (if ref \<in> tool_use_ids h then take 1 (results_for ref h) else [])) \<and>
     map SynPairRef synthesize = sorted_list_of_set (unanswered h) \<and>
     (\<forall>ref. length (results_for ref kept) + length (filter (\<lambda>s. SynPairRef s = ref) synthesize)
              = (if ref \<in> tool_use_ids h then 1 else 0)) \<and>
     fst (Hygiene kept) = kept"
  using Hygiene_pairs_lengths [of _ h] results_for_Hygiene [of _ h] others_Hygiene [of h] strays_Hygiene [of h]
    subseq_Hygiene [of h] Hygiene_report [of h] Hygiene_idempotent [of h]
  by (simp add: split_beta)

end
