(* ===== verification/Kernel.thy ===== *)
theory Kernel
  imports Hygiene
begin

text \<open>
  The loop (\<^verbatim>\<open>kernel/loop.go\<close>, \<^verbatim>\<open>turns.go\<close>, \<^verbatim>\<open>terminal.go\<close>, \<^verbatim>\<open>metering.go\<close> and the append helpers of
  \<^verbatim>\<open>events.go\<close>) as state passing over its ports. An iterator body is a computation that may
  have returned; the calls the loop makes are recorded in \<open>Trace\<close>, in order, which is what the
  theorems about ordering speak of. Tracing spans, logging and the live preview of chunks
  (\<^verbatim>\<open>OnChunk\<close>) do not reach the state and are left out; a stream is read to its end when it is
  opened, so what \<^verbatim>\<open>Next\<close> will return is fixed then.
\<close>

section \<open>Ports and state\<close>

text \<open>
  The \<^verbatim>\<open>Kernel\<close> struct with the \<^verbatim>\<open>RunState\<close>'s \<^verbatim>\<open>Seal\<close>, over a world that holds the states behind the
  ports. \<open>kYield\<close> is the consumer of the iterator: it says whether it wants more. \<^verbatim>\<open>uuid.New\<close>
  draws from the world.
\<close>

record 'w kernel =
  kProvider :: "'w provider"
  kExecute :: "tool_use_request \<Rightarrow> exec_context \<Rightarrow> 'w \<Rightarrow> tool_result \<times> 'w"
  kExecuteApproved :: "(tool_use_request \<Rightarrow> bytes \<Rightarrow> exec_context \<Rightarrow> 'w \<Rightarrow> tool_result \<times> 'w) option"
  kResetTurn :: "('w \<Rightarrow> 'w) option"
  kReserve :: "reserve_request \<Rightarrow> 'w \<Rightarrow> (reservation \<times> err option) \<times> 'w"
  kReconcile :: "reservation \<Rightarrow> usage \<Rightarrow> bool \<Rightarrow> 'w \<Rightarrow> err option \<times> 'w"
  kAppend :: "event \<Rightarrow> 'w \<Rightarrow> (err + event) \<times> 'w"
  kSetStatus :: "uuid \<Rightarrow> uuid \<Rightarrow> session_status \<Rightarrow> string option \<Rightarrow> 'w \<Rightarrow> err option \<times> 'w"
  kRecordSuspension :: "suspend_request \<Rightarrow> 'w \<Rightarrow> err option \<times> 'w"
  kRecordDelegation :: "delegate_suspend_request \<Rightarrow> 'w \<Rightarrow> err option \<times> 'w"
  kSeal :: "bytes \<Rightarrow> 'w \<Rightarrow> (err + bytes \<times> bytes \<times> string) \<times> 'w"
  kNewUUID :: "'w \<Rightarrow> uuid \<times> 'w"
  kYield :: "event option \<Rightarrow> err option \<Rightarrow> 'w \<Rightarrow> bool \<times> 'w"
  kCodec :: codec
  kSha :: "bytes \<Rightarrow> bytes"
  kHex8 :: "bytes \<Rightarrow> string"
  PrunePolicy :: prune_policy
  CondenseThresholdBytes :: int

text \<open>
  The calls the loop makes, with what came back; a model call also with the run's history at
  that moment. An unsuccessful append leaves nothing and is not recorded.
\<close>

datatype call =
    CAppend event
  | CYield "event option" "err option"
  | CStatus session_status "string option"
  | CReserve reserve_request reservation "err option"
  | CStream prompt "event list"
  | CReconcile reservation usage bool
  | CExecute tool_use_request tool_result
  | CSuspend suspend_request
  | CDelegate delegate_suspend_request

record 'w kst =
  World :: 'w
  StTenant :: uuid
  StSession :: uuid
  History :: "event list"
  Transcript :: "msg list"
  ToolUseIDs :: "uuid \<rightharpoonup> string"
  terminalReason :: string
  StuckReg :: "stuck_registry option"
  Trace :: "call list"

definition note_call :: "call \<Rightarrow> 'w kst \<Rightarrow> 'w kst" where
  "note_call c st = st\<lparr>Trace := Trace st @ [c]\<rparr>"

definition yield :: "'w kernel \<Rightarrow> event option \<Rightarrow> err option \<Rightarrow> 'w kst \<Rightarrow> bool \<times> 'w kst" where
  "yield k ev er st =
     (case kYield k ev er (World st) of (go, w) \<Rightarrow> (go, note_call (CYield ev er) (st\<lparr>World := w\<rparr>)))"

text \<open>\<^verbatim>\<open>if !yield(ev, nil) { return }\<close>, and \<^verbatim>\<open>yield(ev, err); return\<close>.\<close>

definition emit :: "'w kernel \<Rightarrow> event \<Rightarrow> ('w kst, unit) act" where
  "emit k ev st = (case yield k (Some ev) None st of (go, st') \<Rightarrow> (if go then Some () else None, st'))"

definition give_up :: "'w kernel \<Rightarrow> event option \<Rightarrow> err \<Rightarrow> ('w kst, 'a) act" where
  "give_up k ev er st = (None, snd (yield k ev (Some er) st))"

text \<open>A procedure call followed by \<^verbatim>\<open>return\<close>.\<close>

definition finish :: "('w kst \<Rightarrow> 'w kst) \<Rightarrow> ('w kst, 'a) act" where
  "finish p st = (None, p st)"

text \<open>A plain update of the run state.\<close>

definition modify :: "('w kst \<Rightarrow> 'w kst) \<Rightarrow> ('w kst, unit) act" where
  "modify f st = (Some (), f st)"

section \<open>Appending\<close>

definition new_event ::
    "'w kst \<Rightarrow> uuid \<Rightarrow> event_type \<Rightarrow> actor \<Rightarrow> string option \<Rightarrow> uuid option \<Rightarrow> string option
      \<Rightarrow> bytes \<times> bytes \<times> string \<Rightarrow> event" where
  "new_event st eid typ act toolID pairRef modelID sealed =
     (case sealed of (payload, dig, keyID) \<Rightarrow>
        \<lparr>EventID = eid, SessionID = StSession st, TenantID = StTenant st, Seq = 0,
         SchemaVersion = CurrentSchemaVersion, EType = typ, Payload = payload, PayloadDigest = dig,
         KeyID = keyID, EActor = act, ToolID = toolID, PairRef = pairRef, ModelID = modelID,
         TraceID = '''', SpanID = '''', CreatedAt = 0\<rparr>)"

definition appendEvent ::
    "'w kernel \<Rightarrow> event_type \<Rightarrow> actor \<Rightarrow> string option \<Rightarrow> uuid option \<Rightarrow> string option \<Rightarrow> payload
      \<Rightarrow> 'w kst \<Rightarrow> (err + event) \<times> 'w kst" where
  "appendEvent k typ act toolID pairRef modelID p st =
     (case json_Marshal (kCodec k) p of
        Inl er \<Rightarrow> (Inl (Wrapped (''marshal '' @ event_type_str typ @ '' payload'') er), st)
      | Inr plaintext \<Rightarrow>
          (case kSeal k plaintext (World st) of
             (Inl er, w) \<Rightarrow> (Inl (Wrapped (''seal '' @ event_type_str typ @ '' payload'') er), st\<lparr>World := w\<rparr>)
           | (Inr sealed, w) \<Rightarrow>
               (case kNewUUID k w of
                  (eid, w') \<Rightarrow>
                    (case kAppend k (new_event st eid typ act toolID pairRef modelID sealed) w' of
                       (Inl er, w'') \<Rightarrow> (Inl (Wrapped (''append '' @ event_type_str typ) er), st\<lparr>World := w''\<rparr>)
                     | (Inr out, w'') \<Rightarrow>
                         (Inr out, note_call (CAppend out) (st\<lparr>World := w'', History := History st @ [out]\<rparr>))))))"

text \<open>
  The pattern around every append: \<^verbatim>\<open>if err != nil { yield(eventlog.Event{}, err); return }\<close>.
\<close>

definition or_fail :: "'w kernel \<Rightarrow> ('w kst \<Rightarrow> (err + event) \<times> 'w kst) \<Rightarrow> ('w kst, event) act" where
  "or_fail k m st = (case m st of (Inl er, st') \<Rightarrow> give_up k None er st' | (Inr ev, st') \<Rightarrow> (Some ev, st'))"

definition appendContent :: "'w kernel \<Rightarrow> string \<Rightarrow> string \<Rightarrow> 'w kst \<Rightarrow> (err + event) \<times> 'w kst" where
  "appendContent k modelID text = appendEvent k EventContent ActorModel None None (Some modelID) (PContent text)"

definition appendThought :: "'w kernel \<Rightarrow> string \<Rightarrow> bytes \<Rightarrow> 'w kst \<Rightarrow> (err + event) \<times> 'w kst" where
  "appendThought k modelID opaque = appendEvent k EventThought ActorModel None None (Some modelID) (PThought opaque)"

definition appendToolUseEvent :: "'w kernel \<Rightarrow> string \<Rightarrow> tool_use_request \<Rightarrow> 'w kst \<Rightarrow> (err + event) \<times> 'w kst" where
  "appendToolUseEvent k modelID tu =
     appendEvent k EventToolUse ActorModel (Some (TuName tu)) None (Some modelID)
       (PToolUse (TuName tu) (TuInput tu) (TuID tu))"

definition appendToolResult ::
    "'w kernel \<Rightarrow> uuid \<Rightarrow> string option \<Rightarrow> tool_result \<Rightarrow> 'w kst \<Rightarrow> (err + event) \<times> 'w kst" where
  "appendToolResult k pairRef toolID result =
     appendEvent k EventToolResult
       (if Synthetic result \<or> PermissionDenied result \<or> AwaitingApproval result then ActorSystem else ActorTool)
       toolID (Some pairRef) None (PToolResult result)"

definition appendApprovalRequested ::
    "'w kernel \<Rightarrow> string option \<Rightarrow> string \<Rightarrow> string \<Rightarrow> 'w kst \<Rightarrow> (err + event) \<times> 'w kst" where
  "appendApprovalRequested k toolID reason askKind =
     appendEvent k EventApprovalRequested ActorSystem toolID None None
       (PApprovalRequested (case toolID of None \<Rightarrow> '''' | Some t \<Rightarrow> t) reason askKind)"

fun decision_str :: "decision_kind \<Rightarrow> string" where
  "decision_str DecisionAllow = ''allow''"
| "decision_str DecisionRefuseCeiling = ''refuse_ceiling''"
| "decision_str DecisionDegrade = ''degrade''"
| "decision_str DecisionSkip = ''skip''"

definition appendBudgetDecision :: "'w kernel \<Rightarrow> reservation \<Rightarrow> 'w kst \<Rightarrow> (err + event) \<times> 'w kst" where
  "appendBudgetDecision k res =
     (let d = ResDecision res in
      appendEvent k EventBudgetDecision ActorSystem None None None
        (PBudgetDecision (decision_str (Kind d)) (DecReason d)
           (case DecBudgetID d of None \<Rightarrow> '''' | Some b \<Rightarrow> uuid_String (kCodec k) b)
           (money_String (Reserved d))))"

definition appendTerminal :: "'w kernel \<Rightarrow> string \<times> string \<Rightarrow> 'w kst \<Rightarrow> (err + event) \<times> 'w kst" where
  "appendTerminal k p = appendEvent k EventTerminal ActorSystem None None None (PTerminal (fst p) (snd p))"

definition updateStatus :: "'w kernel \<Rightarrow> session_status \<Rightarrow> string option \<Rightarrow> 'w kst \<Rightarrow> err option \<times> 'w kst" where
  "updateStatus k status reason st =
     (case kSetStatus k (StTenant st) (StSession st) status reason (World st) of
        (Some er, w) \<Rightarrow> (Some er, st\<lparr>World := w\<rparr>)
      | (None, w) \<Rightarrow> (None, note_call (CStatus status reason) (st\<lparr>World := w\<rparr>)))"

section \<open>Ending and suspending\<close>

text \<open>An event was appended but the write that goes with it failed.\<close>

definition half_done :: "'w kernel \<Rightarrow> string \<Rightarrow> event \<Rightarrow> string \<Rightarrow> err \<Rightarrow> err" where
  "half_done k what ev failed er =
     Wrapped (what @ '' event '' @ uuid_String (kCodec k) (EventID ev) @ '' appended but '' @ failed) er"

definition forget_stuck :: "'w kst \<Rightarrow> 'w kst" where
  "forget_stuck st =
     (case StuckReg st of
        None \<Rightarrow> st
      | Some r \<Rightarrow> st\<lparr>StuckReg := Some (Registry_Forget r (StSession st))\<rparr>)"

definition terminal_status :: "terminal \<Rightarrow> session_status" where
  "terminal_status t = (if TReason t \<noteq> ReasonCompleted then SessionStatusFailed else SessionStatusCompleted)"

definition terminate :: "'w kernel \<Rightarrow> terminal \<Rightarrow> 'w kst \<Rightarrow> 'w kst" where
  "terminate k t st0 =
     (let st = st0\<lparr>terminalReason := reason_str (TReason t)\<rparr> in
      case buildTerminalPayload t of
        Inl er \<Rightarrow> snd (yield k None (Some er) st)
      | Inr p \<Rightarrow>
          (case appendTerminal k p st of
             (Inl er, st1) \<Rightarrow> snd (yield k None (Some er) st1)
           | (Inr ev, st1) \<Rightarrow>
               (case updateStatus k (terminal_status t) (Some (reason_str (TReason t))) st1 of
                  (Some er, st2) \<Rightarrow>
                    snd (yield k (Some ev)
                           (Some (half_done k ''terminal'' ev ''session status update failed'' er)) st2)
                | (None, st2) \<Rightarrow> snd (yield k (Some ev) None (forget_stuck st2)))))"

definition suspendForApproval ::
    "'w kernel \<Rightarrow> uuid \<Rightarrow> string option \<Rightarrow> bytes \<Rightarrow> tool_result \<Rightarrow> 'w kst \<Rightarrow> 'w kst" where
  "suspendForApproval k toolUseEventID toolID inp result st =
     (case appendApprovalRequested k toolID (TrReason result) (AskKind result) st of
        (Inl er, st1) \<Rightarrow> snd (yield k None (Some er) st1)
      | (Inr ev, st1) \<Rightarrow>
          (case updateStatus k SessionStatusSuspended None st1 of
             (Some er, st2) \<Rightarrow>
               snd (yield k (Some ev)
                      (Some (half_done k ''approval_requested'' ev ''session status update failed'' er)) st2)
           | (None, st2) \<Rightarrow>
               (let req = \<lparr>SuTenant = StTenant st2, SuSession = StSession st2, SuToolUseEventID = toolUseEventID,
                           ApprovalEventID = EventID ev, SuToolID = (case toolID of None \<Rightarrow> '''' | Some t \<Rightarrow> t),
                           SuInput = inp, SuCanonicalDigest = CanonicalDigest result,
                           SuAskKind = AskKind result, SuEffectClass = EffectClass result\<rparr> in
                case kRecordSuspension k req (World st2) of
                  (Some er, w) \<Rightarrow>
                    snd (yield k (Some ev)
                           (Some (half_done k ''approval_requested'' ev ''recording the suspension failed'' er))
                           (st2\<lparr>World := w\<rparr>))
                | (None, w) \<Rightarrow> snd (yield k (Some ev) None (note_call (CSuspend req) (st2\<lparr>World := w\<rparr>))))))"

definition suspendForDelegation :: "'w kernel \<Rightarrow> uuid \<Rightarrow> string option \<Rightarrow> uuid \<Rightarrow> 'w kst \<Rightarrow> 'w kst" where
  "suspendForDelegation k toolUseEventID toolID childSessionID st =
     (let tid = (case toolID of None \<Rightarrow> '''' | Some t \<Rightarrow> t) in
      case appendEvent k EventDelegationRequested ActorSystem toolID None None
             (PDelegationRequested tid childSessionID) st of
        (Inl er, st1) \<Rightarrow> snd (yield k None (Some er) st1)
      | (Inr ev, st1) \<Rightarrow>
          (case updateStatus k SessionStatusSuspended None st1 of
             (Some er, st2) \<Rightarrow>
               snd (yield k (Some ev)
                      (Some (half_done k ''delegation_requested'' ev ''session status update failed'' er)) st2)
           | (None, st2) \<Rightarrow>
               (let req = \<lparr>DsTenant = StTenant st2, DsSession = StSession st2, DsToolUseEventID = toolUseEventID,
                           DelegationEventID = EventID ev, DsToolID = tid, DsChildSessionID = childSessionID\<rparr> in
                case kRecordDelegation k req (World st2) of
                  (Some er, w) \<Rightarrow>
                    snd (yield k (Some ev)
                           (Some (half_done k ''delegation_requested'' ev ''recording the delegation failed'' er))
                           (st2\<lparr>World := w\<rparr>))
                | (None, w) \<Rightarrow> snd (yield k (Some ev) None (note_call (CDelegate req) (st2\<lparr>World := w\<rparr>))))))"

definition suspendForUserInput :: "'w kernel \<Rightarrow> 'w kst \<Rightarrow> 'w kst" where
  "suspendForUserInput k st =
     (case appendEvent k EventAwaitingInput ActorSystem None None None PAwaitingInput st of
        (Inl er, st1) \<Rightarrow> snd (yield k None (Some er) st1)
      | (Inr ev, st1) \<Rightarrow>
          (case updateStatus k SessionStatusAwaitingInput None st1 of
             (Some er, st2) \<Rightarrow>
               snd (yield k (Some ev)
                      (Some (half_done k ''awaiting_input'' ev ''session status update failed'' er)) st2)
           | (None, st2) \<Rightarrow> snd (yield k (Some ev) None st2)))"

definition terminateFromStreamError :: "'w kernel \<Rightarrow> err \<Rightarrow> 'w kst \<Rightarrow> 'w kst" where
  "terminateFromStreamError k er =
     (case ClassifyTrigger er of
        TriggerContextOverflow \<Rightarrow> terminate k (TerminalContextOverflow (err_msg er))
      | TriggerRetryable \<Rightarrow> terminate k (TerminalError er)
      | TriggerPermanent \<Rightarrow> terminate k (TerminalError er))"

section \<open>Metering\<close>

definition reconcile :: "'w kernel \<Rightarrow> reservation \<Rightarrow> usage \<Rightarrow> bool \<Rightarrow> 'w kst \<Rightarrow> 'w kst" where
  "reconcile k res u reported st =
     note_call (CReconcile res u reported) (st\<lparr>World := snd (kReconcile k res u reported (World st))\<rparr>)"

definition reserve :: "'w kernel \<Rightarrow> reserve_request \<Rightarrow> 'w kst \<Rightarrow> (reservation \<times> err option) \<times> 'w kst" where
  "reserve k req st =
     (case kReserve k req (World st) of
        ((res, er), w) \<Rightarrow> ((res, er), note_call (CReserve req res er) (st\<lparr>World := w\<rparr>)))"

definition open_stream ::
    "'w kernel \<Rightarrow> prompt \<Rightarrow> tool_schema list \<Rightarrow> 'w kst \<Rightarrow> (err + stream) \<times> 'w kst" where
  "open_stream k p catalog st =
     (case kProvider k (World st) p catalog \<lparr>RcTenant = StTenant st, RcSession = StSession st\<rparr> of
        (r, w) \<Rightarrow> (r, note_call (CStream p (History st)) (st\<lparr>World := w\<rparr>)))"

text \<open>What one model turn's stream adds up to, and the loop over \<^verbatim>\<open>stream.Next\<close>.\<close>

record turn_output =
  contentText :: string
  reasoningChunks :: "bytes list"
  toolUseReqs :: "tool_use_request list"
  t_usage :: usage
  usageReported :: bool
  doneReason :: "done_reason option"
  refusalCategory :: string

definition no_output :: turn_output where
  "no_output = \<lparr>contentText = '''', reasoningChunks = [], toolUseReqs = [], t_usage = no_usage,
     usageReported = False, doneReason = None, refusalCategory = ''''\<rparr>"

fun absorb :: "chunk \<Rightarrow> turn_output \<Rightarrow> turn_output" where
  "absorb (ChunkContent text) out = out\<lparr>contentText := contentText out @ text\<rparr>"
| "absorb (ChunkReasoning opaque) out = out\<lparr>reasoningChunks := reasoningChunks out @ [opaque]\<rparr>"
| "absorb (ChunkToolUse tid name inp) out =
     out\<lparr>toolUseReqs := toolUseReqs out @ [\<lparr>TuID = tid, TuName = name, TuInput = inp\<rparr>]\<rparr>"
| "absorb (ChunkUsage u) out = out\<lparr>t_usage := u, usageReported := True\<rparr>"
| "absorb (ChunkDone d category) out = out\<lparr>doneReason := Some d, refusalCategory := category\<rparr>"

function drain :: "stream \<Rightarrow> turn_output \<Rightarrow> turn_output \<times> err option" where
  "drain s out =
     (case stream_Next s of
        (Inl er, _) \<Rightarrow> (out, Some er)
      | (Inr None, _) \<Rightarrow> (out, None)
      | (Inr (Some c), s') \<Rightarrow> drain s' (absorb c out))"
  by pat_completeness auto
termination
  by (relation "measure (\<lambda>(s, out). length (fst s))")
     (auto elim!: stream_Next.elims [OF sym])

declare drain.simps [simp del]

text \<open>
  The condenser's loop looks at content and usage only, which is the same sum restricted to
  those fields. Its summary, whether it had to degrade, and the reservation; the error
  result of the source is always nil.
\<close>

definition condense ::
    "'w kernel \<Rightarrow> run_config \<Rightarrow> msg list \<Rightarrow> 'w kst \<Rightarrow> (string \<times> bool \<times> reservation) \<times> 'w kst" where
  "condense k rc covered st =
     (case reserve k \<lparr>ReqTenant = StTenant st, ReqSession = StSession st, ReqModel = CondenserModelID rc,
                      ReqPurpose = PurposeCompaction\<rparr> st of
        ((res, Some er), st1) \<Rightarrow> (('''', True, res), st1)
      | ((res, None), st1) \<Rightarrow>
          (case open_stream k (CondensePrompt covered) [] st1 of
             (Inl er, st2) \<Rightarrow> (('''', True, res), reconcile k res no_usage False st2)
           | (Inr s, st2) \<Rightarrow>
               (case drain s no_output of
                  (out, streamErr) \<Rightarrow>
                    (let st3 = reconcile k res (t_usage out) (usageReported out \<and> streamErr = None) st2 in
                     if streamErr \<noteq> None \<or> length (contentText out) = 0 then (('''', True, res), st3)
                     else ((contentText out, False, res), st3)))))"

section \<open>One turn\<close>

text \<open>The steps of the loop's body in their order. An event is appended, then handed out.\<close>

definition record_event ::
    "'w kernel \<Rightarrow> ('w kst \<Rightarrow> (err + event) \<times> 'w kst) \<Rightarrow> ('w kst, event) act" where
  "record_event k m = andthen (or_fail k m) (\<lambda>ev. andthen (emit k ev) (\<lambda>_. ret ev))"

definition reset_turn :: "'w kernel \<Rightarrow> ('w kst, unit) act" where
  "reset_turn k = modify (\<lambda>st. case kResetTurn k of None \<Rightarrow> st | Some f \<Rightarrow> st\<lparr>World := f (World st)\<rparr>)"

definition tool_use_id :: "'w kst \<Rightarrow> uuid \<Rightarrow> string" where
  "tool_use_id st ref = (case ToolUseIDs st ref of None \<Rightarrow> '''' | Some t \<Rightarrow> t)"

definition say :: "string \<Rightarrow> content_block list \<Rightarrow> ('w kst, unit) act" where
  "say role blocks =
     modify (\<lambda>st. if blocks \<noteq> [] then st\<lparr>Transcript := Transcript st @ [\<lparr>Role = role, Blocks = blocks\<rparr>]\<rparr> else st)"

definition backfill :: "'w kernel \<Rightarrow> synthetic_result \<Rightarrow> ('w kst, content_block) act" where
  "backfill k s st =
     andthen (record_event k (appendToolResult k (SynPairRef s) (SynToolID s)
                (no_result\<lparr>IsError := True, Synthetic := True, TrReason := SynReason s\<rparr>)))
       (\<lambda>_. ret (BlockToolResult (tool_use_id st (SynPairRef s)) (''[synthetic error] '' @ SynReason s) True)) st"

definition hygiene_step :: "'w kernel \<Rightarrow> ('w kst, unit) act" where
  "hygiene_step k st =
     (case Hygiene (History st) of
        (kept, synth) \<Rightarrow>
          andthen (collect (backfill k) synth) (say ''tool'') (st\<lparr>History := kept\<rparr>))"

definition reserve_step :: "'w kernel \<Rightarrow> run_config \<Rightarrow> ('w kst, reservation) act" where
  "reserve_step k rc st =
     (case reserve k \<lparr>ReqTenant = StTenant st, ReqSession = StSession st, ReqModel = RunModelID rc,
                      ReqPurpose = PurposeTurn\<rparr> st of
        ((res, er), st1) \<Rightarrow>
          andthen (record_event k (appendBudgetDecision k res))
            (\<lambda>_. if er \<noteq> None then finish (terminate k (TerminalCostExhausted (DecReason (ResDecision res))))
                 else ret res) st1)"

definition prune_step :: "'w kernel \<Rightarrow> ('w kst, msg list) act" where
  "prune_step k st =
     (case Prune (kHex8 k) (Transcript st) (PrunePolicy k) of
        (view, prunedCount) \<Rightarrow>
          andthen (if prunedCount > 0
                   then andthen (record_event k (appendEvent k EventContextPruned ActorSystem None None None
                                   (PContextPruned prunedCount))) (\<lambda>_. ret ())
                   else ret ())
            (\<lambda>_. ret view) st)"

text \<open>\<open>last_seq\<close> is the last sequence number of the history, zero when it is empty.\<close>

definition last_seq :: "event list \<Rightarrow> int" where
  "last_seq h = (if length h > 0 then Seq (h ! (length h - 1)) else 0)"

definition condense_step :: "'w kernel \<Rightarrow> run_config \<Rightarrow> msg list \<Rightarrow> ('w kst, msg list) act" where
  "condense_step k rc view st =
     (case ShouldCondense view (CondenseThresholdBytes k) of
        (False, _) \<Rightarrow> ret view st
      | (True, covered) \<Rightarrow>
          (case condense k rc (take covered view) st of
             ((summary0, degraded, res), st1) \<Rightarrow>
               andthen (record_event k (appendBudgetDecision k res)) (\<lambda>_ st2.
                 let summary = (if degraded then ExtractivePass (take covered view) else summary0);
                     (cid, w) = kNewUUID k (World st2);
                     cond = Condense cid (last_seq (History st2)) summary in
                 andthen (record_event k (appendEvent k EventCondensation ActorSystem None None None
                            (PCondensation (uuid_String (kCodec k) (CondensationID cond)) (CoveredThroughSeq cond)
                               (Summary cond) degraded)))
                   (\<lambda>_ st3.
                     let newTranscript = TextMessage ''assistant'' (''[condensed summary] '' @ summary)
                                           # drop covered (Transcript st3) in
                     (Some newTranscript, st3\<lparr>Transcript := newTranscript\<rparr>))
                   (st2\<lparr>World := w\<rparr>)) st1))"

definition model_step ::
    "'w kernel \<Rightarrow> run_config \<Rightarrow> reservation \<Rightarrow> msg list \<Rightarrow> ('w kst, turn_output) act" where
  "model_step k rc res view st =
     (case open_stream k (fst (Build (RunSystem rc) (Catalog rc) view)) (Catalog rc) st of
        (Inl er, st1) \<Rightarrow> (None, terminateFromStreamError k er (reconcile k res no_usage False st1))
      | (Inr s, st1) \<Rightarrow>
          (case drain s no_output of
             (out, streamErr) \<Rightarrow>
               (let st2 = reconcile k res (t_usage out) (usageReported out \<and> streamErr = None) st1 in
                case streamErr of
                  Some er \<Rightarrow> (None, terminateFromStreamError k er st2)
                | None \<Rightarrow> (Some out, st2))))"

text \<open>
  The thinking block a reasoning chunk's bytes decode to, if any: \<^verbatim>\<open>reasoningOpaque\<close> with both
  fields empty, or bytes that are not such an object, give none.
\<close>

definition reasoning_block :: "codec \<Rightarrow> bytes \<Rightarrow> content_block list" where
  "reasoning_block C opaque =
     (case parse C opaque of
        Inl _ \<Rightarrow> []
      | Inr j \<Rightarrow>
          (case (decode_string ''thinking'' j, decode_string ''signature'' j) of
             (Inr th, Inr sig) \<Rightarrow> if th \<noteq> '''' \<or> sig \<noteq> '''' then [BlockThinking th sig] else []
           | _ \<Rightarrow> []))"

definition thought_step :: "'w kernel \<Rightarrow> run_config \<Rightarrow> bytes \<Rightarrow> ('w kst, content_block list) act" where
  "thought_step k rc opaque =
     andthen (record_event k (appendThought k (RunModelID rc) opaque))
       (\<lambda>_. ret (reasoning_block (kCodec k) opaque))"

definition done_check :: "'w kernel \<Rightarrow> turn_output \<Rightarrow> ('w kst, unit) act" where
  "done_check k out =
     (if doneReason out = Some DoneMaxOutput
      then finish (terminate k (TerminalError (Err ''provider truncated output at max_output without a natural stop'')))
      else if doneReason out = Some DoneRefusal
      then finish (terminate k (TerminalRefused (refusalCategory out)))
      else ret ())"

definition content_step :: "'w kernel \<Rightarrow> run_config \<Rightarrow> string \<Rightarrow> ('w kst, content_block list) act" where
  "content_step k rc text =
     (if length text > 0
      then andthen (record_event k (appendContent k (RunModelID rc) text)) (\<lambda>_. ret [BlockText text])
      else ret [])"

definition tool_use_step :: "'w kernel \<Rightarrow> run_config \<Rightarrow> tool_use_request \<Rightarrow> ('w kst, event) act" where
  "tool_use_step k rc tu = record_event k (appendToolUseEvent k (RunModelID rc) tu)"

fun stuck_str :: "stuck_reason \<Rightarrow> string" where
  "stuck_str ReasonRepeatedAction = ''repeated_action''"
| "stuck_str ReasonOscillation = ''oscillation''"
| "stuck_str ReasonZeroNetChange = ''zero_net_change''"

definition stuck_step :: "'w kernel \<Rightarrow> tool_use_request \<Rightarrow> ('w kst, unit) act" where
  "stuck_step k tu st =
     (case StuckReg st of
        None \<Rightarrow> ret () st
      | Some reg \<Rightarrow>
          (case Registry_Record (kSha k) reg (StSession st) (TuName tu) (TuInput tu) of
             (v, reg') \<Rightarrow>
               (let reason = (case VReason (TVerdict v) of None \<Rightarrow> '''' | Some r \<Rightarrow> stuck_str r) in
                (if Suspected (TVerdict v)
                 then andthen (record_event k (appendEvent k EventStuckSuspected ActorSystem None None None
                                 (PStuckSuspected reason)))
                        (\<lambda>_. if Terminate v then finish (terminate k (TerminalStuckTerminated reason)) else ret ())
                 else ret ())
                (st\<lparr>StuckReg := Some reg'\<rparr>))))"

definition execute :: "'w kernel \<Rightarrow> run_config \<Rightarrow> tool_use_request \<Rightarrow> ('w kst, tool_result) act" where
  "execute k rc tu st =
     (case kExecute k tu \<lparr>EcTenant = StTenant st, EcSession = StSession st, EcAutonomyLevel = RunAutonomyLevel rc\<rparr>
             (World st) of
        (result, w) \<Rightarrow> (Some result, note_call (CExecute tu result) (st\<lparr>World := w\<rparr>)))"

definition taint_step :: "'w kernel \<Rightarrow> tool_result \<Rightarrow> ('w kst, unit) act" where
  "taint_step k result =
     (if TaintChanged result
      then andthen (record_event k (appendEvent k EventTaintTransition ActorSystem None None None
                      (PTaintTransition (TaintEngaged result)))) (\<lambda>_. ret ())
      else ret ())"

definition dispatch_one :: "'w kernel \<Rightarrow> run_config \<Rightarrow> tool_use_request \<times> event \<Rightarrow> ('w kst, content_block) act" where
  "dispatch_one k rc p =
     (case p of (tu, ev) \<Rightarrow>
        andthen (execute k rc tu) (\<lambda>result.
        andthen (record_event k (appendToolResult k (EventID ev) (ToolID ev) result)) (\<lambda>_.
        andthen (taint_step k result) (\<lambda>_.
        if PermissionDenied result then
          finish (terminate k (TerminalPermissionDenied (case ToolID ev of None \<Rightarrow> ''unknown'' | Some t \<Rightarrow> t)))
        else if AwaitingApproval result then
          finish (suspendForApproval k (EventID ev) (ToolID ev) (TuInput tu) result)
        else if AwaitingDelegation result then
          finish (suspendForDelegation k (EventID ev) (ToolID ev) (ChildSessionID result))
        else
          andthen (stuck_step k tu)
            (\<lambda>_. ret (BlockToolResult (TuID tu) (resultText result) (IsError result)))))))"

definition dispatch_step :: "'w kernel \<Rightarrow> run_config \<Rightarrow> turn_output \<Rightarrow> event list \<Rightarrow> ('w kst, unit) act" where
  "dispatch_step k rc out evs =
     (case Classify_turn (toolUseReqs out) (contentText out) of
        ClassificationToolCalls \<Rightarrow>
          andthen (collect (dispatch_one k rc) (zip (toolUseReqs out) evs)) (say ''tool'')
      | _ \<Rightarrow>
          (if Conversational rc then finish (suspendForUserInput k)
           else finish (terminate k TerminalCompleted)))"

definition turn :: "'w kernel \<Rightarrow> run_config \<Rightarrow> ('w kst, unit) act" where
  "turn k rc =
     andthen (reset_turn k) (\<lambda>_.
     andthen (hygiene_step k) (\<lambda>_.
     andthen (reserve_step k rc) (\<lambda>res.
     andthen (prune_step k) (\<lambda>view.
     andthen (condense_step k rc view) (\<lambda>view'.
     andthen (model_step k rc res view') (\<lambda>out.
     andthen (collect (thought_step k rc) (reasoningChunks out)) (\<lambda>thoughts.
     andthen (done_check k out) (\<lambda>_.
     andthen (content_step k rc (contentText out)) (\<lambda>content.
     andthen (collect (tool_use_step k rc) (toolUseReqs out)) (\<lambda>evs.
     andthen (say ''assistant'' (concat thoughts @ content
                @ map (\<lambda>tu. BlockToolUse (TuID tu) (TuName tu) (TuInput tu)) (toolUseReqs out))) (\<lambda>_.
     dispatch_step k rc out evs)))))))))))"

section \<open>The loop\<close>

definition defaultMaxTurns :: int where
  "defaultMaxTurns = 25"

definition max_turns :: "run_config \<Rightarrow> int" where
  "max_turns rc = (if MaxTurns rc \<le> 0 then defaultMaxTurns else MaxTurns rc)"

function turns_from :: "'w kernel \<Rightarrow> run_config \<Rightarrow> int \<Rightarrow> 'w kst \<Rightarrow> 'w kst" where
  "turns_from k rc n st =
     (if n > max_turns rc then terminate k (TerminalMaxTurnsExceeded (max_turns rc)) st
      else (case turn k rc st of
              (None, st') \<Rightarrow> st'
            | (Some _, st') \<Rightarrow> turns_from k rc (n + 1) st'))"
  by pat_completeness auto
termination
  by (relation "measure (\<lambda>(k, rc, n, st). nat (max_turns rc + 1 - n))") auto

declare turns_from.simps [simp del]

definition runTurns :: "'w kernel \<Rightarrow> run_config \<Rightarrow> int \<Rightarrow> 'w kst \<Rightarrow> 'w kst" where
  "runTurns k rc startTurn st = turns_from k rc startTurn st"

section \<open>Entry points\<close>

text \<open>\<^verbatim>\<open>if err := k.updateStatus(running); err != nil { yield(Event{}, err); return }\<close>\<close>

definition mark_running :: "'w kernel \<Rightarrow> ('w kst, unit) act" where
  "mark_running k st =
     (case updateStatus k SessionStatusRunning None st of
        (Some er, st1) \<Rightarrow> give_up k None er st1
      | (None, st1) \<Rightarrow> ret () st1)"

text \<open>The human's message: the transcript has it before it is handed out.\<close>

definition user_message :: "'w kernel \<Rightarrow> string \<Rightarrow> ('w kst, unit) act" where
  "user_message k inp =
     andthen (or_fail k (appendEvent k EventUserMessage ActorUser None None None (PUserMessage inp))) (\<lambda>ev.
     andthen (modify (\<lambda>st. st\<lparr>Transcript := Transcript st @ [TextMessage ''user'' inp]\<rparr>)) (\<lambda>_.
     emit k ev))"

definition seed :: "'w kernel \<Rightarrow> run_config \<Rightarrow> ('w kst, unit) act" where
  "seed k rc =
     andthen (mark_running k) (\<lambda>_.
     andthen (for_each (\<lambda>toolID.
        andthen (record_event k (appendEvent k EventToolLoaded ActorSystem (Some toolID) None None (PToolLoaded toolID)))
          (\<lambda>_. ret ())) (LoadedTools rc)) (\<lambda>_.
     andthen (if length (MemorySources rc) > 0
              then andthen (record_event k (appendEvent k EventMemoryLoaded ActorSystem None None None
                              (PMemoryLoaded (MemorySources rc)))) (\<lambda>_. ret ())
              else ret ()) (\<lambda>_.
     if Input rc \<noteq> '''' then user_message k (Input rc) else ret ())))"

text \<open>A computation followed by the turn loop, unless it has returned.\<close>

definition then_turns :: "'w kernel \<Rightarrow> run_config \<Rightarrow> ('w kst, unit) act \<Rightarrow> 'w kst \<Rightarrow> 'w kst" where
  "then_turns k rc m st = (case m st of (None, st') \<Rightarrow> st' | (Some _, st') \<Rightarrow> runTurns k rc 1 st')"

definition Run :: "'w kernel \<Rightarrow> run_config \<Rightarrow> 'w kst \<Rightarrow> 'w kst" where
  "Run k rc = then_turns k rc (seed k rc)"

definition Seed :: "'w kernel \<Rightarrow> run_config \<Rightarrow> 'w kst \<Rightarrow> 'w kst" where
  "Seed k rc st = snd (seed k rc st)"

text \<open>
  The result a decision gives. Granted decisions run the approved call again; a word the
  switch does not know leaves the zero result.
\<close>

definition resolved_result ::
    "'w kernel \<Rightarrow> run_config \<Rightarrow> pending_resolution \<Rightarrow> ('w kst, tool_result) act" where
  "resolved_result k rc res st =
     (let inp = (if PrDecision res = ApprovalDecisionGrantedModified then ModifiedInput res else PrInput res) in
      case PrDecision res of
        ApprovalDecisionDenied \<Rightarrow>
          (Some (no_result\<lparr>IsError := True, Synthetic := True, PermissionDenied := True,
                   TrReason := ''approval_denied: '' @ PrReason res\<rparr>), st)
      | ApprovalDecisionInvalidated \<Rightarrow>
          (Some (no_result\<lparr>IsError := True, Synthetic := True, PermissionDenied := True,
                   TrReason := ''approval_invalidated: '' @ PrReason res\<rparr>), st)
      | ApprovalDecisionOther _ \<Rightarrow> (Some no_result, st)
      | _ \<Rightarrow>
          (case kExecuteApproved k of
             None \<Rightarrow> give_up k None
               (Err ''kernel: Resume called but the configured ToolExecutor does not implement ApprovedExecutor'') st
           | Some f \<Rightarrow>
               (let tu = \<lparr>TuID = '''', TuName = PrToolID res, TuInput = inp\<rparr> in
                case f tu (ApprovedDigest res)
                       \<lparr>EcTenant = StTenant st, EcSession = StSession st, EcAutonomyLevel = RunAutonomyLevel rc\<rparr>
                       (World st) of
                  (result, w) \<Rightarrow> (Some result, note_call (CExecute tu result) (st\<lparr>World := w\<rparr>)))))"

text \<open>The paired result of the pending tool use: logged, added to the transcript, handed out.\<close>

definition deliver_result ::
    "'w kernel \<Rightarrow> uuid \<Rightarrow> string \<Rightarrow> tool_result \<Rightarrow> ('w kst, unit) act" where
  "deliver_result k toolUseEventID toolID result =
     andthen (or_fail k (appendToolResult k toolUseEventID (Some toolID) result)) (\<lambda>ev.
     andthen (modify (\<lambda>st. st\<lparr>Transcript := Transcript st
        @ [ToolResultMessage (tool_use_id st toolUseEventID) (resultText result) (IsError result)]\<rparr>)) (\<lambda>_.
     emit k ev))"

definition Resume :: "'w kernel \<Rightarrow> run_config \<Rightarrow> pending_resolution \<Rightarrow> 'w kst \<Rightarrow> 'w kst" where
  "Resume k rc res =
     then_turns k rc
       (andthen (mark_running k) (\<lambda>_.
        andthen (resolved_result k rc res) (\<lambda>result.
        andthen (deliver_result k (PrToolUseEventID res) (PrToolID res) result) (\<lambda>_.
        if PermissionDenied result \<or> ApprovalMismatch result
        then finish (terminate k (TerminalPermissionDenied (PrToolID res)))
        else if AwaitingApproval result
        then give_up k None (Err (''kernel: Resume's ApprovedExecutor unexpectedly resolved AwaitingApproval for ''
               @ PrToolID res))
        else ret ()))))"

definition delegation_result :: "delegation_resolution \<Rightarrow> tool_result" where
  "delegation_result res =
     (case DrOutcome res of
        DelegationReturned \<Rightarrow> no_result\<lparr>Output := DrResult res\<rparr>
      | DelegationReaped \<Rightarrow>
          no_result\<lparr>IsError := True, Synthetic := True, TrReason := ''delegation_reaped: '' @ DrReason res\<rparr>
      | DelegationBoundExceeded \<Rightarrow>
          no_result\<lparr>IsError := True, Synthetic := True, TrReason := ''bound_exceeded: '' @ DrReason res\<rparr>
      | DelegationOther _ \<Rightarrow> no_result)"

definition ResumeDelegation :: "'w kernel \<Rightarrow> run_config \<Rightarrow> delegation_resolution \<Rightarrow> 'w kst \<Rightarrow> 'w kst" where
  "ResumeDelegation k rc res =
     then_turns k rc
       (andthen (mark_running k) (\<lambda>_.
        deliver_result k (DrToolUseEventID res) (DrToolID res) (delegation_result res)))"

definition Continue :: "'w kernel \<Rightarrow> run_config \<Rightarrow> 'w kst \<Rightarrow> 'w kst" where
  "Continue k rc = then_turns k rc (mark_running k)"

definition ResumeConversation :: "'w kernel \<Rightarrow> run_config \<Rightarrow> string \<Rightarrow> 'w kst \<Rightarrow> 'w kst" where
  "ResumeConversation k rc inp = then_turns k rc (andthen (mark_running k) (\<lambda>_. user_message k inp))"

end
