(* ===== verification/Kernel_Protocol.thy ===== *)
theory Kernel_Protocol
  imports Kernel
begin

text \<open>
  What a run of the kernel may do, and in which order. The port contract \<open>log_port\<close> is what
  \<^verbatim>\<open>kernel/ports.go\<close> documents of an \<^verbatim>\<open>EventLog\<close>; the protocol is an automaton over the calls the loop
  makes, and the lemmas lead every entry point through it: nothing follows a terminal or
  suspending event but its bookkeeping, a denied tool call is followed by nothing but its
  records, a run over ports that do not fail always ends in such an event, and every event
  shown to the consumer is in the log.
\<close>

section \<open>The event log port\<close>

text \<open>
  \<open>log w s\<close> is the log of session \<open>s\<close>. An append adds the event, with the next sequence number and
  a time, and nothing else; a failed one leaves nothing. The other ports may add events of
  their own (a tool that records an effect claim does) but never remove one.
\<close>

locale log_port =
  fixes k :: "'w kernel" and log :: "'w \<Rightarrow> uuid \<Rightarrow> event list"
  assumes append_log: "kAppend k e w = (Inr ev, w') \<Longrightarrow> log w' = (log w)(SessionID e := log w (SessionID e) @ [ev])"
    and append_event: "kAppend k e w = (Inr ev, w') \<Longrightarrow>
          \<exists>t. ev = e\<lparr>Seq := int (length (log w (SessionID e))) + 1, CreatedAt := t\<rparr>"
    and append_fails: "kAppend k e w = (Inl er, w') \<Longrightarrow> log w' = log w"
    and status_log: "log (snd (kSetStatus k ten ses s r w)) = log w"
    and suspension_log: "log (snd (kRecordSuspension k sreq w)) = log w"
    and delegation_log: "log (snd (kRecordDelegation k dreq w)) = log w"
    and execute_log: "prefix (log w ses) (log (snd (kExecute k tu ec w)) ses)"
    and approved_log: "kExecuteApproved k = Some f \<Longrightarrow> prefix (log w ses) (log (snd (f tu dig ec w)) ses)"
    and reset_log: "kResetTurn k = Some g \<Longrightarrow> prefix (log w ses) (log (g w) ses)"
    and stream_log: "prefix (log w ses) (log (snd (kProvider k w p ts rcx)) ses)"
    and reserve_log: "prefix (log w ses) (log (snd (kReserve k rreq w)) ses)"
    and reconcile_log: "prefix (log w ses) (log (snd (kReconcile k res u rep w)) ses)"
    and seal_log: "prefix (log w ses) (log (snd (kSeal k b w)) ses)"
    and uuid_log: "prefix (log w ses) (log (snd (kNewUUID k w)) ses)"
    and yield_log: "prefix (log w ses) (log (snd (kYield k yev yer w)) ses)"

section \<open>The protocol automaton\<close>

datatype phase = Open | Denied | Closed | Broken

definition ending :: "event_type \<Rightarrow> bool" where
  "ending t \<longleftrightarrow> t \<in> {EventTerminal, EventApprovalRequested, EventDelegationRequested, EventAwaitingInput}"

fun pstep :: "phase \<Rightarrow> call \<Rightarrow> phase" where
  "pstep Open (CAppend e) = (if ending (EType e) then Closed else Open)"
| "pstep Open (CExecute tu r) = (if PermissionDenied r then Denied else Open)"
| "pstep Open (CSuspend _) = Broken"
| "pstep Open (CDelegate _) = Broken"
| "pstep Open _ = Open"
| "pstep Denied (CAppend e) =
     (if EType e = EventTerminal then Closed
      else if EType e \<in> {EventToolResult, EventTaintTransition} then Denied else Broken)"
| "pstep Denied (CYield _ _) = Denied"
| "pstep Denied _ = Broken"
| "pstep Closed (CStatus _ _) = Closed"
| "pstep Closed (CYield _ _) = Closed"
| "pstep Closed (CSuspend _) = Closed"
| "pstep Closed (CDelegate _) = Closed"
| "pstep Closed _ = Broken"
| "pstep Broken _ = Broken"

definition phase_of :: "call list \<Rightarrow> phase" where
  "phase_of cs = foldl pstep Open cs"

definition phase_in :: "'w kst \<Rightarrow> phase" where
  "phase_in st = phase_of (Trace st)"

lemma phase_of_snoc [simp]: "phase_of (cs @ [c]) = pstep (phase_of cs) c"
  by (simp add: phase_of_def)

lemma phase_of_Nil [simp]: "phase_of [] = Open"
  by (simp add: phase_of_def)

lemma Trace_note_call [simp]: "Trace (note_call c st) = Trace st @ [c]"
  by (simp add: note_call_def)

lemma phase_note_call [simp]: "phase_in (note_call c st) = pstep (phase_in st) c"
  by (simp add: phase_in_def)

lemma phase_in_updates [simp]:
  "phase_in (st\<lparr>World := w\<rparr>) = phase_in st"
  "phase_in (st\<lparr>History := h\<rparr>) = phase_in st"
  "phase_in (st\<lparr>World := w, History := h\<rparr>) = phase_in st"
  "phase_in (st\<lparr>Transcript := t\<rparr>) = phase_in st"
  "phase_in (st\<lparr>StuckReg := g\<rparr>) = phase_in st"
  "phase_in (st\<lparr>terminalReason := r\<rparr>) = phase_in st"
  by (simp_all add: phase_in_def)

lemma pstep_yield [simp]: "pstep p (CYield ev er) = p"
  by (cases p) simp_all

lemma phase_of_Broken: "foldl pstep Broken cs = Broken"
  by (induction cs) simp_all

text \<open>What the automaton says of a trace it accepts.\<close>

lemma phase_of_split: "phase_of (xs @ c # ys) = foldl pstep (pstep (phase_of xs) c) ys"
  by (simp add: phase_of_def)

definition bookkeeping :: "call \<Rightarrow> bool" where
  "bookkeeping c = (case c of CStatus _ _ \<Rightarrow> True | CYield _ _ \<Rightarrow> True | CSuspend _ \<Rightarrow> True | CDelegate _ \<Rightarrow> True | _ \<Rightarrow> False)"

lemma foldl_Closed: "foldl pstep Closed cs \<noteq> Broken \<Longrightarrow> list_all bookkeeping cs"
proof (induction cs)
  case (Cons c cs)
  then show ?case by (cases c) (simp_all add: bookkeeping_def phase_of_Broken)
qed simp

lemma after_ending:
  assumes "phase_of (xs @ CAppend e # ys) \<noteq> Broken" and "ending (EType e)"
  shows "list_all bookkeeping ys"
  using assms foldl_Closed [of ys]
  by (cases "phase_of xs") (auto simp: phase_of_split phase_of_Broken ending_def split: if_splits)

text \<open>The calls that may follow a denied tool call: its records, then the end.\<close>

definition after_denial :: "call \<Rightarrow> bool" where
  "after_denial c =
     (case c of
        CAppend e \<Rightarrow> EType e \<in> {EventToolResult, EventTaintTransition, EventTerminal}
      | _ \<Rightarrow> bookkeeping c)"

lemma foldl_Denied: "foldl pstep Denied cs \<noteq> Broken \<Longrightarrow> list_all after_denial cs"
proof (induction cs)
  case (Cons c cs)
  show ?case
  proof (cases c)
    case (CAppend e)
    show ?thesis
    proof (cases "EType e = EventTerminal")
      case True
      with Cons.prems CAppend have "foldl pstep Closed cs \<noteq> Broken" by simp
      from foldl_Closed [OF this] have "list_all after_denial cs"
        by (auto simp: list_all_iff after_denial_def bookkeeping_def split: call.splits)
      moreover have "after_denial c" using True CAppend by (simp add: after_denial_def)
      ultimately show ?thesis by simp
    next
      case False
      with Cons CAppend show ?thesis
        by (auto simp: after_denial_def phase_of_Broken split: if_splits)
    qed
  qed (use Cons in \<open>simp_all add: after_denial_def bookkeeping_def phase_of_Broken\<close>)
qed simp

lemma after_denied:
  assumes "phase_of (xs @ CExecute tu r # ys) \<noteq> Broken" and "PermissionDenied r"
  shows "list_all after_denial ys"
  using assms foldl_Denied [of ys]
  by (cases "phase_of xs") (simp_all add: phase_of_split phase_of_Broken)

section \<open>Ports that do not fail\<close>

text \<open>No port reports an error and the consumer wants every event.\<close>

definition healthy :: "'w kernel \<Rightarrow> bool" where
  "healthy k \<longleftrightarrow>
     (\<forall>p. isl (json_Marshal (kCodec k) p) = False) \<and>
     (\<forall>b w. isl (fst (kSeal k b w)) = False) \<and>
     (\<forall>e w. isl (fst (kAppend k e w)) = False) \<and>
     (\<forall>ten ses s r w. fst (kSetStatus k ten ses s r w) = None) \<and>
     (\<forall>req w. fst (kRecordSuspension k req w) = None) \<and>
     (\<forall>req w. fst (kRecordDelegation k req w) = None) \<and>
     (\<forall>ev er w. fst (kYield k ev er w))"

definition in_phase :: "phase \<Rightarrow> 'w kst \<Rightarrow> bool" where
  "in_phase ph st \<longleftrightarrow> phase_in st = ph"

text \<open>A consumer that never asks the run to stop, and a run whose last word is an error.\<close>

definition patient :: "'w kernel \<Rightarrow> bool" where
  "patient k \<longleftrightarrow> (\<forall>ev er w. fst (kYield k ev er w))"

definition complained :: "'w kst \<Rightarrow> bool" where
  "complained st \<longleftrightarrow> (\<exists>cs ev er. Trace st = cs @ [CYield ev (Some er)])"

lemma complained_yield [simp]: "complained (snd (yield k ev (Some er) st))"
  by (auto simp: complained_def yield_def split: prod.splits)

text \<open>What holds when the iterator has returned.\<close>

definition returned :: "'w kernel \<Rightarrow> 'w kst \<Rightarrow> bool" where
  "returned k st \<longleftrightarrow> phase_in st \<noteq> Broken \<and> (patient k \<longrightarrow> phase_in st = Closed \<or> complained st)
     \<and> (healthy k \<longrightarrow> phase_in st = Closed)"

definition answered :: "'w kernel \<Rightarrow> 'w kst \<Rightarrow> bool" where
  "answered k st \<longleftrightarrow> phase_in st \<noteq> Broken \<and> (patient k \<longrightarrow> phase_in st = Closed \<or> complained st)"

lemma returned_answered: "returned k st \<longleftrightarrow> answered k st \<and> (healthy k \<longrightarrow> phase_in st = Closed)"
  by (simp add: returned_def answered_def)

text \<open>A step of the turn that leaves the protocol where it was, or returns.\<close>

definition stays_open :: "'w kernel \<Rightarrow> ('w kst, 'a) act \<Rightarrow> bool" where
  "stays_open k m \<longleftrightarrow> valid (in_phase Open) m (\<lambda>_. in_phase Open) (returned k)"

named_theorems open_rules \<open>steps that keep the protocol open\<close>

lemma stays_open_ret [open_rules]: "stays_open k (ret a)"
  by (simp add: stays_open_def valid_def ret_def)

lemma stays_open_andthen [open_rules]:
  "stays_open k m \<Longrightarrow> (\<And>a. stays_open k (f a)) \<Longrightarrow> stays_open k (andthen m f)"
  unfolding stays_open_def by (rule valid_andthen)

lemma stays_open_for_each [open_rules]:
  "(\<And>x. x \<in> set xs \<Longrightarrow> stays_open k (f x)) \<Longrightarrow> stays_open k (for_each f xs)"
  unfolding stays_open_def by (rule valid_for_each)

lemma stays_open_collect [open_rules]:
  "(\<And>x. x \<in> set xs \<Longrightarrow> stays_open k (f x)) \<Longrightarrow> stays_open k (collect f xs)"
  unfolding stays_open_def by (rule valid_collect)

lemma stays_open_modify [open_rules]:
  "(\<And>st. phase_in (f st) = phase_in st) \<Longrightarrow> stays_open k (modify f)"
  by (simp add: stays_open_def valid_def modify_def in_phase_def)

lemma stays_open_finish [open_rules]:
  "(\<And>st. in_phase Open st \<Longrightarrow> returned k (p st)) \<Longrightarrow> stays_open k (finish p)"
  by (simp add: stays_open_def valid_def finish_def)

lemma phase_yield [simp]: "phase_in (snd (yield k ev er st)) = phase_in st"
  by (simp add: yield_def split: prod.splits)

text \<open>The same, state by state, for a step whose code depends on the state it starts in.\<close>

definition good :: "'w kernel \<Rightarrow> 'a option \<times> 'w kst \<Rightarrow> bool" where
  "good k r \<longleftrightarrow> (case r of (None, st) \<Rightarrow> returned k st | (Some a, st) \<Rightarrow> in_phase Open st)"

lemma stays_openI: "(\<And>st. in_phase Open st \<Longrightarrow> good k (f st)) \<Longrightarrow> stays_open k f"
  by (simp add: stays_open_def valid_def good_def)

lemma stays_openD: "stays_open k f \<Longrightarrow> in_phase Open st \<Longrightarrow> good k (f st)"
  by (simp add: stays_open_def valid_def good_def)

lemma stays_open_say [open_rules]: "stays_open k (say role blocks)"
  unfolding say_def by (intro open_rules) simp

lemma emit_in_phase: "ph \<noteq> Broken \<Longrightarrow> valid (in_phase ph) (emit k ev) (\<lambda>_. in_phase ph) (returned k)"
  by (auto simp: valid_def emit_def yield_def in_phase_def returned_def healthy_def patient_def
        split: prod.splits if_splits) (metis fst_conv)+

section \<open>Appending under the contract\<close>

context log_port
begin

lemma appendEvent_cases:
  assumes "appendEvent k typ act toolID pairRef modelID p st = (r, st')"
  obtains (fails) er w where "r = Inl er" "st' = st\<lparr>World := w\<rparr>" "\<not> healthy k"
      "\<And>s. prefix (log (World st) s) (log w s)"
    | (appends) ev w where "r = Inr ev" "st' = note_call (CAppend ev) (st\<lparr>World := w, History := History st @ [ev]\<rparr>)"
      "EType ev = typ" "PairRef ev = pairRef" "ToolID ev = toolID" "SessionID ev = StSession st"
      "EActor ev = act" "ModelID ev = modelID"
      "\<And>s. prefix (log (World st) s) (log w s)"
      "\<exists>l. log w (StSession st) = l @ [ev] \<and> prefix (log (World st) (StSession st)) l"
proof (cases "json_Marshal (kCodec k) p")
  case (Inl er)
  then have "\<not> healthy k" by (metis healthy_def isl_def)
  with Inl assms that(1) [of _ "World st"] show ?thesis by (auto simp: appendEvent_def)
next
  case marshalled: (Inr b)
  obtain sl w1 where seal: "kSeal k b (World st) = (sl, w1)" by fastforce
  have w1: "prefix (log (World st) s) (log w1 s)" for s using seal_log [of "World st" s b] seal by simp
  show ?thesis
  proof (cases sl)
    case (Inl er)
    with seal have "\<not> healthy k" by (metis fst_conv healthy_def isl_def)
    with Inl marshalled seal assms w1 that(1) [of _ w1] show ?thesis by (auto simp: appendEvent_def)
  next
    case (Inr sealed)
    obtain eid w2 where uuid: "kNewUUID k w1 = (eid, w2)" by fastforce
    have w2: "prefix (log (World st) s) (log w2 s)" for s
      using w1 [of s] uuid_log [of w1 s] uuid by (simp add: prefix_order.trans)
    let ?e = "new_event st eid typ act toolID pairRef modelID sealed"
    obtain ra w3 where app: "kAppend k ?e w2 = (ra, w3)" by fastforce
    show ?thesis
    proof (cases ra)
      case (Inl er)
      with app have "\<not> healthy k" by (metis fst_conv healthy_def isl_def)
      with Inl \<open>sl = Inr sealed\<close> marshalled seal uuid app assms w2 append_fails [of ?e w2 er w3] that(1) [of _ w3]
      show ?thesis by (auto simp: appendEvent_def)
    next
      case (Inr ev)
      have sid: "SessionID ?e = StSession st" by (simp add: new_event_def split: prod.splits)
      have grow: "log w3 = (log w2)(StSession st := log w2 (StSession st) @ [ev])"
        using append_log [of ?e w2 ev w3] app Inr sid by simp
      have w3: "prefix (log (World st) s) (log w3 s)" for s
        using w2 [of s] grow by (auto simp: prefix_order.trans)
      from append_event [of ?e w2 ev w3] app Inr obtain n t where ev: "ev = ?e\<lparr>Seq := n, CreatedAt := t\<rparr>" by auto
      show ?thesis
      proof (rule that(2) [of ev w3])
        show "r = Inr ev" "st' = note_call (CAppend ev) (st\<lparr>World := w3, History := History st @ [ev]\<rparr>)"
          using Inr \<open>sl = Inr sealed\<close> marshalled seal uuid app assms by (simp_all add: appendEvent_def)
        show "EType ev = typ" "PairRef ev = pairRef" "ToolID ev = toolID" "SessionID ev = StSession st"
            "EActor ev = act" "ModelID ev = modelID"
          using ev by (simp_all add: new_event_def split: prod.splits)
      qed (use w2 w3 grow in auto)
    qed
  qed
qed

end

section \<open>Ending and suspending close the run\<close>

lemmas append_defs = appendContent_def appendThought_def appendToolUseEvent_def appendToolResult_def
  appendApprovalRequested_def appendBudgetDecision_def appendTerminal_def Let_def

lemma updateStatus_phase:
  assumes "updateStatus k s r st = (er, st')" and "phase_in st \<in> {Open, Closed}"
  shows "phase_in st' = phase_in st" and "healthy k \<Longrightarrow> er = None"
  using assms
  by (auto simp: updateStatus_def healthy_def split: prod.splits option.splits) (metis fst_conv option.discI)+

lemma phase_forget_stuck [simp]: "phase_in (forget_stuck st) = phase_in st"
  by (simp add: forget_stuck_def split: option.splits)

definition known :: "terminal \<Rightarrow> bool" where
  "known t \<longleftrightarrow> (\<forall>s. TReason t \<noteq> ReasonUnknown s)"

lemma known_terminals [simp]:
  "known TerminalCompleted" "known (TerminalMaxTurnsExceeded n)" "known (TerminalCostExhausted s)"
  "known (TerminalStuckTerminated s)" "known (TerminalPermissionDenied s)" "known (TerminalContextOverflow s)"
  "known (TerminalError er)" "known (TerminalRefused s)" "known (TerminalAborted s)" "known (TerminalIdleTimeout s)"
  by (simp_all add: known_def TerminalCompleted_def TerminalMaxTurnsExceeded_def TerminalCostExhausted_def
        TerminalStuckTerminated_def TerminalPermissionDenied_def TerminalContextOverflow_def TerminalError_def
        TerminalRefused_def TerminalAborted_def TerminalIdleTimeout_def)

context log_port
begin

lemma or_fail_append:
  assumes "ph \<noteq> Broken"
  shows "valid (in_phase ph) (or_fail k (appendEvent k typ act toolID pairRef modelID p))
           (\<lambda>ev st. in_phase (pstep ph (CAppend ev)) st \<and> EType ev = typ) (returned k)"
proof -
  have "case or_fail k (appendEvent k typ act toolID pairRef modelID p) st of
          (Some ev, st') \<Rightarrow> in_phase (pstep ph (CAppend ev)) st' \<and> EType ev = typ
        | (None, st') \<Rightarrow> returned k st'" if "in_phase ph st" for st
  proof -
    obtain r st' where app: "appendEvent k typ act toolID pairRef modelID p st = (r, st')" by fastforce
    then show ?thesis
      by (cases rule: appendEvent_cases)
         (use assms that app in \<open>auto simp: or_fail_def give_up_def returned_def in_phase_def\<close>)
  qed
  then show ?thesis by (simp add: valid_def)
qed

lemma record_event_open [open_rules]:
  assumes "\<not> ending typ"
  shows "stays_open k (record_event k (appendEvent k typ act toolID pairRef modelID p))"
  unfolding stays_open_def record_event_def
proof (rule valid_andthen [OF or_fail_append])
  fix ev
  show "valid (\<lambda>st. in_phase (pstep Open (CAppend ev)) st \<and> EType ev = typ)
          (andthen (emit k ev) (\<lambda>_. ret ev)) (\<lambda>_. in_phase Open) (returned k)"
  proof (cases "EType ev = typ")
    case True
    have "valid (in_phase Open) (andthen (emit k ev) (\<lambda>_. ret ev)) (\<lambda>_. in_phase Open) (returned k)"
      by (rule valid_andthen [OF emit_in_phase]) (simp_all add: valid_def ret_def)
    with True assms show ?thesis by simp
  qed (simp add: valid_def)
qed simp

lemma record_event_denied:
  assumes "typ \<in> {EventToolResult, EventTaintTransition}"
  shows "valid (in_phase Denied) (record_event k (appendEvent k typ act toolID pairRef modelID p))
           (\<lambda>_. in_phase Denied) (returned k)"
  unfolding record_event_def
proof (rule valid_andthen [OF or_fail_append])
  fix ev
  show "valid (\<lambda>st. in_phase (pstep Denied (CAppend ev)) st \<and> EType ev = typ)
          (andthen (emit k ev) (\<lambda>_. ret ev)) (\<lambda>_. in_phase Denied) (returned k)"
  proof (cases "EType ev = typ")
    case True
    have "valid (in_phase Denied) (andthen (emit k ev) (\<lambda>_. ret ev)) (\<lambda>_. in_phase Denied) (returned k)"
      by (rule valid_andthen [OF emit_in_phase]) (simp_all add: valid_def ret_def)
    moreover have "pstep Denied (CAppend ev) = Denied" using True assms by auto
    ultimately show ?thesis using True by simp
  qed (simp add: valid_def)
qed simp

lemma terminate_returns:
  assumes "phase_in st \<in> {Open, Denied}" and "known t"
  shows "returned k (terminate k t st)"
proof -
  let ?st = "st\<lparr>terminalReason := reason_str (TReason t)\<rparr>"
  obtain p where p: "buildTerminalPayload t = Inr p"
    using assms(2) by (cases "TReason t") (auto simp: buildTerminalPayload_def known_def)
  obtain r st1 where app: "appendTerminal k p ?st = (r, st1)" by fastforce
  then have "appendEvent k EventTerminal ActorSystem None None None (PTerminal (fst p) (snd p)) ?st = (r, st1)"
    by (simp add: appendTerminal_def)
  then show ?thesis
  proof (cases rule: appendEvent_cases)
    case fails
    with app p assms show ?thesis by (auto simp: terminate_def Let_def returned_def)
  next
    case (appends ev w)
    then have closed: "phase_in st1 = Closed" using assms(1) by (auto simp: ending_def)
    obtain er st2 where us: "updateStatus k (terminal_status t) (Some (reason_str (TReason t))) st1 = (er, st2)" by fastforce
    from updateStatus_phase [OF us] closed have "phase_in st2 = Closed" by simp
    with app p appends us show ?thesis by (cases er) (simp_all add: terminate_def Let_def returned_def)
  qed
qed

lemma terminateFromStreamError_returns:
  "phase_in st \<in> {Open, Denied} \<Longrightarrow> returned k (terminateFromStreamError k er st)"
  by (simp add: terminateFromStreamError_def terminate_returns split: trigger_class.splits)

lemma suspendForUserInput_returns:
  assumes "in_phase Open st"
  shows "returned k (suspendForUserInput k st)"
proof -
  obtain r st1 where app: "appendEvent k EventAwaitingInput ActorSystem None None None PAwaitingInput st = (r, st1)" by fastforce
  then show ?thesis
  proof (cases rule: appendEvent_cases)
    case fails
    with app assms show ?thesis by (auto simp: suspendForUserInput_def returned_def in_phase_def)
  next
    case (appends ev w)
    then have closed: "phase_in st1 = Closed" using assms by (auto simp: ending_def in_phase_def)
    obtain er st2 where us: "updateStatus k SessionStatusAwaitingInput None st1 = (er, st2)" by fastforce
    from updateStatus_phase [OF us] closed have "phase_in st2 = Closed" by simp
    with app appends us show ?thesis by (cases er) (simp_all add: suspendForUserInput_def returned_def)
  qed
qed

lemma suspendForApproval_returns:
  assumes "in_phase Open st"
  shows "returned k (suspendForApproval k eid toolID inp result st)"
proof -
  obtain r st1 where app: "appendApprovalRequested k toolID (TrReason result) (AskKind result) st = (r, st1)" by fastforce
  then have "appendEvent k EventApprovalRequested ActorSystem toolID None None
      (PApprovalRequested (case toolID of None \<Rightarrow> '''' | Some t \<Rightarrow> t) (TrReason result) (AskKind result)) st = (r, st1)"
    by (simp add: appendApprovalRequested_def)
  then show ?thesis
  proof (cases rule: appendEvent_cases)
    case fails
    with app assms show ?thesis by (auto simp: suspendForApproval_def returned_def in_phase_def)
  next
    case (appends ev w)
    then have closed: "phase_in st1 = Closed" using assms by (auto simp: ending_def in_phase_def)
    obtain er st2 where us: "updateStatus k SessionStatusSuspended None st1 = (er, st2)" by fastforce
    from updateStatus_phase [OF us] closed have "phase_in st2 = Closed" by simp
    with app appends us show ?thesis
      by (cases er) (simp_all add: suspendForApproval_def returned_def Let_def split: prod.splits option.splits)
  qed
qed

lemma suspendForDelegation_returns:
  assumes "in_phase Open st"
  shows "returned k (suspendForDelegation k eid toolID child st)"
proof -
  obtain r st1 where app: "appendEvent k EventDelegationRequested ActorSystem toolID None None
      (PDelegationRequested (case toolID of None \<Rightarrow> '''' | Some t \<Rightarrow> t) child) st = (r, st1)" by fastforce
  then show ?thesis
  proof (cases rule: appendEvent_cases)
    case fails
    with app assms show ?thesis by (auto simp: suspendForDelegation_def returned_def in_phase_def Let_def)
  next
    case (appends ev w)
    then have closed: "phase_in st1 = Closed" using assms by (auto simp: ending_def in_phase_def)
    obtain er st2 where us: "updateStatus k SessionStatusSuspended None st1 = (er, st2)" by fastforce
    from updateStatus_phase [OF us] closed have "phase_in st2 = Closed" by simp
    with app appends us show ?thesis
      by (cases er) (simp_all add: suspendForDelegation_def returned_def Let_def split: prod.splits option.splits)
  qed
qed

end

section \<open>One turn follows the protocol\<close>

lemma phase_reserve [simp]: "phase_in st = Open \<Longrightarrow> phase_in (snd (reserve k req st)) = Open"
  by (simp add: reserve_def split: prod.splits)

lemma phase_reconcile [simp]: "phase_in st = Open \<Longrightarrow> phase_in (reconcile k res u rep st) = Open"
  by (simp add: reconcile_def)

lemma phase_open_stream [simp]: "phase_in st = Open \<Longrightarrow> phase_in (snd (open_stream k p cat st)) = Open"
  by (simp add: open_stream_def split: prod.splits)

lemma phase_condense:
  assumes "phase_in st = Open"
  shows "phase_in (snd (condense k rc covered st)) = Open"
proof -
  obtain res er st1 where r: "reserve k \<lparr>ReqTenant = StTenant st, ReqSession = StSession st,
      ReqModel = CondenserModelID rc, ReqPurpose = PurposeCompaction\<rparr> st = ((res, er), st1)"
    by (metis prod.exhaust)
  obtain s st2 where o: "open_stream k (CondensePrompt covered) [] st1 = (s, st2)" by fastforce
  have st1: "phase_in st1 = Open" using phase_reserve [OF assms] r by (metis snd_conv)
  then have "phase_in st2 = Open" using phase_open_stream [OF st1] o by (metis snd_conv)
  with r o st1 show ?thesis
    by (cases er; cases s) (simp_all add: condense_def Let_def split: prod.splits)
qed

context log_port
begin

lemma hygiene_open [open_rules]: "stays_open k (hygiene_step k)"
proof -
  have "stays_open k (backfill k s)" for s
  proof (rule stays_openI)
    fix st :: "'w kst" assume "in_phase Open st"
    then show "good k (backfill k s st)"
      unfolding backfill_def append_defs
      by (rule stays_openD [rotated]) (intro open_rules, simp add: ending_def)
  qed
  then have step: "stays_open k (andthen (collect (backfill k) synth) (say ''tool''))" for synth
    by (intro open_rules)
  show ?thesis
  proof (rule stays_openI)
    fix st :: "'w kst" assume "in_phase Open st"
    then have "in_phase Open (st\<lparr>History := h\<rparr>)" for h by (simp add: in_phase_def)
    from stays_openD [OF step this] show "good k (hygiene_step k st)"
      unfolding hygiene_step_def by (simp split: prod.splits)
  qed
qed

lemma reserve_open [open_rules]: "stays_open k (reserve_step k rc)"
proof (rule stays_openI)
  fix st :: "'w kst" assume st: "in_phase Open st"
  let ?req = "\<lparr>ReqTenant = StTenant st, ReqSession = StSession st, ReqModel = RunModelID rc, ReqPurpose = PurposeTurn\<rparr>"
  obtain res er st1 where r: "reserve k ?req st = ((res, er), st1)" by (metis prod.exhaust)
  have st1: "in_phase Open st1" using phase_reserve [of st k ?req] st r by (simp add: in_phase_def)
  have "stays_open k (andthen (record_event k (appendBudgetDecision k res))
      (\<lambda>_. if er \<noteq> None then finish (terminate k (TerminalCostExhausted (DecReason (ResDecision res)))) else ret res))"
    unfolding append_defs
    by (intro open_rules) (auto intro!: open_rules terminate_returns simp: ending_def in_phase_def)
  from stays_openD [OF this st1] r show "good k (reserve_step k rc st)"
    by (simp add: reserve_step_def)
qed

lemma prune_open [open_rules]: "stays_open k (prune_step k)"
proof (rule stays_openI)
  fix st :: "'w kst" assume st: "in_phase Open st"
  obtain view n where p: "Prune (kHex8 k) (Transcript st) (PrunePolicy k) = (view, n)" by fastforce
  have "stays_open k (andthen (if n > 0 then andthen (record_event k (appendEvent k EventContextPruned ActorSystem
      None None None (PContextPruned n))) (\<lambda>_. ret ()) else ret ()) (\<lambda>_. ret view))"
    by (auto intro!: open_rules simp: ending_def)
  from stays_openD [OF this st] p show "good k (prune_step k st)" by (simp add: prune_step_def)
qed

lemma condense_open [open_rules]: "stays_open k (condense_step k rc view)"
proof (rule stays_openI)
  fix st :: "'w kst" assume st: "in_phase Open st"
  obtain yes covered where sc: "ShouldCondense view (CondenseThresholdBytes k) = (yes, covered)" by fastforce
  show "good k (condense_step k rc view st)"
  proof (cases yes)
    case False
    with sc st show ?thesis by (simp add: condense_step_def good_def ret_def)
  next
    case True
    obtain summary0 degraded res st1 where c: "condense k rc (take covered view) st = ((summary0, degraded, res), st1)"
      by (metis prod.exhaust)
    have st1: "in_phase Open st1" using phase_condense [of st k rc "take covered view"] st c by (simp add: in_phase_def)
    define fin where "fin = (\<lambda>(_ :: event) st2.
        let summary = (if degraded then ExtractivePass (take covered view) else summary0);
            (cid, w) = kNewUUID k (World st2);
            cond = Condense cid (last_seq (History st2)) summary in
        andthen (record_event k (appendEvent k EventCondensation ActorSystem None None None
                   (PCondensation (uuid_String (kCodec k) (CondensationID cond)) (CoveredThroughSeq cond)
                      (Summary cond) degraded)))
          (\<lambda>_ st3. let newTranscript = TextMessage ''assistant'' (''[condensed summary] '' @ summary)
                                         # drop covered (Transcript st3) in
                   (Some newTranscript, st3\<lparr>Transcript := newTranscript\<rparr>))
          (st2\<lparr>World := w\<rparr>))"
    have "stays_open k (fin ev)" for ev
    proof (rule stays_openI)
      fix st2 :: "'w kst" assume "in_phase Open st2"
      then have st2: "in_phase Open (st2\<lparr>World := w\<rparr>)" for w by (simp add: in_phase_def)
      have upd: "stays_open k (\<lambda>st3. (Some (f st3), st3\<lparr>Transcript := f st3\<rparr>))" for f :: "'w kst \<Rightarrow> msg list"
        by (rule stays_openI) (simp add: good_def in_phase_def)
      show "good k (fin ev st2)"
        unfolding fin_def Let_def
        by (auto split: prod.splits intro!: stays_openD [OF _ st2] open_rules upd simp: ending_def)
    qed
    then have "stays_open k (andthen (record_event k (appendBudgetDecision k res)) fin)"
      unfolding append_defs by (intro open_rules) (simp_all add: ending_def)
    from stays_openD [OF this st1] True sc c show ?thesis
      by (simp add: condense_step_def fin_def)
  qed
qed

lemma model_open [open_rules]: "stays_open k (model_step k rc res view)"
proof (rule stays_openI)
  fix st :: "'w kst" assume st: "in_phase Open st"
  let ?p = "fst (Build (RunSystem rc) (Catalog rc) view)"
  obtain s st1 where os: "open_stream k ?p (Catalog rc) st = (s, st1)" by fastforce
  have "phase_in st1 = Open" using phase_open_stream [of st k ?p "Catalog rc"] st os by (simp add: in_phase_def)
  then have rec: "phase_in (reconcile k res u rep st1) = Open" for u rep by simp
  then show "good k (model_step k rc res view st)"
    using os by (cases s) (auto simp: model_step_def good_def in_phase_def Let_def rec
          intro!: terminateFromStreamError_returns split: prod.splits option.splits)
qed

lemma output_open [open_rules]:
  "stays_open k (thought_step k rc opaque)"
  "stays_open k (content_step k rc text)"
  "stays_open k (tool_use_step k rc tu)"
  "stays_open k (done_check k out)"
  unfolding thought_step_def content_step_def tool_use_step_def done_check_def append_defs
  by (auto intro!: open_rules terminate_returns simp: ending_def in_phase_def)

lemma stuck_open [open_rules]: "stays_open k (stuck_step k tu)"
proof (rule stays_openI)
  fix st :: "'w kst" assume "in_phase Open st"
  then have st: "in_phase Open (st\<lparr>StuckReg := g\<rparr>)" "in_phase Open st" for g by (simp_all add: in_phase_def)
  have "stays_open k (andthen (record_event k (appendEvent k EventStuckSuspected ActorSystem None None None
      (PStuckSuspected reason))) (\<lambda>_. if stp then finish (terminate k (TerminalStuckTerminated reason)) else ret ()))" for reason stp
    by (auto intro!: open_rules terminate_returns simp: ending_def in_phase_def)
  from stays_openD [OF this st(1)] stays_openD [OF stays_open_ret [of k "()"] st(1)]
    stays_openD [OF stays_open_ret [of k "()"] st(2)]
  show "good k (stuck_step k tu st)"
    by (simp add: stuck_step_def Let_def split: option.splits prod.splits)
qed

lemma execute_phase:
  "valid (in_phase Open) (execute k rc tu) (\<lambda>r. in_phase (if PermissionDenied r then Denied else Open)) (returned k)"
  by (simp add: valid_def execute_def in_phase_def split: prod.splits)

lemma dispatch_one_open [open_rules]: "stays_open k (dispatch_one k rc p)"
proof (cases p)
  case (Pair tu ev)
  let ?fin = "\<lambda>result. (\<lambda>_. if PermissionDenied result then
          finish (terminate k (TerminalPermissionDenied (case ToolID ev of None \<Rightarrow> ''unknown'' | Some t \<Rightarrow> t)))
        else if AwaitingApproval result then finish (suspendForApproval k (EventID ev) (ToolID ev) (TuInput tu) result)
        else if AwaitingDelegation result then
          finish (suspendForDelegation k (EventID ev) (ToolID ev) (ChildSessionID result))
        else andthen (stuck_step k tu) (\<lambda>_. ret (BlockToolResult (TuID tu) (resultText result) (IsError result))))"
  have "valid (in_phase (if PermissionDenied result then Denied else Open))
      (andthen (record_event k (appendToolResult k (EventID ev) (ToolID ev) result)) (\<lambda>_.
       andthen (taint_step k result) (?fin result))) (\<lambda>_. in_phase Open) (returned k)" for result
  proof (cases "PermissionDenied result")
    case True
    have "valid (in_phase Denied) (taint_step k result) (\<lambda>_. in_phase Denied) (returned k)"
    proof (cases "TaintChanged result")
      case True
      then show ?thesis
        by (simp add: taint_step_def) (rule valid_andthen [OF record_event_denied], auto simp: valid_def ret_def)
    qed (simp add: taint_step_def valid_def ret_def)
    moreover have "valid (in_phase Denied) (?fin result u) (\<lambda>_. in_phase Open) (returned k)" for u
      using True by (auto simp: valid_def finish_def in_phase_def intro!: terminate_returns)
    ultimately show ?thesis
      unfolding append_defs using True
      by (auto intro!: record_event_denied valid_andthen [of "in_phase Denied" _ "\<lambda>_. in_phase Denied"])
  next
    case False
    then have "stays_open k (?fin result u)" for u
      by (auto intro!: open_rules suspendForApproval_returns suspendForDelegation_returns)
    moreover have "stays_open k (taint_step k result)"
      unfolding taint_step_def by (auto intro!: open_rules simp: ending_def)
    ultimately have "stays_open k (andthen (record_event k (appendToolResult k (EventID ev) (ToolID ev) result)) (\<lambda>_.
       andthen (taint_step k result) (?fin result)))"
      unfolding append_defs by (intro open_rules) (simp_all add: ending_def)
    with False show ?thesis by (simp add: stays_open_def)
  qed
  then show ?thesis
    unfolding stays_open_def dispatch_one_def Pair prod.case
    by (rule valid_andthen [OF execute_phase])
qed

lemma dispatch_open [open_rules]: "stays_open k (dispatch_step k rc out evs)"
  unfolding dispatch_step_def
  by (auto intro!: open_rules terminate_returns suspendForUserInput_returns simp: in_phase_def
        split: classification.splits)

lemma reset_open [open_rules]: "stays_open k (reset_turn k)"
  unfolding reset_turn_def by (intro open_rules) (simp split: option.splits)

lemma turn_open: "stays_open k (turn k rc)"
  unfolding turn_def by (intro open_rules)

section \<open>Whole runs follow the protocol\<close>

lemma turns_from_returned: "in_phase Open st \<Longrightarrow> returned k (turns_from k rc n st)"
proof (induction "nat (max_turns rc + 1 - n)" arbitrary: n st rule: less_induct)
  case less
  show ?case
  proof (cases "n > max_turns rc")
    case True
    with less.prems show ?thesis
      by (subst turns_from.simps) (simp add: terminate_returns in_phase_def)
  next
    case False
    obtain r st' where t: "turn k rc st = (r, st')" by fastforce
    have "good k (r, st')" using stays_openD [OF turn_open less.prems] t by metis
    with False t less.hyps [of "n + 1" st'] show ?thesis
      by (subst turns_from.simps) (auto simp: good_def split: option.splits)
  qed
qed

lemma then_turns_returned:
  assumes "stays_open k m" and "in_phase Open st"
  shows "returned k (then_turns k rc m st)"
  using stays_openD [OF assms] turns_from_returned
  by (auto simp: then_turns_def runTurns_def good_def split: prod.splits option.splits)

lemma mark_running_open [open_rules]: "stays_open k (mark_running k)"
proof (rule stays_openI)
  fix st :: "'w kst" assume st: "in_phase Open st"
  obtain er st1 where us: "updateStatus k SessionStatusRunning None st = (er, st1)" by fastforce
  from updateStatus_phase [OF us] st have "phase_in st1 = Open" "healthy k \<Longrightarrow> er = None"
    by (simp_all add: in_phase_def)
  with us show "good k (mark_running k st)"
    by (cases er) (auto simp: mark_running_def good_def ret_def in_phase_def give_up_def returned_def)
qed

text \<open>An append whose event is handed out after the transcript has been updated.\<close>

lemma append_then_emit_open:
  assumes "\<not> ending typ" and "\<And>st. phase_in (f st) = phase_in st"
  shows "stays_open k (andthen (or_fail k (appendEvent k typ act toolID pairRef modelID p))
           (\<lambda>ev. andthen (modify f) (\<lambda>_. emit k ev)))"
  unfolding stays_open_def
proof (rule valid_andthen [OF or_fail_append])
  fix ev
  have "stays_open k (emit k ev)" by (simp add: stays_open_def emit_in_phase)
  then have "stays_open k (andthen (modify f) (\<lambda>_. emit k ev))" by (intro open_rules assms(2))
  with assms(1) show "valid (\<lambda>st. in_phase (pstep Open (CAppend ev)) st \<and> EType ev = typ)
      (andthen (modify f) (\<lambda>_. emit k ev)) (\<lambda>_. in_phase Open) (returned k)"
    by (auto simp: stays_open_def valid_def)
qed simp

lemma user_message_open [open_rules]: "stays_open k (user_message k inp)"
  unfolding user_message_def by (rule append_then_emit_open) (simp_all add: ending_def)

lemma deliver_open: "stays_open k (deliver_result k eid toolID result)"
  unfolding deliver_result_def append_defs by (rule append_then_emit_open) (simp_all add: ending_def)

lemma seed_open [open_rules]: "stays_open k (seed k rc)"
  unfolding seed_def by (auto intro!: open_rules simp: ending_def)

lemma Run_returned: "in_phase Open st \<Longrightarrow> returned k (Run k rc st)"
  unfolding Run_def by (rule then_turns_returned) (intro open_rules)

lemma Continue_returned: "in_phase Open st \<Longrightarrow> returned k (Continue k rc st)"
  unfolding Continue_def by (rule then_turns_returned) (intro open_rules)

lemma ResumeConversation_returned: "in_phase Open st \<Longrightarrow> returned k (ResumeConversation k rc inp st)"
  unfolding ResumeConversation_def by (rule then_turns_returned) (intro open_rules)

lemma ResumeDelegation_returned: "in_phase Open st \<Longrightarrow> returned k (ResumeDelegation k rc res st)"
  unfolding ResumeDelegation_def by (rule then_turns_returned) (intro open_rules deliver_open)

text \<open>
  Resuming on an approval can also end without an ending event: when the executor cannot run
  approved calls, or asks again. It never leaves the protocol.
\<close>

lemma answered_returned: "valid P m Q (returned k) \<Longrightarrow> valid P m Q (answered k)"
  by (erule valid_post) (simp_all add: returned_answered)

lemma give_up_answered: "valid (in_phase Open) (give_up k ev er) Q (answered k)"
  by (simp add: valid_def give_up_def in_phase_def answered_def)

lemma resolved_result_phase:
  "valid (in_phase Open) (resolved_result k rc res)
     (\<lambda>r st. phase_in st = Open \<or> phase_in st = Denied \<and> PermissionDenied r) (answered k)"
  by (auto simp: valid_def resolved_result_def give_up_def in_phase_def answered_def Let_def
        split: approval_decision.splits option.splits prod.splits)

lemma deliver_denied:
  assumes "ph \<in> {Open, Denied}"
  shows "valid (in_phase ph) (deliver_result k eid toolID result) (\<lambda>_. in_phase ph) (answered k)"
proof -
  have "valid (in_phase ph) (andthen (modify f) (\<lambda>_. emit k ev)) (\<lambda>_. in_phase ph) (returned k)"
    if "\<And>st. phase_in (f st) = phase_in st" for ev and f :: "'w kst \<Rightarrow> 'w kst"
  proof (rule valid_andthen [of _ _ "\<lambda>_. in_phase ph"])
    show "valid (in_phase ph) (modify f) (\<lambda>_. in_phase ph) (returned k)"
      using that by (simp add: valid_def modify_def in_phase_def)
    show "valid (in_phase ph) (emit k ev) (\<lambda>_. in_phase ph) (returned k)"
      using assms by (intro emit_in_phase) auto
  qed
  moreover have "pstep ph (CAppend ev) = ph" if "EType ev = EventToolResult" for ev
    using assms that by (auto simp: ending_def)
  ultimately have "valid (\<lambda>st. in_phase (pstep ph (CAppend ev)) st \<and> EType ev = EventToolResult)
      (andthen (modify f) (\<lambda>_. emit k ev)) (\<lambda>_. in_phase ph) (returned k)"
    if "\<And>st. phase_in (f st) = phase_in st" for ev and f :: "'w kst \<Rightarrow> 'w kst"
    using that by (cases "EType ev = EventToolResult") (simp, simp add: valid_def)
  then show ?thesis
    unfolding deliver_result_def append_defs using assms
    by (auto intro!: answered_returned valid_andthen [OF or_fail_append])
qed

lemma Resume_answered:
  assumes "in_phase Open st"
  shows "answered k (Resume k rc res st)"
proof -
  let ?last = "\<lambda>result. if PermissionDenied result \<or> ApprovalMismatch result
        then finish (terminate k (TerminalPermissionDenied (PrToolID res)))
        else if AwaitingApproval result
        then give_up k None (Err (''kernel: Resume's ApprovedExecutor unexpectedly resolved AwaitingApproval for '' @ PrToolID res))
        else ret ()"
  let ?unb = "answered k"
  have last: "valid (in_phase ph) (?last result) (\<lambda>_. in_phase Open) ?unb"
    if "ph = Open \<or> ph = Denied \<and> PermissionDenied result" for ph result
  proof -
    have "?unb (terminate k (TerminalPermissionDenied (PrToolID res)) st)" if "in_phase ph st" for st
      using terminate_returns [of st] that \<open>ph = Open \<or> _\<close> by (auto simp: in_phase_def returned_answered)
    with that show ?thesis
      by (auto simp: valid_def finish_def ret_def give_up_def in_phase_def, auto simp: answered_def)
  qed
  have rest: "valid (in_phase ph) (andthen (deliver_result k (PrToolUseEventID res) (PrToolID res) result) (\<lambda>_. ?last result))
      (\<lambda>_. in_phase Open) ?unb" if "ph = Open \<or> ph = Denied \<and> PermissionDenied result" for ph result
    using that by (intro valid_andthen [OF deliver_denied] last) auto
  have "valid (\<lambda>st. phase_in st = Open \<or> phase_in st = Denied \<and> PermissionDenied result)
      (andthen (deliver_result k (PrToolUseEventID res) (PrToolID res) result) (\<lambda>_. ?last result))
      (\<lambda>_. in_phase Open) ?unb" for result
    unfolding valid_def
  proof (intro allI impI)
    fix st :: "'w kst" assume ph: "phase_in st = Open \<or> phase_in st = Denied \<and> PermissionDenied result"
    show "case andthen (deliver_result k (PrToolUseEventID res) (PrToolID res) result) (\<lambda>_. ?last result) st of
        (None, s') \<Rightarrow> ?unb s' | (Some a, s') \<Rightarrow> in_phase Open s'"
      by (rule validD [OF rest [OF ph]]) (simp add: in_phase_def)
  qed
  then have "valid (in_phase Open) (andthen (mark_running k) (\<lambda>_. andthen (resolved_result k rc res) (\<lambda>result.
      andthen (deliver_result k (PrToolUseEventID res) (PrToolID res) result) (\<lambda>_. ?last result)))) (\<lambda>_. in_phase Open) ?unb"
    by (intro valid_andthen [OF answered_returned [OF mark_running_open [unfolded stays_open_def]]] valid_andthen [OF resolved_result_phase])
  from validD [OF this assms] turns_from_returned show ?thesis
    by (auto simp: Resume_def then_turns_def runTurns_def returned_answered split: prod.splits option.splits)
qed

end

end
