(* ===== verification/Kernel_Invariants.thy ===== *)
theory Kernel_Invariants
  imports Kernel_Protocol
begin

text \<open>
  Two interfaces for reasoning about a run: a predicate of the run state that the log and
  control calls preserve (\<open>quiet_inv\<close>), and one that the model and budget calls preserve as well
  (\<open>run_inv\<close>). Each step of a turn, and each entry point, then preserves it; the kernel's theorems
  about the log, about metering and about the session's identity are instances.
\<close>

section \<open>Predicates the quiet calls preserve\<close>

text \<open>
  An event is only ever handed out after it has been appended, so a predicate need survive
  that case of a yield only.
\<close>

locale quiet_inv =
  fixes k :: "'w kernel" and I :: "'w kst \<Rightarrow> bool"
  assumes i_append: "I st \<Longrightarrow> appendEvent k typ act toolID pairRef modelID p st = (r, st') \<Longrightarrow> I st'"
    and i_shown: "I st \<Longrightarrow> CAppend ev \<in> set (Trace st) \<Longrightarrow> I (snd (yield k (Some ev) er st))"
    and i_yield: "I st \<Longrightarrow> I (snd (yield k None er st))"
    and i_status: "I st \<Longrightarrow> updateStatus k s reason st = (er, st') \<Longrightarrow> I st'"
    and i_execute: "I st \<Longrightarrow> I (snd (execute k rc tu st))"
    and i_suspended: "I st \<Longrightarrow> kRecordSuspension k req (World st) = (None, w) \<Longrightarrow>
          I (note_call (CSuspend req) (st\<lparr>World := w\<rparr>))"
    and i_suspend_fails: "I st \<Longrightarrow> kRecordSuspension k req (World st) = (Some er', w) \<Longrightarrow> I (st\<lparr>World := w\<rparr>)"
    and i_delegated: "I st \<Longrightarrow> kRecordDelegation k dreq (World st) = (None, w) \<Longrightarrow>
          I (note_call (CDelegate dreq) (st\<lparr>World := w\<rparr>))"
    and i_delegate_fails: "I st \<Longrightarrow> kRecordDelegation k dreq (World st) = (Some er', w) \<Longrightarrow> I (st\<lparr>World := w\<rparr>)"
    and i_reset: "I st \<Longrightarrow> kResetTurn k = Some f \<Longrightarrow> I (st\<lparr>World := f (World st)\<rparr>)"
    and i_hygiene: "I st \<Longrightarrow> I (st\<lparr>History := fst (Hygiene (History st))\<rparr>)"
    and i_transcript: "I st \<Longrightarrow> I (st\<lparr>Transcript := ts\<rparr>)"
    and i_stuck: "I st \<Longrightarrow> I (st\<lparr>StuckReg := g\<rparr>)"
    and i_reason: "I st \<Longrightarrow> I (st\<lparr>terminalReason := tr\<rparr>)"
    and i_uuid: "I st \<Longrightarrow> I (st\<lparr>World := snd (kNewUUID k (World st))\<rparr>)"
    and i_approved: "I st \<Longrightarrow> I (snd (resolved_result k rc pres st))"
begin

lemma i_emit: "I st \<Longrightarrow> CAppend ev \<in> set (Trace st) \<Longrightarrow> I (snd (emit k ev st))"
  using i_shown by (auto simp: emit_def split: prod.splits) (metis snd_conv)

lemma appended: "appendEvent k typ act toolID pairRef modelID p st = (Inr ev, st') \<Longrightarrow> CAppend ev \<in> set (Trace st')"
  by (auto simp: appendEvent_def split: sum.splits prod.splits)

lemma i_or_fail: "I st \<Longrightarrow> I (snd (or_fail k (appendEvent k typ act toolID pairRef modelID p) st))"
  using i_append i_yield by (auto simp: or_fail_def give_up_def split: prod.splits sum.splits)

lemma or_fail_appended:
  "or_fail k (appendEvent k typ act toolID pairRef modelID p) st = (Some ev, st') \<Longrightarrow> CAppend ev \<in> set (Trace st')"
  using appended by (auto simp: or_fail_def give_up_def split: prod.splits sum.splits)

lemma Trace_modify_snd: "Trace (f st) = Trace st \<Longrightarrow> Trace (snd (modify f st)) = Trace st"
  by (simp add: modify_def)

lemma record_keeps [valid_rules]: "keeps I (record_event k (appendEvent k typ act toolID pairRef modelID p))"
  unfolding keeps_def
proof (intro allI impI)
  fix st assume I: "I st"
  let ?a = "or_fail k (appendEvent k typ act toolID pairRef modelID p)"
  obtain r st1 where a: "?a st = (r, st1)" by fastforce
  have I1: "I st1" using i_or_fail [OF I] a by (metis snd_conv)
  show "I (snd (record_event k (appendEvent k typ act toolID pairRef modelID p) st))"
  proof (cases r)
    case None
    with a I1 show ?thesis by (simp add: record_event_def andthen_def)
  next
    case (Some ev)
    have "I (snd (emit k ev st1))" using i_emit [OF I1] or_fail_appended a Some by blast
    with a Some show ?thesis
      by (auto simp: record_event_def andthen_def ret_def split: prod.splits option.splits)
  qed
qed

lemma finish_keeps [valid_rules]: "(\<And>st. I st \<Longrightarrow> I (p st)) \<Longrightarrow> keeps I (finish p)"
  by (simp add: keeps_def finish_def)

lemma modify_keeps [valid_rules]: "(\<And>st. I st \<Longrightarrow> I (f st)) \<Longrightarrow> keeps I (modify f)"
  by (simp add: keeps_def modify_def)

lemma say_keeps [valid_rules]: "keeps I (say role blocks)"
  unfolding say_def by (intro valid_rules) (simp add: i_transcript)

lemma i_forget: "I st \<Longrightarrow> I (forget_stuck st)"
  by (simp add: forget_stuck_def i_stuck split: option.splits)

lemma Trace_updateStatus: "updateStatus k s reason st = (er, st') \<Longrightarrow> set (Trace st) \<subseteq> set (Trace st')"
  by (auto simp: updateStatus_def split: prod.splits option.splits)

lemma i_terminate:
  assumes "I st"
  shows "I (terminate k t st)"
proof -
  let ?st = "st\<lparr>terminalReason := reason_str (TReason t)\<rparr>"
  have I0: "I ?st" using assms by (rule i_reason)
  show ?thesis
  proof (cases "buildTerminalPayload t")
    case (Inl er)
    with i_yield [OF I0] show ?thesis by (simp add: terminate_def Let_def)
  next
    case (Inr p)
    obtain r st1 where app: "appendTerminal k p ?st = (r, st1)" by fastforce
    have I1: "I st1" using i_append [OF I0] app by (simp add: appendTerminal_def)
    show ?thesis
    proof (cases r)
      case (Inl er)
      with i_yield [OF I1] app Inr show ?thesis by (simp add: terminate_def Let_def)
    next
      case r: (Inr ev)
      have ev: "CAppend ev \<in> set (Trace st1)" using appended app r by (auto simp: appendTerminal_def)
      obtain er st2 where us: "updateStatus k (terminal_status t) (Some (reason_str (TReason t))) st1 = (er, st2)" by fastforce
      have I2: "I st2" using i_status [OF I1 us] .
      have ev2: "CAppend ev \<in> set (Trace st2)" using ev Trace_updateStatus [OF us] by auto
      have ev3: "CAppend ev \<in> set (Trace (forget_stuck st2))"
        using ev2 by (simp add: forget_stuck_def split: option.splits)
      show ?thesis
        using app Inr r us i_shown [OF I2 ev2] i_shown [OF i_forget [OF I2] ev3]
        by (cases er) (simp_all add: terminate_def Let_def)
    qed
  qed
qed

lemma i_streamError: "I st \<Longrightarrow> I (terminateFromStreamError k er st)"
  by (simp add: terminateFromStreamError_def i_terminate split: trigger_class.splits)

lemma i_userInput:
  assumes "I st"
  shows "I (suspendForUserInput k st)"
proof -
  obtain r st1 where app: "appendEvent k EventAwaitingInput ActorSystem None None None PAwaitingInput st = (r, st1)" by fastforce
  have I1: "I st1" using i_append [OF assms app] .
  show ?thesis
  proof (cases r)
    case (Inl er)
    with i_yield [OF I1] app show ?thesis by (simp add: suspendForUserInput_def)
  next
    case (Inr ev)
    obtain er st2 where us: "updateStatus k SessionStatusAwaitingInput None st1 = (er, st2)" by fastforce
    have I2: "I st2" using i_status [OF I1 us] .
    have "CAppend ev \<in> set (Trace st2)" using appended app Inr Trace_updateStatus [OF us] by blast
    with i_shown [OF I2] app Inr us show ?thesis by (cases er) (simp_all add: suspendForUserInput_def)
  qed
qed

lemma i_approval:
  assumes "I st"
  shows "I (suspendForApproval k eid toolID inp result st)"
proof -
  obtain r st1 where app: "appendApprovalRequested k toolID (TrReason result) (AskKind result) st = (r, st1)" by fastforce
  have I1: "I st1" using i_append [OF assms] app by (simp add: appendApprovalRequested_def)
  show ?thesis
  proof (cases r)
    case (Inl er)
    with i_yield [OF I1] app show ?thesis by (simp add: suspendForApproval_def)
  next
    case (Inr ev)
    obtain er st2 where us: "updateStatus k SessionStatusSuspended None st1 = (er, st2)" by fastforce
    have I2: "I st2" using i_status [OF I1 us] .
    have ev2: "CAppend ev \<in> set (Trace st2)"
      using appended app Inr Trace_updateStatus [OF us] by (auto simp: appendApprovalRequested_def)
    show ?thesis
      using app Inr us i_shown [OF I2 ev2] i_shown [OF i_suspended [OF I2]] i_shown [OF i_suspend_fails [OF I2]] ev2
      by (cases er) (auto simp: suspendForApproval_def Let_def split: prod.splits option.splits)
  qed
qed

lemma i_delegation:
  assumes "I st"
  shows "I (suspendForDelegation k eid toolID child st)"
proof -
  obtain r st1 where app: "appendEvent k EventDelegationRequested ActorSystem toolID None None
      (PDelegationRequested (case toolID of None \<Rightarrow> '''' | Some t \<Rightarrow> t) child) st = (r, st1)" by fastforce
  have I1: "I st1" using i_append [OF assms app] .
  show ?thesis
  proof (cases r)
    case (Inl er)
    with i_yield [OF I1] app show ?thesis by (simp add: suspendForDelegation_def Let_def)
  next
    case (Inr ev)
    obtain er st2 where us: "updateStatus k SessionStatusSuspended None st1 = (er, st2)" by fastforce
    have I2: "I st2" using i_status [OF I1 us] .
    have ev2: "CAppend ev \<in> set (Trace st2)" using appended app Inr Trace_updateStatus [OF us] by blast
    show ?thesis
      using app Inr us i_shown [OF I2 ev2] i_shown [OF i_delegated [OF I2]] i_shown [OF i_delegate_fails [OF I2]] ev2
      by (cases er) (auto simp: suspendForDelegation_def Let_def split: prod.splits option.splits)
  qed
qed

lemma keepsI: "(\<And>st. I st \<Longrightarrow> I (snd (f st))) \<Longrightarrow> keeps I f"
  by (simp add: keeps_def)

lemma hygiene_keeps [valid_rules]: "keeps I (hygiene_step k)"
proof -
  have "keeps I (backfill k s)" for s
  proof (rule keepsI)
    fix st assume I: "I st"
    show "I (snd (backfill k s st))"
      unfolding backfill_def append_defs by (rule keepsD [where I = I]) (intro valid_rules, rule I)
  qed
  then have step: "keeps I (andthen (collect (backfill k) synth) (say ''tool''))" for synth
    by (intro valid_rules)
  show ?thesis
    by (rule keepsI) (simp add: hygiene_step_def split_beta keepsD [OF step] i_hygiene)
qed

lemma prune_keeps [valid_rules]: "keeps I (prune_step k)"
proof (rule keepsI)
  fix st assume I: "I st"
  obtain view n where p: "Prune (kHex8 k) (Transcript st) (PrunePolicy k) = (view, n)" by fastforce
  have "keeps I (andthen (if n > 0 then andthen (record_event k (appendEvent k EventContextPruned ActorSystem
      None None None (PContextPruned n))) (\<lambda>_. ret ()) else ret ()) (\<lambda>_. ret view))"
    by (auto intro!: valid_rules)
  from keepsD [OF this I] p show "I (snd (prune_step k st))" by (simp add: prune_step_def)
qed

lemma output_keeps [valid_rules]:
  "keeps I (thought_step k rc opaque)"
  "keeps I (content_step k rc text)"
  "keeps I (tool_use_step k rc tu)"
  "keeps I (done_check k out)"
  unfolding thought_step_def content_step_def tool_use_step_def done_check_def append_defs
  by (auto intro!: valid_rules i_terminate)

lemma stuck_keeps [valid_rules]: "keeps I (stuck_step k tu)"
proof (rule keepsI)
  fix st assume I: "I st"
  then have I': "I (st\<lparr>StuckReg := g\<rparr>)" for g by (rule i_stuck)
  have "keeps I (andthen (record_event k (appendEvent k EventStuckSuspected ActorSystem None None None
      (PStuckSuspected reason))) (\<lambda>_. if stp then finish (terminate k (TerminalStuckTerminated reason)) else ret ()))" for reason stp
    by (auto intro!: valid_rules i_terminate)
  from keepsD [OF this I'] I I' show "I (snd (stuck_step k tu st))"
    by (simp add: stuck_step_def Let_def ret_def split: option.splits prod.splits)
qed

lemma execute_keeps [valid_rules]: "keeps I (execute k rc tu)"
  by (simp add: keeps_def i_execute)

lemma dispatch_one_keeps [valid_rules]: "keeps I (dispatch_one k rc p)"
  unfolding dispatch_one_def taint_step_def append_defs
  by (cases p) (auto intro!: valid_rules i_terminate i_approval i_delegation)

lemma dispatch_keeps [valid_rules]: "keeps I (dispatch_step k rc out evs)"
  unfolding dispatch_step_def
  by (auto intro!: valid_rules i_terminate i_userInput split: classification.splits)

lemma reset_keeps [valid_rules]: "keeps I (reset_turn k)"
  unfolding reset_turn_def by (intro valid_rules) (simp add: i_reset split: option.splits)

lemma mark_running_keeps [valid_rules]: "keeps I (mark_running k)"
  by (auto simp: keeps_def mark_running_def ret_def give_up_def split: prod.splits option.splits
        intro: i_status i_yield)

lemma append_then_emit_keeps:
  assumes "\<And>st. I st \<Longrightarrow> I (f st)" and "\<And>st. Trace (f st) = Trace st"
  shows "keeps I (andthen (or_fail k (appendEvent k typ act toolID pairRef modelID p))
           (\<lambda>ev. andthen (modify f) (\<lambda>_. emit k ev)))"
proof (rule keepsI)
  fix st assume I: "I st"
  obtain r st1 where a: "or_fail k (appendEvent k typ act toolID pairRef modelID p) st = (r, st1)" by fastforce
  have I1: "I st1" using i_or_fail [OF I] a by (metis snd_conv)
  show "I (snd (andthen (or_fail k (appendEvent k typ act toolID pairRef modelID p))
           (\<lambda>ev. andthen (modify f) (\<lambda>_. emit k ev)) st))"
    using a I1 or_fail_appended [of _ _ _ _ _ _ st] i_emit [OF assms(1) [OF I1]] assms(2)
    by (cases r) (auto simp: andthen_def modify_def)
qed

lemma user_message_keeps [valid_rules]: "keeps I (user_message k inp)"
  unfolding user_message_def by (rule append_then_emit_keeps) (simp_all add: i_transcript)

lemma deliver_keeps [valid_rules]: "keeps I (deliver_result k eid toolID result)"
  unfolding deliver_result_def append_defs by (rule append_then_emit_keeps) (simp_all add: i_transcript)

lemma resolved_keeps [valid_rules]: "keeps I (resolved_result k rc pres)"
  by (simp add: keeps_def i_approved)

lemma give_up_keeps [valid_rules]: "keeps I (give_up k None er)"
  by (simp add: keeps_def give_up_def i_yield)

lemma seed_keeps [valid_rules]: "keeps I (seed k rc)"
  unfolding seed_def by (auto intro!: valid_rules)

text \<open>
  The steps that call the model or the budget, for a predicate those calls establish from
  another one.
\<close>

lemma condense_step_to:
  assumes "\<And>covered. I (snd (condense k rc covered st))" and I: "I st"
  shows "I (snd (condense_step k rc view st))"
proof -
  obtain yes covered where sc: "ShouldCondense view (CondenseThresholdBytes k) = (yes, covered)" by fastforce
  show ?thesis
  proof (cases yes)
    case False
    with sc I show ?thesis by (simp add: condense_step_def ret_def)
  next
    case True
    obtain summary0 degraded res st1 where c: "condense k rc (take covered view) st = ((summary0, degraded, res), st1)"
      by (metis prod.exhaust)
    have I1: "I st1" using assms(1) [of "take covered view"] c by simp
    have upd: "keeps I (\<lambda>st3. (Some (f st3), st3\<lparr>Transcript := f st3\<rparr>))" for f
      by (simp add: keeps_def i_transcript)
    have fin: "keeps I (\<lambda>st2. case kNewUUID k (World st2) of (cid, w) \<Rightarrow>
        andthen (record_event k (appendEvent k ty act toolID pairRef modelID (p cid st2))) (\<lambda>_ st3. (Some (f st3), st3\<lparr>Transcript := f st3\<rparr>))
          (st2\<lparr>World := w\<rparr>))" for ty act toolID pairRef modelID p and f :: "'w kst \<Rightarrow> msg list"
    proof (rule keepsI)
      fix st2 assume "I st2"
      from i_uuid [OF this] show "I (snd (case kNewUUID k (World st2) of (cid, w) \<Rightarrow>
        andthen (record_event k (appendEvent k ty act toolID pairRef modelID (p cid st2))) (\<lambda>_ st3. (Some (f st3), st3\<lparr>Transcript := f st3\<rparr>))
          (st2\<lparr>World := w\<rparr>)))"
        by (auto split: prod.splits intro!: keepsD [of I] valid_rules upd)
    qed
    have "keeps I (andthen (record_event k (appendBudgetDecision k res)) (\<lambda>_ st2.
        let summary = (if degraded then ExtractivePass (take covered view) else summary0);
            (cid, w) = kNewUUID k (World st2);
            cond = Condense cid (last_seq (History st2)) summary in
        andthen (record_event k (appendEvent k EventCondensation ActorSystem None None None
                   (PCondensation (uuid_String (kCodec k) (CondensationID cond)) (CoveredThroughSeq cond)
                      (Summary cond) degraded)))
          (\<lambda>_ st3. let newTranscript = TextMessage ''assistant'' (''[condensed summary] '' @ summary)
                                         # drop covered (Transcript st3) in
                   (Some newTranscript, st3\<lparr>Transcript := newTranscript\<rparr>))
          (st2\<lparr>World := w\<rparr>)))"
      unfolding append_defs by (intro valid_rules fin)
    from keepsD [OF this I1] True sc c show ?thesis by (simp add: condense_step_def)
  qed
qed

lemma reserve_step_to:
  assumes "\<And>req. I (snd (reserve k req st))"
  shows "I (snd (reserve_step k rc st))"
proof -
  let ?req = "\<lparr>ReqTenant = StTenant st, ReqSession = StSession st, ReqModel = RunModelID rc, ReqPurpose = PurposeTurn\<rparr>"
  obtain res er st1 where r: "reserve k ?req st = ((res, er), st1)" by (metis prod.exhaust)
  have I1: "I st1" using assms [of ?req] r by simp
  have "keeps I (andthen (record_event k (appendBudgetDecision k res))
      (\<lambda>_. if er \<noteq> None then finish (terminate k (TerminalCostExhausted (DecReason (ResDecision res)))) else ret res))"
    unfolding append_defs by (auto intro!: valid_rules i_terminate)
  from keepsD [OF this I1] r show ?thesis by (simp add: reserve_step_def)
qed

lemma model_step_to:
  assumes "\<And>u rep p cat. I (reconcile k res u rep (snd (open_stream k p cat st)))"
  shows "I (snd (model_step k rc res view st))"
proof -
  let ?p = "fst (Build (RunSystem rc) (Catalog rc) view)"
  obtain s st1 where os: "open_stream k ?p (Catalog rc) st = (s, st1)" by fastforce
  have "I (reconcile k res u rep st1)" for u rep using assms [of u rep ?p "Catalog rc"] os by simp
  with os show ?thesis
    by (cases s) (simp_all add: model_step_def Let_def i_streamError split: prod.splits option.splits)
qed

end

section \<open>Predicates every call preserves\<close>

locale run_inv = quiet_inv +
  assumes i_reserve: "I st \<Longrightarrow> I (snd (reserve k req st))"
    and i_reconcile: "I st \<Longrightarrow> I (reconcile k res u rep st)"
    and i_stream: "I st \<Longrightarrow> I (snd (open_stream k p cat st))"
begin

lemma i_condense:
  assumes "I st"
  shows "I (snd (condense k rc covered st))"
proof -
  obtain res er st1 where r: "reserve k \<lparr>ReqTenant = StTenant st, ReqSession = StSession st,
      ReqModel = CondenserModelID rc, ReqPurpose = PurposeCompaction\<rparr> st = ((res, er), st1)"
    by (metis prod.exhaust)
  obtain s st2 where o: "open_stream k (CondensePrompt covered) [] st1 = (s, st2)" by fastforce
  have I1: "I st1" using i_reserve [OF assms] r by (metis snd_conv)
  have "I st2" using i_stream [OF I1] o by (metis snd_conv)
  with r o I1 show ?thesis
    by (cases er; cases s) (simp_all add: condense_def Let_def i_reconcile split: prod.splits)
qed

lemma reserve_keeps [valid_rules]: "keeps I (reserve_step k rc)"
  by (rule keepsI) (intro reserve_step_to i_reserve)

lemma condense_keeps [valid_rules]: "keeps I (condense_step k rc view)"
  by (rule keepsI) (intro condense_step_to i_condense)

lemma model_keeps [valid_rules]: "keeps I (model_step k rc res view)"
  by (rule keepsI) (intro model_step_to i_reconcile i_stream)

lemma turn_keeps [valid_rules]: "keeps I (turn k rc)"
  unfolding turn_def by (intro valid_rules)

lemma i_turns: "I st \<Longrightarrow> I (turns_from k rc n st)"
proof (induction "nat (max_turns rc + 1 - n)" arbitrary: n st rule: less_induct)
  case less
  show ?case
  proof (cases "n > max_turns rc")
    case True
    with less.prems show ?thesis by (subst turns_from.simps) (simp add: i_terminate)
  next
    case False
    obtain r st' where t: "turn k rc st = (r, st')" by fastforce
    have "I st'" using keepsD [OF turn_keeps less.prems] t by (metis snd_conv)
    with False t less.hyps [of "n + 1" st'] show ?thesis
      by (subst turns_from.simps) (auto split: option.splits)
  qed
qed

lemma i_then_turns: "keeps I m \<Longrightarrow> I st \<Longrightarrow> I (then_turns k rc m st)"
  using i_turns [of _ rc 1]
  by (fastforce simp: then_turns_def runTurns_def keeps_def split: prod.splits option.splits)

lemma i_entry_points:
  assumes "I st"
  shows "I (Run k rc st)" "I (Seed k rc st)" "I (Continue k rc st)" "I (ResumeConversation k rc inp st)"
    "I (ResumeDelegation k rc dres st)" "I (Resume k rc pres st)"
proof -
  show "I (Seed k rc st)" using keepsD [OF seed_keeps assms] by (simp add: Seed_def)
  show "I (Run k rc st)" "I (Continue k rc st)" "I (ResumeConversation k rc inp st)" "I (ResumeDelegation k rc dres st)"
    unfolding Run_def Continue_def ResumeConversation_def ResumeDelegation_def
    by (rule i_then_turns [OF _ assms], intro valid_rules)+
  show "I (Resume k rc pres st)"
    unfolding Resume_def
    by (rule i_then_turns [OF _ assms]) (auto intro!: valid_rules i_terminate)
qed

end

end
