(* ===== verification/Inmem_Log.thy ===== *)
theory Inmem_Log
  imports Kernel_Invariants
begin

text \<open>
  The in-memory event log (\<^verbatim>\<open>internal/eventlog/inmem/log.go\<close>), the adapter of the kernel's log port
  that needs no database. It meets the port's contract with any provider, tool executor,
  budget gate and consumer beside it, so the kernel's theorems hold of runs over it.
\<close>

section \<open>The adapter\<close>

record log_status =
  StatusValue :: session_status
  StatusReason :: "string option"

record inmem_log =
  FailAppend :: "(event \<Rightarrow> err option) option"
  l_events :: "uuid \<Rightarrow> event list"
  l_status :: "uuid \<rightharpoonup> log_status"
  l_suspensions :: "suspend_request list"
  l_delegations :: "delegate_suspend_request list"

definition New_log :: inmem_log where
  "New_log = \<lparr>FailAppend = None, l_events = (\<lambda>_. []), l_status = Map.empty, l_suspensions = [], l_delegations = []\<rparr>"

text \<open>\<open>now\<close> is the clock's reading.\<close>

definition log_Append :: "timestamp \<Rightarrow> event \<Rightarrow> inmem_log \<Rightarrow> (err + event) \<times> inmem_log" where
  "log_Append now e l =
     (case (case FailAppend l of None \<Rightarrow> None | Some f \<Rightarrow> f e) of
        Some er \<Rightarrow> (Inl er, l)
      | None \<Rightarrow>
          (let e' = e\<lparr>Seq := int (length (l_events l (SessionID e))) + 1, CreatedAt := now\<rparr>
           in (Inr e', l\<lparr>l_events := (l_events l)(SessionID e := l_events l (SessionID e) @ [e'])\<rparr>)))"

definition log_SetStatus ::
    "uuid \<Rightarrow> uuid \<Rightarrow> session_status \<Rightarrow> string option \<Rightarrow> inmem_log \<Rightarrow> err option \<times> inmem_log" where
  "log_SetStatus tenantID sessionID status reason l =
     (None, l\<lparr>l_status := (l_status l)(sessionID \<mapsto> \<lparr>StatusValue = status, StatusReason = reason\<rparr>)\<rparr>)"

definition log_RecordSuspension :: "suspend_request \<Rightarrow> inmem_log \<Rightarrow> err option \<times> inmem_log" where
  "log_RecordSuspension req l = (None, l\<lparr>l_suspensions := l_suspensions l @ [req]\<rparr>)"

definition log_RecordDelegation :: "delegate_suspend_request \<Rightarrow> inmem_log \<Rightarrow> err option \<times> inmem_log" where
  "log_RecordDelegation req l = (None, l\<lparr>l_delegations := l_delegations l @ [req]\<rparr>)"

definition log_Events :: "inmem_log \<Rightarrow> uuid \<Rightarrow> event list" where
  "log_Events l sessionID = l_events l sessionID"

definition log_Status :: "inmem_log \<Rightarrow> uuid \<Rightarrow> log_status option" where
  "log_Status l sessionID = l_status l sessionID"

definition log_Suspensions :: "inmem_log \<Rightarrow> suspend_request list" where
  "log_Suspensions l = l_suspensions l"

definition log_Delegations :: "inmem_log \<Rightarrow> delegate_suspend_request list" where
  "log_Delegations l = l_delegations l"

section \<open>A kernel over the adapter\<close>

text \<open>
  \<open>beside f\<close> runs a port of the rest of the world, leaving the log alone; \<open>on_log\<close> runs the log.
  \<open>over_inmem clock k\<close> is the kernel \<open>k\<close> with the in-memory log for its log port.
\<close>

definition beside :: "('v \<Rightarrow> 'r \<times> 'v) \<Rightarrow> inmem_log \<times> 'v \<Rightarrow> 'r \<times> (inmem_log \<times> 'v)" where
  "beside f w = (case f (snd w) of (r, v) \<Rightarrow> (r, (fst w, v)))"

definition on_log :: "(inmem_log \<Rightarrow> 'r \<times> inmem_log) \<Rightarrow> inmem_log \<times> 'v \<Rightarrow> 'r \<times> (inmem_log \<times> 'v)" where
  "on_log f w = (case f (fst w) of (r, l) \<Rightarrow> (r, (l, snd w)))"

definition over_inmem :: "('v \<Rightarrow> timestamp) \<Rightarrow> 'v kernel \<Rightarrow> (inmem_log \<times> 'v) kernel" where
  "over_inmem clock k =
     \<lparr>kProvider = (\<lambda>w p ts rcx. beside (\<lambda>v. kProvider k v p ts rcx) w),
      kExecute = (\<lambda>tu ec. beside (kExecute k tu ec)),
      kExecuteApproved = map_option (\<lambda>f tu dig ec. beside (f tu dig ec)) (kExecuteApproved k),
      kResetTurn = map_option (\<lambda>f w. (fst w, f (snd w))) (kResetTurn k),
      kReserve = (\<lambda>req. beside (kReserve k req)),
      kReconcile = (\<lambda>res u rep. beside (kReconcile k res u rep)),
      kAppend = (\<lambda>e w. on_log (log_Append (clock (snd w)) e) w),
      kSetStatus = (\<lambda>ten ses s r. on_log (log_SetStatus ten ses s r)),
      kRecordSuspension = (\<lambda>req. on_log (log_RecordSuspension req)),
      kRecordDelegation = (\<lambda>req. on_log (log_RecordDelegation req)),
      kSeal = (\<lambda>b. beside (kSeal k b)),
      kNewUUID = beside (kNewUUID k),
      kYield = (\<lambda>ev er. beside (kYield k ev er)),
      kCodec = kCodec k, kSha = kSha k, kHex8 = kHex8 k,
      PrunePolicy = PrunePolicy k, CondenseThresholdBytes = CondenseThresholdBytes k\<rparr>"

lemma log_Events_events: "log_Events = l_events"
  by (simp add: log_Events_def fun_eq_iff)

lemma beside_log [simp]: "fst (snd (beside f w)) = fst w"
  by (simp add: beside_def split: prod.splits)

lemma fst_beside [simp]: "fst (beside f w) = fst (f (snd w))"
  by (simp add: beside_def split: prod.splits)

interpretation inmem: log_port "over_inmem clock k" "\<lambda>w. log_Events (fst w)"
proof
  fix e ev w w'
  assume "kAppend (over_inmem clock k) e w = (Inr ev, w')"
  then show "log_Events (fst w') = (log_Events (fst w))(SessionID e := log_Events (fst w) (SessionID e) @ [ev])"
    and "\<exists>t. ev = e\<lparr>Seq := int (length (log_Events (fst w) (SessionID e))) + 1, CreatedAt := t\<rparr>"
    by (auto simp: over_inmem_def on_log_def log_Append_def log_Events_events Let_def split: prod.splits option.splits)
next
  fix e er w w'
  assume "kAppend (over_inmem clock k) e w = (Inl er, w')"
  then show "log_Events (fst w') = log_Events (fst w)"
    by (auto simp: over_inmem_def on_log_def log_Append_def Let_def split: prod.splits option.splits)
qed (auto simp: over_inmem_def on_log_def log_SetStatus_def log_RecordSuspension_def log_RecordDelegation_def
       log_Events_events)

end
