(* ===== verification/Kernel_Log.thy ===== *)
theory Kernel_Log
  imports Inmem_Log
begin

text \<open>
  The kernel and its log: every event handed to the consumer was appended before, the events a
  run appends stand in the session's log in that order, nothing follows an ending event, and
  a run over ports that do not fail reaches one. The predicate instances of \<open>run_inv\<close> for the
  in-memory log are here too.
\<close>

section \<open>The entry points\<close>

text \<open>The calls a surface can make on a kernel, with their arguments.\<close>

datatype entry =
    DoRun | DoSeed | DoContinue
  | DoResume pending_resolution
  | DoResumeDelegation delegation_resolution
  | DoResumeConversation string

fun enter :: "entry \<Rightarrow> 'w kernel \<Rightarrow> run_config \<Rightarrow> 'w kst \<Rightarrow> 'w kst" where
  "enter DoRun k rc = Run k rc"
| "enter DoSeed k rc = Seed k rc"
| "enter DoContinue k rc = Continue k rc"
| "enter (DoResume res) k rc = Resume k rc res"
| "enter (DoResumeDelegation res) k rc = ResumeDelegation k rc res"
| "enter (DoResumeConversation inp) k rc = ResumeConversation k rc inp"

context run_inv
begin

lemma i_enter: "I st \<Longrightarrow> I (enter en k rc st)"
  by (cases en) (simp_all add: i_entry_points)

end

context log_port
begin

lemma Seed_unbroken: "in_phase Open st \<Longrightarrow> phase_in (Seed k rc st) \<noteq> Broken"
  using stays_openD [OF seed_open, of st rc]
  by (auto simp: Seed_def good_def returned_def in_phase_def split: prod.splits option.splits)

lemma enter_unbroken:
  assumes "Trace st = []"
  shows "phase_of (Trace (enter en k rc st)) \<noteq> Broken"
proof -
  have "in_phase Open st" using assms by (simp add: in_phase_def phase_in_def)
  then have "phase_in (enter en k rc st) \<noteq> Broken"
    using Run_returned Continue_returned ResumeConversation_returned ResumeDelegation_returned
      Seed_unbroken Resume_answered
    by (cases en) (auto simp: returned_def answered_def)
  then show ?thesis by (simp add: phase_in_def)
qed

lemma enter_answered:
  assumes "Trace st = []" and "en \<noteq> DoSeed"
  shows "answered k (enter en k rc st)"
proof -
  have "in_phase Open st" using assms by (simp add: in_phase_def phase_in_def)
  with Run_returned Continue_returned ResumeConversation_returned ResumeDelegation_returned Resume_answered
  show ?thesis using assms by (cases en) (simp_all add: returned_answered)
qed

lemma enter_closes:
  assumes "Trace st = []" and "en \<in> {DoRun, DoContinue}" and "healthy k"
  shows "phase_in (enter en k rc st) = Closed"
proof -
  have "in_phase Open st" using assms by (simp add: in_phase_def phase_in_def)
  with Run_returned Continue_returned assms show ?thesis by (auto simp: returned_answered)
qed

end

section \<open>Shown only what is logged\<close>

fun appended_event :: "call \<Rightarrow> event option" where
  "appended_event (CAppend e) = Some e"
| "appended_event _ = None"

definition appended_events :: "call list \<Rightarrow> event list" where
  "appended_events cs = List.map_filter appended_event cs"

lemma appended_events_snoc [simp]:
  "appended_events [] = []"
  "appended_events (cs @ [c]) = appended_events cs @ (case appended_event c of None \<Rightarrow> [] | Some e \<Rightarrow> [e])"
  by (simp_all add: appended_events_def List.map_filter_def split: option.splits)

text \<open>\<open>shown_ok cs\<close>: an event is yielded only after it has been appended.\<close>

fun shown_call :: "call list \<Rightarrow> call \<Rightarrow> bool" where
  "shown_call cs (CYield (Some ev) er) = (CAppend ev \<in> set cs)"
| "shown_call cs _ = True"

definition shown_ok :: "call list \<Rightarrow> bool" where
  "shown_ok cs \<longleftrightarrow> (\<forall>xs c ys. cs = xs @ c # ys \<longrightarrow> shown_call xs c)"

lemma shown_ok_Nil [simp]: "shown_ok []"
  by (simp add: shown_ok_def)

lemma shown_ok_snoc [simp]: "shown_ok (cs @ [c]) \<longleftrightarrow> shown_ok cs \<and> shown_call cs c"
proof
  assume all: "shown_ok (cs @ [c])"
  show "shown_ok cs \<and> shown_call cs c"
    unfolding shown_ok_def
  proof (intro conjI allI impI)
    fix xs d ys assume "cs = xs @ d # ys"
    then have "cs @ [c] = xs @ d # (ys @ [c])" by simp
    with all show "shown_call xs d" unfolding shown_ok_def by blast
  qed (use all in \<open>auto simp: shown_ok_def\<close>)
next
  assume cs: "shown_ok cs \<and> shown_call cs c"
  show "shown_ok (cs @ [c])"
    unfolding shown_ok_def
  proof (intro allI impI)
    fix xs d ys assume eq: "cs @ [c] = xs @ d # ys"
    show "shown_call xs d"
    proof (cases ys rule: rev_cases)
      case Nil
      with eq cs show ?thesis by simp
    next
      case (snoc zs z)
      with eq have "cs = xs @ d # zs" by simp
      with cs show ?thesis unfolding shown_ok_def by blast
    qed
  qed
qed

definition shown_inv :: "('w \<Rightarrow> uuid \<Rightarrow> event list) \<Rightarrow> uuid \<Rightarrow> 'w kst \<Rightarrow> bool" where
  "shown_inv log ses st \<longleftrightarrow>
     StSession st = ses \<and> shown_ok (Trace st) \<and> subseq (appended_events (Trace st)) (log (World st) ses)"

lemma shown_inv_grow:
  assumes "shown_inv log ses st" and "prefix (log (World st) ses) (log w ses)"
  shows "shown_inv log ses (st\<lparr>World := w\<rparr>)"
  using assms unfolding shown_inv_def
  by (auto intro: subseq_order.trans prefix_imp_subseq)

lemma shown_inv_same:
  assumes "shown_inv log ses st" and "StSession st' = StSession st" and "Trace st' = Trace st" and "World st' = World st"
  shows "shown_inv log ses st'"
  using assms by (simp add: shown_inv_def)

lemma shown_inv_note:
  assumes "shown_inv log ses st" and "appended_event c = None" and "shown_call (Trace st) c"
  shows "shown_inv log ses (note_call c st)"
  using assms by (simp add: shown_inv_def) (simp add: note_call_def)

context log_port
begin

lemma shown_run_inv: "run_inv k (shown_inv log ses)"
proof
  fix st ty act toolID pairRef modelID p r st'
  assume I: "shown_inv log ses st" and app: "appendEvent k ty act toolID pairRef modelID p st = (r, st')"
  from app show "shown_inv log ses st'"
  proof (cases rule: appendEvent_cases)
    case (fails er w)
    with shown_inv_grow [OF I, of w] show ?thesis by simp
  next
    case (appends ev w)
    then obtain l where "log w ses = l @ [ev]" "prefix (log (World st) ses) l"
      using I by (auto simp: shown_inv_def)
    with I appends show ?thesis
      by (auto simp: shown_inv_def note_call_def intro: subseq_order.trans prefix_imp_subseq)
  qed
next
  fix st ev er assume I: "shown_inv log ses st" and "CAppend ev \<in> set (Trace st)"
  with yield_log [of "World st" ses "Some ev" er] show "shown_inv log ses (snd (yield k (Some ev) er st))"
    by (auto simp: yield_def intro!: shown_inv_note shown_inv_grow split: prod.splits)
next
  fix st er assume "shown_inv log ses st"
  with yield_log [of "World st" ses None er] show "shown_inv log ses (snd (yield k None er st))"
    by (auto simp: yield_def intro!: shown_inv_note shown_inv_grow split: prod.splits)
next
  fix st s reason er st' assume "shown_inv log ses st" and "updateStatus k s reason st = (er, st')"
  with status_log [of "StTenant st" "StSession st" s reason "World st"] show "shown_inv log ses st'"
    by (auto simp: updateStatus_def intro!: shown_inv_note shown_inv_grow split: prod.splits option.splits)
next
  fix st rc tu assume "shown_inv log ses st"
  with execute_log [of "World st" ses tu] show "shown_inv log ses (snd (execute k rc tu st))"
    by (auto simp: execute_def intro!: shown_inv_note shown_inv_grow split: prod.splits) (metis snd_conv)
next
  fix st req w assume "shown_inv log ses st" and "kRecordSuspension k req (World st) = (None, w)"
  with suspension_log [of req "World st"] show "shown_inv log ses (note_call (CSuspend req) (st\<lparr>World := w\<rparr>))"
    by (auto intro!: shown_inv_note shown_inv_grow)
next
  fix st req er' w assume "shown_inv log ses st" and "kRecordSuspension k req (World st) = (Some er', w)"
  with suspension_log [of req "World st"] show "shown_inv log ses (st\<lparr>World := w\<rparr>)"
    by (auto intro!: shown_inv_grow)
next
  fix st dreq w assume "shown_inv log ses st" and "kRecordDelegation k dreq (World st) = (None, w)"
  with delegation_log [of dreq "World st"] show "shown_inv log ses (note_call (CDelegate dreq) (st\<lparr>World := w\<rparr>))"
    by (auto intro!: shown_inv_note shown_inv_grow)
next
  fix st dreq er' w assume "shown_inv log ses st" and "kRecordDelegation k dreq (World st) = (Some er', w)"
  with delegation_log [of dreq "World st"] show "shown_inv log ses (st\<lparr>World := w\<rparr>)"
    by (auto intro!: shown_inv_grow)
next
  fix st f assume "shown_inv log ses st" and "kResetTurn k = Some f"
  with reset_log [of f "World st" ses] show "shown_inv log ses (st\<lparr>World := f (World st)\<rparr>)"
    by (auto intro!: shown_inv_grow)
next
  fix st req assume "shown_inv log ses st"
  with reserve_log [of "World st" ses req] show "shown_inv log ses (snd (reserve k req st))"
    by (auto simp: reserve_def intro!: shown_inv_note shown_inv_grow split: prod.splits)
next
  fix st res u rep assume "shown_inv log ses st"
  with reconcile_log [of "World st" ses res u rep] show "shown_inv log ses (reconcile k res u rep st)"
    by (auto simp: reconcile_def intro!: shown_inv_note shown_inv_grow)
next
  fix st p cat assume "shown_inv log ses st"
  with stream_log [of "World st" ses p cat] show "shown_inv log ses (snd (open_stream k p cat st))"
    by (auto simp: open_stream_def intro!: shown_inv_note shown_inv_grow split: prod.splits) (metis snd_conv)
next
  fix st assume "shown_inv log ses st"
  with uuid_log [of "World st" ses] show "shown_inv log ses (st\<lparr>World := snd (kNewUUID k (World st))\<rparr>)"
    by (auto intro!: shown_inv_grow)
next
  fix st rc pres assume I: "shown_inv log ses st"
  show "shown_inv log ses (snd (resolved_result k rc pres st))"
    using I approved_log [of _ "World st" ses] yield_log [of "World st" ses]
    by (auto simp: resolved_result_def give_up_def yield_def Let_def intro!: shown_inv_note shown_inv_grow
          split: approval_decision.splits option.splits prod.splits) (metis snd_conv)+
qed (erule shown_inv_same; simp)+

end

interpretation shown: run_inv "over_inmem clock k" "shown_inv (\<lambda>w. log_Events (fst w)) ses"
  by (rule inmem.shown_run_inv)

end
