(* ===== verification/Kernel_Metering.thy ===== *)
theory Kernel_Metering
  imports Kernel_Log
begin

text \<open>
  Metering discipline of the loop. The meter is a stack automaton over the calls: a granted
  reservation is pushed, a model call needs one and must be reconciled, with that very
  reservation, before anything else happens. The lemmas take every entry point through it,
  and bound the number of model calls by the turn limit.
\<close>

section \<open>The meter\<close>

type_synonym meter = "(reservation list \<times> bool) option"

fun mstep :: "meter \<Rightarrow> call \<Rightarrow> meter" where
  "mstep None c = None"
| "mstep (Some (stk, streaming)) (CReserve req res er) =
     (if streaming then None else Some (if er = None then res # stk else stk, False))"
| "mstep (Some (stk, streaming)) (CStream p h) = (if streaming \<or> stk = [] then None else Some (stk, True))"
| "mstep (Some (stk, streaming)) (CReconcile res u rep) =
     (if streaming \<and> stk \<noteq> [] \<and> hd stk = res then Some (tl stk, False) else None)"
| "mstep (Some (stk, streaming)) _ = (if streaming then None else Some (stk, False))"

definition meter_of :: "call list \<Rightarrow> meter" where
  "meter_of cs = foldl mstep (Some ([], False)) cs"

lemma meter_of_snoc [simp]: "meter_of [] = Some ([], False)" "meter_of (cs @ [c]) = mstep (meter_of cs) c"
  by (simp_all add: meter_of_def)

definition metered :: "reservation list \<Rightarrow> 'w kst \<Rightarrow> bool" where
  "metered stk st \<longleftrightarrow> meter_of (Trace st) = Some (stk, False)"

lemma metered_updates [simp]:
  "metered stk (st\<lparr>World := w\<rparr>) = metered stk st"
  "metered stk (st\<lparr>History := h\<rparr>) = metered stk st"
  "metered stk (st\<lparr>Transcript := t\<rparr>) = metered stk st"
  "metered stk (st\<lparr>StuckReg := g\<rparr>) = metered stk st"
  "metered stk (st\<lparr>terminalReason := r\<rparr>) = metered stk st"
  by (simp_all add: metered_def)

text \<open>The calls of the log, the consumer and the tools do not touch the meter.\<close>

lemma quiet_metered:
  fixes k :: "'w kernel"
  shows "quiet_inv k (metered stk)"
proof
  fix st ty act toolID pairRef modelID p r st'
  assume "metered stk st" and "appendEvent k ty act toolID pairRef modelID p st = (r, st')"
  then show "metered stk st'"
    by (auto simp: appendEvent_def metered_def split: sum.splits prod.splits)
next
  fix st s reason er st' assume "metered stk st" and "updateStatus k s reason st = (er, st')"
  then show "metered stk st'" by (auto simp: updateStatus_def metered_def split: prod.splits option.splits)
next
  fix st :: "'w kst" and rc pres assume "metered stk st"
  then show "metered stk (snd (resolved_result k rc pres st))"
    by (auto simp: resolved_result_def give_up_def yield_def metered_def Let_def
          split: approval_decision.splits option.splits prod.splits)
qed (auto simp: yield_def execute_def metered_def split: prod.splits)

text \<open>A step that a run over healthy ports does not return from.\<close>

definition goes_on :: "'w kernel \<Rightarrow> ('w kst, 'a) act \<Rightarrow> bool" where
  "goes_on k m \<longleftrightarrow> (healthy k \<longrightarrow> (\<forall>st. fst (m st) \<noteq> None))"

lemma goes_on_ret [valid_rules]: "goes_on k (ret a)"
  by (simp add: goes_on_def ret_def)

lemma goes_on_andthen [valid_rules]: "goes_on k m \<Longrightarrow> (\<And>a. goes_on k (f a)) \<Longrightarrow> goes_on k (andthen m f)"
  unfolding goes_on_def
proof (intro impI allI)
  fix st assume h: "healthy k"
    and m: "healthy k \<longrightarrow> (\<forall>st. fst (m st) \<noteq> None)" and f: "\<And>a. healthy k \<longrightarrow> (\<forall>st. fst (f a st) \<noteq> None)"
  obtain r st' where r: "m st = (r, st')" by fastforce
  with h m have "r \<noteq> None" by (metis fst_conv)
  with r h f show "fst (andthen m f st) \<noteq> None" by (auto simp: andthen_def)
qed

lemma goes_on_record [valid_rules]: "goes_on k (record_event k (appendEvent k ty act toolID pairRef modelID p))"
  unfolding goes_on_def
proof (intro impI allI)
  fix st assume h: "healthy k"
  then have "\<not> isl (fst (appendEvent k ty act toolID pairRef modelID p st))"
    by (auto simp: healthy_def appendEvent_def split: sum.splits prod.splits) (metis fst_conv isl_def)+
  moreover have "fst (emit k ev st') \<noteq> None" for ev st'
    using h by (auto simp: healthy_def emit_def yield_def split: prod.splits) (metis fst_conv)
  ultimately show "fst (record_event k (appendEvent k ty act toolID pairRef modelID p) st) \<noteq> None"
    by (auto simp: record_event_def andthen_def or_fail_def ret_def split: prod.splits sum.splits option.splits)
       (metis fst_conv option.distinct(1))+
qed

text \<open>What the meter shows when the iterator has returned.\<close>

definition settled :: "'w kernel \<Rightarrow> 'w kst \<Rightarrow> bool" where
  "settled k st \<longleftrightarrow> (\<exists>stk. metered stk st \<and> (if healthy k then stk = [] else length stk \<le> 1))"

lemma settled_Nil: "metered [] st \<Longrightarrow> settled k st"
  unfolding settled_def by (rule exI [of _ "[]"]) simp

lemma quiet_settles:
  fixes m :: "('w kst, 'a) act"
  assumes "keeps (metered stk) m" and "length stk \<le> 1" and "stk = [] \<or> goes_on k m"
  shows "valid (metered stk) m (\<lambda>_. metered stk) (settled k)"
  unfolding valid_def
proof (intro allI impI)
  fix st :: "'w kst" assume "metered stk st"
  with assms(1) have keep: "metered stk (snd (m st))" by (simp add: keeps_def)
  obtain r st' where m: "m st = (r, st')" by fastforce
  have "settled k st'" if "r = None"
  proof -
    have "\<not> healthy k \<or> stk = []" using assms(3) m that by (auto simp: goes_on_def dest: spec [of _ st])
    with keep m assms(2) show ?thesis unfolding settled_def by (intro exI [of _ stk]) auto
  qed
  with keep m show "case m st of (Some a, st') \<Rightarrow> metered stk st' | (None, st') \<Rightarrow> settled k st'"
    by (auto split: option.splits)
qed

interpretation meter: quiet_inv k "metered stk"
  by (rule quiet_metered)

text \<open>The turn's steps before the model call run with the reservation on the stack.\<close>

lemma reserve_meters:
  fixes k :: "'w kernel"
  shows "valid (metered []) (reserve_step k rc) (\<lambda>res. metered [res]) (settled k)"
  unfolding valid_def
proof (intro allI impI)
  fix st :: "'w kst" assume st: "metered [] st"
  let ?req = "\<lparr>ReqTenant = StTenant st, ReqSession = StSession st, ReqModel = RunModelID rc, ReqPurpose = PurposeTurn\<rparr>"
  obtain res er st1 where r: "reserve k ?req st = ((res, er), st1)" by (metis prod.exhaust)
  show "case reserve_step k rc st of (None, s') \<Rightarrow> settled k s' | (Some res, s') \<Rightarrow> metered [res] s'"
  proof (cases er)
    case None
    have st1: "metered [res] st1" using st r None by (auto simp: reserve_def metered_def split: prod.splits)
    have "valid (metered [res]) (record_event k (appendBudgetDecision k res)) (\<lambda>_. metered [res]) (settled k)"
      unfolding append_defs by (rule quiet_settles) (auto intro: valid_rules meter.record_keeps)
    then have "valid (metered [res]) (andthen (record_event k (appendBudgetDecision k res)) (\<lambda>_. ret res))
        (\<lambda>a st. a = res \<and> metered [res] st) (settled k)"
      by (rule valid_andthen) (simp add: valid_def ret_def)
    from validD [OF this st1] r None show ?thesis
      by (auto simp: reserve_step_def split: prod.splits option.splits)
  next
    case (Some e)
    have st1: "metered [] st1" using st r Some by (auto simp: reserve_def metered_def split: prod.splits)
    have "keeps (metered []) (andthen (record_event k (appendBudgetDecision k res))
        (\<lambda>_. finish (terminate k (TerminalCostExhausted (DecReason (ResDecision res))))) :: ('w kst, reservation) act)"
      unfolding append_defs by (auto intro!: keeps_andthen meter.record_keeps meter.finish_keeps meter.i_terminate)
    from keepsD [OF this st1] r Some have "metered [] (snd (reserve_step k rc st))"
      by (simp add: reserve_step_def)
    then have "settled k (snd (reserve_step k rc st))" by (rule settled_Nil)
    moreover have "fst (reserve_step k rc st) = None"
      using r Some by (auto simp: reserve_step_def andthen_def finish_def split: prod.splits option.splits)
    ultimately show ?thesis by (auto split: prod.splits option.splits)
  qed
qed

lemma stream_meters:
  "metered (r # stk) st \<Longrightarrow> meter_of (Trace (snd (open_stream k p cat st))) = Some (r # stk, True)"
  by (simp add: open_stream_def metered_def split: prod.splits)

lemma condense_meters:
  fixes k :: "'w kernel"
  assumes "metered stk st"
  shows "metered stk (snd (condense k rc covered st))"
proof -
  let ?req = "\<lparr>ReqTenant = StTenant st, ReqSession = StSession st, ReqModel = CondenserModelID rc,
      ReqPurpose = PurposeCompaction\<rparr>"
  obtain res er st1 where r: "reserve k ?req st = ((res, er), st1)" by (metis prod.exhaust)
  show ?thesis
  proof (cases er)
    case (Some e)
    with r assms show ?thesis by (auto simp: condense_def reserve_def metered_def split: prod.splits)
  next
    case None
    obtain s st2 where o: "open_stream k (CondensePrompt covered) [] st1 = (s, st2)" by fastforce
    have "metered (res # stk) st1" using r None assms by (auto simp: reserve_def metered_def split: prod.splits)
    from stream_meters [OF this] o have "meter_of (Trace st2) = Some (res # stk, True)" by (metis snd_conv)
    then have "metered stk (reconcile k res u rep st2)" for u rep by (simp add: reconcile_def metered_def)
    with r o None show ?thesis
      by (cases s) (simp_all add: condense_def Let_def split: prod.splits)
  qed
qed


lemma condense_step_goes_on:
  fixes k :: "'w kernel"
  shows "goes_on k (condense_step k rc view)"
  unfolding goes_on_def
proof (intro impI allI)
  fix st :: "'w kst" assume h: "healthy k"
  obtain yes covered where sc: "ShouldCondense view (CondenseThresholdBytes k) = (yes, covered)" by fastforce
  obtain summary0 degraded res st1 where c: "condense k rc (take covered view) st = ((summary0, degraded, res), st1)"
    by (metis prod.exhaust)
  have upd: "goes_on k (\<lambda>st3. (Some (f st3), g st3))" for f :: "'w kst \<Rightarrow> msg list" and g by (simp add: goes_on_def)
  have fin: "goes_on k (\<lambda>st2. case kNewUUID k (World st2) of (cid, w) \<Rightarrow>
      andthen (record_event k (appendEvent k ty act toolID pairRef modelID (p cid st2))) (\<lambda>_ st3. (Some (f st3), g st3))
        (st2\<lparr>World := w\<rparr>))" for ty act toolID pairRef modelID p and f :: "'w kst \<Rightarrow> msg list" and g
    unfolding goes_on_def
  proof (intro impI allI)
    fix st2 :: "'w kst"
    have "goes_on k (andthen (record_event k (appendEvent k ty act toolID pairRef modelID (p cid st2)))
        (\<lambda>_ st3. (Some (f st3), g st3)))" for cid
      by (rule goes_on_andthen [OF goes_on_record upd])
    with h show "fst (case kNewUUID k (World st2) of (cid, w) \<Rightarrow>
      andthen (record_event k (appendEvent k ty act toolID pairRef modelID (p cid st2))) (\<lambda>_ st3. (Some (f st3), g st3))
        (st2\<lparr>World := w\<rparr>)) \<noteq> None"
      by (simp add: goes_on_def split: prod.splits)
  qed
  have "goes_on k (andthen (record_event k (appendBudgetDecision k res)) (\<lambda>_ st2.
      let summary = (if degraded then ExtractivePass (take covered view) else summary0);
          (cid, w) = kNewUUID k (World st2);
          cond = Condense cid (last_seq (History st2)) summary in
      andthen (record_event k (appendEvent k EventCondensation ActorSystem None None None
                 (PCondensation (uuid_String (kCodec k) (CondensationID cond)) (CoveredThroughSeq cond)
                    (Summary cond) degraded)))
        (\<lambda>_ st3. let newTranscript = TextMessage ''assistant'' (''[condensed summary] '' @ summary)
                                       # drop covered (Transcript st3) in
                 (Some newTranscript, st3\<lparr>Transcript := newTranscript\<rparr>))
        (st2\<lparr>World := w\<rparr>)))"
    unfolding append_defs by (intro valid_rules fin)
  with h sc c show "fst (condense_step k rc view st) \<noteq> None"
    by (cases yes) (simp_all add: condense_step_def goes_on_def ret_def)
qed

lemma prune_step_goes_on:
  fixes k :: "'w kernel"
  shows "goes_on k (prune_step k)"
  unfolding goes_on_def
proof (intro impI allI)
  fix st :: "'w kst" assume h: "healthy k"
  obtain view n where p: "Prune (kHex8 k) (Transcript st) (PrunePolicy k) = (view, n)" by fastforce
  have "goes_on k (andthen (if n > 0 then andthen (record_event k (appendEvent k EventContextPruned ActorSystem
      None None None (PContextPruned n))) (\<lambda>_. ret ()) else ret ()) (\<lambda>_. ret view))"
    by (auto intro!: valid_rules)
  with h p show "fst (prune_step k st) \<noteq> None" by (simp add: prune_step_def goes_on_def)
qed

lemma model_meters:
  fixes k :: "'w kernel"
  shows "valid (metered [res]) (model_step k rc res view) (\<lambda>_. metered []) (settled k)"
  unfolding valid_def
proof (intro allI impI)
  fix st :: "'w kst" assume st: "metered [res] st"
  let ?p = "fst (Build (RunSystem rc) (Catalog rc) view)"
  obtain s st1 where os: "open_stream k ?p (Catalog rc) st = (s, st1)" by fastforce
  have "meter_of (Trace st1) = Some ([res], True)" using stream_meters [OF st] os by (metis snd_conv)
  then have rec: "metered [] (reconcile k res u rep st1)" for u rep by (simp add: reconcile_def metered_def)
  then show "case model_step k rc res view st of (None, s') \<Rightarrow> settled k s' | (Some out, s') \<Rightarrow> metered [] s'"
    using os by (cases s) (auto simp: model_step_def Let_def intro!: settled_Nil meter.i_streamError
      split: prod.splits option.splits)
qed

lemma turn_meters:
  fixes k :: "'w kernel"
  shows "valid (metered []) (turn k rc) (\<lambda>_. metered []) (settled k)"
proof -
  have quiet: "valid (metered []) m (\<lambda>_. metered []) (settled k)" if "keeps (metered []) m" for m :: "('w kst, 'a) act"
    by (rule quiet_settles [OF that]) simp_all
  have prune: "valid (metered [res]) (prune_step k) (\<lambda>_. metered [res]) (settled k)" for res
    by (rule quiet_settles [OF meter.prune_keeps]) (simp_all add: prune_step_goes_on)
  have condense: "valid (metered [res]) (condense_step k rc view) (\<lambda>_. metered [res]) (settled k)" for res view
    by (rule quiet_settles [OF meter.keepsI])
       (simp_all add: condense_step_goes_on condense_meters meter.condense_step_to)
  show ?thesis
    unfolding turn_def
    by (intro valid_andthen [OF quiet [OF meter.reset_keeps]] valid_andthen [OF quiet [OF meter.hygiene_keeps]]
          valid_andthen [OF reserve_meters] valid_andthen [OF prune] valid_andthen [OF condense]
          valid_andthen [OF model_meters] quiet [OF keeps_andthen] keeps_andthen keeps_collect
          meter.output_keeps meter.say_keeps meter.dispatch_keeps)
qed

lemma turns_settle: "metered [] st \<Longrightarrow> settled k (turns_from k rc n st)"
proof (induction "nat (max_turns rc + 1 - n)" arbitrary: n st rule: less_induct)
  case less
  show ?case
  proof (cases "n > max_turns rc")
    case True
    with less.prems show ?thesis
      by (subst turns_from.simps) (simp add: meter.i_terminate settled_Nil)
  next
    case False
    obtain r st' where t: "turn k rc st = (r, st')" by fastforce
    with validD [OF turn_meters less.prems, of k rc] False less.hyps [of "n + 1" st'] show ?thesis
      by (subst turns_from.simps) (auto split: option.splits)
  qed
qed

lemma enter_settles:
  fixes k :: "'w kernel"
  assumes "Trace st = []"
  shows "settled k (enter en k rc st)"
proof -
  have st: "metered [] st" using assms by (simp add: metered_def)
  have turns: "settled k (then_turns k rc m st)" if "keeps (metered []) m" for m
    using keepsD [OF that st] turns_settle
    by (auto simp: then_turns_def runTurns_def settled_Nil split: prod.splits option.splits)
  have seed: "settled k (Seed k rc st)"
    using keepsD [OF meter.seed_keeps st] by (simp add: Seed_def settled_Nil)
  show ?thesis
    by (cases en)
       (auto simp: Run_def Continue_def ResumeConversation_def ResumeDelegation_def Resume_def
         intro!: turns seed keeps_andthen meter.seed_keeps meter.mark_running_keeps meter.user_message_keeps
           meter.deliver_keeps meter.resolved_keeps meter.finish_keeps meter.i_terminate meter.give_up_keeps keeps_ret)
qed

section \<open>How many model calls\<close>

fun is_stream :: "call \<Rightarrow> bool" where
  "is_stream (CStream p h) = True"
| "is_stream _ = False"

definition model_calls :: "call list \<Rightarrow> nat" where
  "model_calls cs = length (filter is_stream cs)"

definition calls_le :: "nat \<Rightarrow> 'w kst \<Rightarrow> bool" where
  "calls_le n st \<longleftrightarrow> model_calls (Trace st) \<le> n"

lemma calls_le_updates [simp]:
  "calls_le n (st\<lparr>World := w\<rparr>) = calls_le n st"
  "calls_le n (note_call c st) = (if is_stream c then Suc (model_calls (Trace st)) \<le> n else calls_le n st)"
  by (simp_all add: calls_le_def model_calls_def)

lemma quiet_calls:
  fixes k :: "'w kernel"
  shows "quiet_inv k (calls_le n)"
proof
  fix st ty act toolID pairRef modelID p r st'
  assume "calls_le n st" and "appendEvent k ty act toolID pairRef modelID p st = (r, st')"
  then show "calls_le n st'"
    by (auto simp: appendEvent_def split: sum.splits prod.splits) (simp add: calls_le_def)
next
  fix st s reason er st' assume "calls_le n st" and "updateStatus k s reason st = (er, st')"
  then show "calls_le n st'" by (auto simp: updateStatus_def split: prod.splits option.splits)
next
  fix st :: "'w kst" and rc pres assume "calls_le n st"
  then show "calls_le n (snd (resolved_result k rc pres st))"
    by (auto simp: resolved_result_def give_up_def yield_def Let_def
          split: approval_decision.splits option.splits prod.splits)
next
  fix st :: "'w kst" and rc tu assume "calls_le n st"
  then show "calls_le n (snd (execute k rc tu st))" by (simp add: execute_def split: prod.splits)
next
  fix st :: "'w kst" and ev er assume "calls_le n st"
  then show "calls_le n (snd (yield k (Some ev) er st))" by (simp add: yield_def split: prod.splits)
next
  fix st :: "'w kst" and er assume "calls_le n st"
  then show "calls_le n (snd (yield k None er st))" by (simp add: yield_def split: prod.splits)
qed (simp_all add: calls_le_def model_calls_def)

interpretation calls: quiet_inv k "calls_le n"
  by (rule quiet_calls)

lemma reserve_calls: "calls_le n st \<Longrightarrow> calls_le n (snd (reserve k req st))"
  by (simp add: reserve_def split: prod.splits)

lemma reconcile_calls: "calls_le n st \<Longrightarrow> calls_le n (reconcile k res u rep st)"
  by (simp add: reconcile_def)

lemma stream_calls: "calls_le n st \<Longrightarrow> calls_le (Suc n) (snd (open_stream k p cat st))"
  by (simp add: open_stream_def split: prod.splits) (simp add: calls_le_def)

lemma condense_calls:
  assumes "calls_le n st"
  shows "calls_le (Suc n) (snd (condense k rc covered st))"
proof -
  let ?req = "\<lparr>ReqTenant = StTenant st, ReqSession = StSession st, ReqModel = CondenserModelID rc,
      ReqPurpose = PurposeCompaction\<rparr>"
  obtain res er st1 where r: "reserve k ?req st = ((res, er), st1)" by (metis prod.exhaust)
  obtain s st2 where o: "open_stream k (CondensePrompt covered) [] st1 = (s, st2)" by fastforce
  have st1: "calls_le n st1" using reserve_calls [OF assms] r by (metis snd_conv)
  then have "calls_le (Suc n) st1" by (simp add: calls_le_def)
  moreover have "calls_le (Suc n) st2" using stream_calls [OF st1] o by (metis snd_conv)
  ultimately show ?thesis
    using r o by (cases er; cases s) (simp_all add: condense_def Let_def reconcile_calls split: prod.splits)
qed

text \<open>A step that makes at most \<open>d\<close> model calls, on both exits.\<close>

definition costs :: "nat \<Rightarrow> ('w kst, 'a) act \<Rightarrow> bool" where
  "costs d m \<longleftrightarrow> (\<forall>n st. calls_le n st \<longrightarrow> calls_le (n + d) (snd (m st)))"

lemma costs_quiet: "(\<And>n. keeps (calls_le n) m) \<Longrightarrow> costs 0 m"
  by (simp add: costs_def keeps_def)

lemma costs_andthen:
  fixes m :: "('w kst, 'a) act"
  shows "costs d m \<Longrightarrow> (\<And>a. costs d' (f a)) \<Longrightarrow> costs (d + d') (andthen m f)"
  unfolding costs_def
proof (intro allI impI)
  fix n and st :: "'w kst" assume m: "\<forall>n st. calls_le n st \<longrightarrow> calls_le (n + d) (snd (m st))"
    and f: "\<And>a. \<forall>n st. calls_le n st \<longrightarrow> calls_le (n + d') (snd (f a st))" and st: "calls_le n st"
  obtain r st' where r: "m st = (r, st')" by fastforce
  with m st have st': "calls_le (n + d) st'" by (metis snd_conv)
  show "calls_le (n + (d + d')) (snd (andthen m f st))"
  proof (cases r)
    case None
    with r st' show ?thesis by (simp add: andthen_def calls_le_def)
  next
    case (Some a)
    with r f [of a] st' show ?thesis by (simp add: andthen_def add.assoc [symmetric])
  qed
qed

lemma turn_costs: "costs 2 (turn k rc)"
proof -
  have condense: "costs 1 (condense_step k rc view)" for view
    unfolding costs_def
    by (auto intro!: calls.condense_step_to condense_calls) (simp add: calls_le_def)
  have model: "costs 1 (model_step k rc res view)" for res view
    unfolding costs_def by (auto intro!: calls.model_step_to reconcile_calls stream_calls)
  have reserve: "costs 0 (reserve_step k rc)"
    unfolding costs_def by (auto intro!: calls.reserve_step_to reserve_calls)
  have "costs (0 + (0 + (0 + (0 + (1 + (1 + 0)))))) (turn k rc)"
    unfolding turn_def
    by (intro costs_andthen [OF costs_quiet] costs_andthen [OF reserve] costs_andthen [OF condense]
          costs_andthen [OF model] calls.reset_keeps calls.hygiene_keeps calls.prune_keeps)
       (intro costs_quiet keeps_andthen keeps_collect calls.output_keeps calls.say_keeps calls.dispatch_keeps)
  then show ?thesis by (simp add: numeral_2_eq_2)
qed

lemma turns_cost: "calls_le c st \<Longrightarrow> calls_le (c + 2 * nat (max_turns rc + 1 - n)) (turns_from k rc n st)"
proof (induction "nat (max_turns rc + 1 - n)" arbitrary: n st c rule: less_induct)
  case less
  show ?case
  proof (cases "n > max_turns rc")
    case True
    with less.prems show ?thesis by (subst turns_from.simps) (simp add: calls.i_terminate)
  next
    case False
    obtain r st' where t: "turn k rc st = (r, st')" by fastforce
    have st': "calls_le (c + 2) st'" using turn_costs [of k rc] less.prems t unfolding costs_def by (metis snd_conv)
    have left: "nat (max_turns rc + 1 - n) = Suc (nat (max_turns rc + 1 - (n + 1)))" using False by auto
    show ?thesis
    proof (cases r)
      case None
      with t False st' left show ?thesis by (subst turns_from.simps) (simp add: calls_le_def)
    next
      case (Some a)
      with t False st' left less.hyps [of "n + 1" "c + 2" st'] show ?thesis
        by (subst turns_from.simps) simp
    qed
  qed
qed

lemma max_turns_pos: "0 < max_turns rc"
  by (simp add: max_turns_def defaultMaxTurns_def)

lemma enter_calls:
  fixes k :: "'w kernel"
  assumes "Trace st = []"
  shows "calls_le (2 * nat (max_turns rc)) (enter en k rc st)"
proof -
  have st: "calls_le 0 st" using assms by (simp add: calls_le_def model_calls_def)
  have turns: "calls_le (2 * nat (max_turns rc)) (then_turns k rc m st)" if "keeps (calls_le 0) m" for m
    using keepsD [OF that st] turns_cost [of 0 _ rc 1 k]
    by (auto simp: then_turns_def runTurns_def split: prod.splits option.splits) (simp add: calls_le_def)
  have seed: "calls_le (2 * nat (max_turns rc)) (Seed k rc st)"
    using keepsD [OF calls.seed_keeps st, of k rc] by (simp add: Seed_def calls_le_def)
  show ?thesis
    by (cases en)
       (auto simp: Run_def Continue_def ResumeConversation_def ResumeDelegation_def Resume_def
         intro!: turns seed keeps_andthen calls.seed_keeps calls.mark_running_keeps calls.user_message_keeps
           calls.deliver_keeps calls.resolved_keeps calls.finish_keeps calls.i_terminate calls.give_up_keeps keeps_ret)
qed

end
