(* ===== verification/Kernel_Theorems.thy ===== *)
theory Kernel_Theorems
  imports Kernel_Pairing
begin

text \<open>
  The theorems about whole runs of the kernel, through any of its six entry points and over any
  ports that meet the log contract, and a small kernel over the in-memory log they are
  applied to.
\<close>

section \<open>Reading a trace\<close>

text \<open>After an event that ends or suspends the session come only its records.\<close>

fun ends_cleanly :: "call list \<Rightarrow> bool" where
  "ends_cleanly [] = True"
| "ends_cleanly (CAppend e # cs) = (if ending (EType e) then list_all bookkeeping cs else ends_cleanly cs)"
| "ends_cleanly (_ # cs) = ends_cleanly cs"

text \<open>After a tool call that was denied come its records and the terminal event.\<close>

fun denial_is_final :: "call list \<Rightarrow> bool" where
  "denial_is_final [] = True"
| "denial_is_final (CExecute tu r # cs) = (if PermissionDenied r then list_all after_denial cs else denial_is_final cs)"
| "denial_is_final (_ # cs) = denial_is_final cs"

lemma unbroken_ends_cleanly: "foldl pstep ph cs \<noteq> Broken \<Longrightarrow> ends_cleanly cs"
proof (induction cs arbitrary: ph)
  case (Cons c cs)
  then have ph: "pstep ph c \<noteq> Broken" by (auto simp: phase_of_Broken)
  show ?case
  proof (cases c)
    case (CAppend e)
    show ?thesis
    proof (cases "ending (EType e)")
      case True
      with ph CAppend have "pstep ph c = Closed" by (cases ph) (auto simp: ending_def split: if_splits)
      with Cons.prems True CAppend foldl_Closed [of cs] show ?thesis by simp
    qed (use Cons CAppend in auto)
  qed (use Cons in auto)
qed simp

lemma unbroken_denial_is_final: "foldl pstep ph cs \<noteq> Broken \<Longrightarrow> denial_is_final cs"
proof (induction cs arbitrary: ph)
  case (Cons c cs)
  then have ph: "pstep ph c \<noteq> Broken" by (auto simp: phase_of_Broken)
  show ?case
  proof (cases c)
    case (CExecute tu r)
    show ?thesis
    proof (cases "PermissionDenied r")
      case True
      with ph CExecute have "pstep ph c = Denied" by (cases ph) auto
      with Cons.prems True CExecute foldl_Denied [of cs] show ?thesis by simp
    qed (use Cons CExecute in auto)
  qed (use Cons in auto)
qed simp

lemma closed_has_ending: "foldl pstep Open cs = Closed \<Longrightarrow> \<exists>e. CAppend e \<in> set cs \<and> ending (EType e)"
proof -
  have "foldl pstep ph cs = Closed \<Longrightarrow> ph \<noteq> Closed \<Longrightarrow> \<exists>e. CAppend e \<in> set cs \<and> ending (EType e)" for ph
  proof (induction cs arbitrary: ph)
    case (Cons c cs)
    show ?case
    proof (cases "pstep ph c = Closed")
      case True
      with Cons.prems obtain e where "c = CAppend e" "ending (EType e)"
        by (cases ph; cases c) (auto simp: ending_def split: if_splits)
      then show ?thesis by auto
    next
      case False
      with Cons show ?thesis by fastforce
    qed
  qed simp
  then show "foldl pstep Open cs = Closed \<Longrightarrow> \<exists>e. CAppend e \<in> set cs \<and> ending (EType e)" by blast
qed

section \<open>A small kernel\<close>

text \<open>
  A scripted provider (one list of chunks per model call), the package's own stand-ins for the
  tools and the gate, plaintext payloads, and a consumer that wants everything.
\<close>

type_synonym script = "nat \<times> chunk list list"

definition script_ids :: "script \<Rightarrow> uuid \<times> script" where
  "script_ids w = (fst w, (fst w + 1, snd w))"

definition script_provider :: "script provider" where
  "script_provider w p ts rcx =
     (case snd w of [] \<Rightarrow> (Inr ([], None), w) | cs # rest \<Rightarrow> (Inr (cs, None), (fst w, rest)))"

definition demo_kernel :: "codec \<Rightarrow> script kernel" where
  "demo_kernel C =
     \<lparr>kProvider = script_provider,
      kExecute = (\<lambda>tu ec w. (NotImplementedToolExecutor tu ec, w)),
      kExecuteApproved = None, kResetTurn = None,
      kReserve = (\<lambda>req w. (Noop_Reserve 0 req, w)),
      kReconcile = (\<lambda>res u rep w. (Noop_Reconcile res u rep, w)),
      kAppend = (\<lambda>e w. (Inr e, w)), kSetStatus = (\<lambda>ten ses s r w. (None, w)),
      kRecordSuspension = (\<lambda>req w. (None, w)), kRecordDelegation = (\<lambda>req w. (None, w)),
      kSeal = (\<lambda>b w. (Inr (b, '''', ''plain''), w)), kNewUUID = script_ids,
      kYield = (\<lambda>ev er w. (True, w)),
      kCodec = C, kSha = (\<lambda>b. b), kHex8 = (\<lambda>b. b),
      PrunePolicy = \<lparr>KeepLast = 0, SoftTrimAt = 0, HardClearAt = 0\<rparr>, CondenseThresholdBytes = 0\<rparr>"

definition demo :: "codec \<Rightarrow> (inmem_log \<times> script) kernel" where
  "demo C = over_inmem (\<lambda>w. 0) (demo_kernel C)"

definition demo_start :: "'w \<Rightarrow> 'w kst" where
  "demo_start w = \<lparr>World = w, StTenant = 1, StSession = 2, History = [], Transcript = [],
     ToolUseIDs = Map.empty, terminalReason = '''', StuckReg = None, Trace = []\<rparr>"

definition demo_state :: "chunk list list \<Rightarrow> (inmem_log \<times> script) kst" where
  "demo_state cs = demo_start (New_log, (1, cs))"

definition demo_config :: "string \<Rightarrow> run_config" where
  "demo_config inp = \<lparr>RunSystem = ''s'', Catalog = [], RunModelID = ''m'', MaxTurns = 3, Input = inp,
     RunAutonomyLevel = '''', LoadedTools = [], CondenserModelID = '''', MemorySources = [], Conversational = False\<rparr>"

text \<open>A codec that takes every raw message for valid, so that nothing in the demo can fail.\<close>

definition trusting_codec :: codec where
  "trusting_codec = tally_codec\<lparr>parse := (\<lambda>_. Inr JNull)\<rparr>"

lemma demo_log_port: "log_port (demo C) (\<lambda>w. log_Events (fst w))"
  unfolding demo_def by (rule inmem.log_port_axioms)

lemma demo_Trace [simp]: "Trace (demo_start w) = []" "Trace (demo_state cs) = []" "StSession (demo_state cs) = 2"
  by (simp_all add: demo_state_def demo_start_def)

lemma demo_patient: "patient (demo C)"
  by (simp add: patient_def demo_def over_inmem_def demo_kernel_def beside_def)

lemma trusting_marshals: "\<not> isl (json_Marshal trusting_codec p)"
  by (cases p) (simp_all add: json_Marshal_def trusting_codec_def json_raw_def json_result_def)

section \<open>Runs\<close>

text \<open>
  C1: whatever the entry point and whatever the ports answer, once a run has appended a terminal
  event or one that suspends the session, it only updates the session's status, records the
  suspension and hands events out: no further event, no model call, no tool call, no
  reservation.
\<close>

theorem nothing_follows_an_ending_event:
  assumes "log_port k log" and "Trace st = []"
  shows "ends_cleanly (Trace (enter en k rc st))"
  using log_port.enter_unbroken [OF assms] unbroken_ends_cleanly unfolding phase_of_def by blast

theorem nothing_follows_an_ending_event_witness:
  "ends_cleanly (Trace (enter DoRun (demo tally_codec) (demo_config ''hi'') (demo_state [[ChunkContent ''hello'']])))"
  by (rule nothing_follows_an_ending_event [OF demo_log_port demo_Trace(2)])

text \<open>
  C2: a tool call whose result says permission was denied is the last thing a run does: what
  follows are the result, a taint transition, the terminal event and their records. No other
  tool of the same turn runs and the model is not asked again.
\<close>

theorem a_denied_call_is_final:
  assumes "log_port k log" and "Trace st = []"
  shows "denial_is_final (Trace (enter en k rc st))"
  using log_port.enter_unbroken [OF assms] unbroken_denial_is_final unfolding phase_of_def by blast

theorem a_denied_call_is_final_witness:
  "denial_is_final (Trace (enter DoRun (demo tally_codec) (demo_config ''hi'')
     (demo_state [[ChunkToolUse ''t1'' ''sh'' ''{}'']])))"
  by (rule a_denied_call_is_final [OF demo_log_port demo_Trace(2)])

text \<open>
  C3: a run never just stops. When it returns to a consumer that wants every event, it has
  appended an event that ends or suspends the session, or the last thing it did was to hand
  the consumer an error.
\<close>

theorem a_run_never_ends_silently:
  assumes "log_port k log" and "Trace st = []" and "patient k" and "en \<noteq> DoSeed"
  shows "(\<exists>e. CAppend e \<in> set (Trace (enter en k rc st)) \<and> ending (EType e)) \<or>
         (\<exists>cs ev er. Trace (enter en k rc st) = cs @ [CYield ev (Some er)])"
  using log_port.enter_answered [OF assms(1,2,4), of rc] assms(3) closed_has_ending
  by (auto simp: answered_def complained_def phase_in_def phase_of_def)

theorem a_run_never_ends_silently_witness:
  "let cs = Trace (enter DoContinue (demo tally_codec) (demo_config ''hi'') (demo_state [[ChunkContent ''hello'']])) in
   (\<exists>e. CAppend e \<in> set cs \<and> ending (EType e)) \<or> (\<exists>ds ev er. cs = ds @ [CYield ev (Some er)])"
  using a_run_never_ends_silently [OF demo_log_port _ demo_patient, of "demo_state [[ChunkContent ''hello'']]" DoContinue]
  by (simp add: Let_def)

text \<open>
  C6: the consumer sees only what is durable. Every event a run hands out it has appended before,
  and the events it appended stand in the session's log in that order.
\<close>

theorem shown_events_are_logged:
  assumes "log_port k log" and "Trace st = []"
  shows "shown_ok (Trace (enter en k rc st)) \<and>
         subseq (appended_events (Trace (enter en k rc st))) (log (World (enter en k rc st)) (StSession st))"
proof -
  have "shown_inv log (StSession st) st" using assms(2) by (simp add: shown_inv_def)
  from run_inv.i_enter [OF log_port.shown_run_inv [OF assms(1)] this] show ?thesis by (simp add: shown_inv_def)
qed

theorem shown_events_are_logged_witness:
  "let st = enter DoRun (demo tally_codec) (demo_config ''hi'') (demo_state [[ChunkContent ''hello'']]) in
   shown_ok (Trace st) \<and> subseq (appended_events (Trace st)) (log_Events (fst (World st)) 2)"
  unfolding Let_def using shown_events_are_logged [OF demo_log_port demo_Trace(2)] unfolding demo_Trace(3) .

text \<open>
  C5: every model call is paid for. Between a model call and its reconciliation nothing happens, a
  call is only made under a granted reservation, and it is reconciled with that reservation;
  at most one reservation is left open when the run returns, and none when no port failed and
  the consumer never stopped it.
\<close>

theorem every_model_call_is_reconciled:
  assumes "Trace st = []"
  shows "\<exists>stk. meter_of (Trace (enter en k rc st)) = Some (stk, False) \<and>
           (if healthy k then stk = [] else length stk \<le> 1)"
  using enter_settles [OF assms, of k en rc] by (simp add: settled_def metered_def)

theorem every_model_call_is_reconciled_witness:
  "meter_of (Trace (enter DoRun (demo_kernel trusting_codec) (demo_config ''hi'')
     (demo_start (1, [[ChunkToolUse ''t1'' ''sh'' ''{}''], [ChunkContent ''done'']])))) = Some ([], False)"
proof -
  have "healthy (demo_kernel trusting_codec)"
    using trusting_marshals by (simp add: healthy_def demo_kernel_def)
  with every_model_call_is_reconciled [OF demo_Trace(1), of DoRun "demo_kernel trusting_codec" "demo_config ''hi''"
      "(1, [[ChunkToolUse ''t1'' ''sh'' ''{}''], [ChunkContent ''done'']])"]
  show ?thesis by simp
qed

text \<open>
  C7: a run makes at most two model calls per turn, one of them to condense the transcript, and
  there are at most the configured number of turns, or 25.
\<close>

theorem model_calls_are_bounded:
  assumes "Trace st = []"
  shows "model_calls (Trace (enter en k rc st)) \<le> 2 * nat (if MaxTurns rc \<le> 0 then 25 else MaxTurns rc)"
  using enter_calls [OF assms, of rc en k] by (simp add: calls_le_def max_turns_def defaultMaxTurns_def split: if_splits)

theorem model_calls_are_bounded_witness:
  "model_calls (Trace (enter DoRun (demo tally_codec) (demo_config ''hi'') (demo_state []))) \<le> 6"
  using model_calls_are_bounded [of "demo_state []" DoRun "demo tally_codec" "demo_config ''hi''"]
  by (simp add: demo_config_def)

text \<open>
  C4: whenever the model is called, in the run's history every tool use has exactly one result and
  every result says which tool use it answers and answers one of the history, however the history it
  was resumed from looked.
\<close>

theorem model_sees_every_tool_use_answered:
  assumes "log_port k log" and "Trace st = []"
  shows "streams_paired (Trace (enter en k rc st))"
  by (rule log_port.enter_paired [OF assms])

theorem model_sees_every_tool_use_answered_witness:
  "streams_paired (Trace (enter DoRun (demo tally_codec) (demo_config ''hi'')
     (demo_state [[ChunkToolUse ''t1'' ''sh'' ''{}''], [ChunkContent ''done'']])))"
  by (rule model_sees_every_tool_use_answered [OF demo_log_port demo_Trace(2)])

end
