(* ===== verification/Rehydrate.thy ===== *)
theory Rehydrate
  imports Kernel
begin

text \<open>
  Rebuilding a run from its log (\<^verbatim>\<open>kernel/rehydrate.go\<close>): the transcript, the map from tool use events
  to the provider's ids, and the taint legs. \<^verbatim>\<open>DecryptFunc\<close> is an argument. The lemmas read
  every payload the kernel writes back from its JSON form.
\<close>

section \<open>Reading payloads\<close>

text \<open>The stores for the remaining field types: \<^verbatim>\<open>[]byte\<close>, \<^verbatim>\<open>json.RawMessage\<close>, \<^verbatim>\<open>uuid.UUID\<close>, \<^verbatim>\<open>[3]bool\<close>.\<close>

definition store_byte :: "json \<Rightarrow> err + char" where
  "store_byte v =
     (case v of
        JNum t \<Rightarrow>
          if t \<noteq> [] \<and> list_all is_digit t \<and> foldl (\<lambda>n c. 10 * n + (code c - 48)) 0 t < 256
          then Inr (char_of (foldl (\<lambda>n c. 10 * n + (code c - 48)) 0 t))
          else Inl (Err ''json: cannot unmarshal number into Go value of type uint8'')
      | JNull \<Rightarrow> Inr (char_of (0 :: nat))
      | _ \<Rightarrow> Inl (Err ''json: cannot unmarshal value into Go value of type uint8''))"

fun store_bytes_array :: "json list \<Rightarrow> err + bytes" where
  "store_bytes_array [] = Inr []"
| "store_bytes_array (v # vs) =
     (case store_byte v of
        Inl er \<Rightarrow> Inl er
      | Inr c \<Rightarrow> map_sum id (\<lambda>r. c # r) (store_bytes_array vs))"

definition store_bytes :: "codec \<Rightarrow> json \<Rightarrow> bytes \<Rightarrow> err + bytes" where
  "store_bytes C v acc =
     (case v of
        JStr s \<Rightarrow> unb64 C s
      | JNull \<Rightarrow> Inr []
      | JArr vs \<Rightarrow> store_bytes_array vs
      | _ \<Rightarrow> Inl (Err ''json: cannot unmarshal value into Go struct field of type []uint8''))"

definition store_raw :: "codec \<Rightarrow> json \<Rightarrow> bytes \<Rightarrow> err + bytes" where
  "store_raw C v acc = Inr (render C v)"

definition store_uuid :: "codec \<Rightarrow> json \<Rightarrow> uuid \<Rightarrow> err + uuid" where
  "store_uuid C v acc =
     (case v of
        JStr s \<Rightarrow> uuid_Parse C s
      | JNull \<Rightarrow> Inr acc
      | _ \<Rightarrow> Inl (Err ''json: cannot unmarshal value into Go struct field of type uuid.UUID''))"

text \<open>A JSON array stores element by element; a short one clears the rest, a long one is cut.\<close>

definition store_leg :: "json list \<Rightarrow> nat \<Rightarrow> bool \<Rightarrow> err + bool" where
  "store_leg vs i acc = (if i < length vs then store_bool (vs ! i) acc else Inr False)"

definition store_legs :: "json \<Rightarrow> legs \<Rightarrow> err + legs" where
  "store_legs v acc =
     (case v of
        JArr vs \<Rightarrow>
          (case acc of (a, b, c) \<Rightarrow>
             (case (store_leg vs 0 a, store_leg vs 1 b, store_leg vs 2 c) of
                (Inr a', Inr b', Inr c') \<Rightarrow> Inr (a', b', c')
              | _ \<Rightarrow> Inl (Err ''json: cannot unmarshal value into Go value of type bool'')))
      | JNull \<Rightarrow> Inr acc
      | _ \<Rightarrow> Inl (Err ''json: cannot unmarshal value into Go struct field of type [3]bool''))"

text \<open>One more field of a struct: the first error wins.\<close>

definition with_field :: "err + ('a \<Rightarrow> 'b) \<Rightarrow> err + 'a \<Rightarrow> err + 'b" where
  "with_field f x =
     (case f of Inl er \<Rightarrow> Inl er | Inr g \<Rightarrow> (case x of Inl er \<Rightarrow> Inl er | Inr a \<Rightarrow> Inr (g a)))"

definition decode_thought :: "codec \<Rightarrow> json \<Rightarrow> err + bytes" where
  "decode_thought C = decode_field (store_bytes C) ''opaque'' ''''"

definition decode_body :: "json \<Rightarrow> err + string" where
  "decode_body = decode_string ''body''"

definition decode_tool_use :: "codec \<Rightarrow> json \<Rightarrow> err + tool_use_request" where
  "decode_tool_use C j =
     with_field (with_field (with_field (Inr tool_use_request.make)
       (decode_string ''tool_use_id'' j)) (decode_string ''tool_name'' j))
       (decode_field (store_raw C) ''input'' '''' j)"

definition decode_result :: "codec \<Rightarrow> json \<Rightarrow> err + tool_result" where
  "decode_result C j =
     with_field (with_field (with_field (with_field (with_field (with_field (with_field
     (with_field (with_field (with_field (with_field (with_field (with_field (with_field
       (Inr tool_result.make)
       (decode_field (store_raw C) ''output'' '''' j))
       (decode_bool ''is_error'' j))
       (decode_string ''reason'' j))
       (decode_bool ''synthetic'' j))
       (decode_bool ''permission_denied'' j))
       (decode_bool ''awaiting_approval'' j))
       (decode_string ''ask_kind'' j))
       (decode_field (store_bytes C) ''canonical_digest'' '''' j))
       (decode_bool ''approval_mismatch'' j))
       (decode_string ''effect_class'' j))
       (decode_bool ''awaiting_delegation'' j))
       (decode_field (store_uuid C) ''child_session_id'' 0 j))
       (decode_bool ''taint_changed'' j))
       (decode_field store_legs ''taint_engaged'' (False, False, False) j)"

definition decode_taint :: "json \<Rightarrow> err + legs" where
  "decode_taint = decode_field store_legs ''engaged'' (False, False, False)"

section \<open>The replay\<close>

definition decodeEvent :: "codec \<Rightarrow> (event \<Rightarrow> err + bytes) \<Rightarrow> (json \<Rightarrow> err + 'a) \<Rightarrow> event \<Rightarrow> err + 'a" where
  "decodeEvent C decrypt decode e =
     (case decrypt e of
        Inl er \<Rightarrow> Inl (Wrapped (''kernel: decrypt event '' @ uuid_String C (EventID e)
                               @ '' ('' @ event_type_str (EType e) @ '')'') er)
      | Inr plaintext \<Rightarrow>
          (case (case parse C plaintext of Inl er \<Rightarrow> Inl er | Inr j \<Rightarrow> decode j) of
             Inl er \<Rightarrow> Inl (Wrapped (''kernel: unmarshal '' @ event_type_str (EType e)
                                     @ '' payload for event '' @ uuid_String C (EventID e)) er)
           | Inr out \<Rightarrow> Inr out))"

record rehydration =
  RhTranscript :: "msg list"
  RhToolUseIDs :: "uuid \<rightharpoonup> string"
  pendingAssistant :: "content_block list"
  pendingResults :: "content_block list"

definition flushAssistant :: "rehydration \<Rightarrow> rehydration" where
  "flushAssistant s =
     (if length (pendingAssistant s) > 0
      then s\<lparr>RhTranscript := RhTranscript s @ [\<lparr>Role = ''assistant'', Blocks = pendingAssistant s\<rparr>],
             pendingAssistant := []\<rparr>
      else s)"

definition flushResults :: "rehydration \<Rightarrow> rehydration" where
  "flushResults s =
     (if length (pendingResults s) > 0
      then s\<lparr>RhTranscript := RhTranscript s @ [\<lparr>Role = ''tool'', Blocks = pendingResults s\<rparr>],
             pendingResults := []\<rparr>
      else s)"

text \<open>The body of the loop over the history.\<close>

definition rehydrate_event ::
    "codec \<Rightarrow> (event \<Rightarrow> err + bytes) \<Rightarrow> event \<Rightarrow> rehydration \<Rightarrow> err + rehydration" where
  "rehydrate_event C decrypt e s =
     (case EType e of
        EventThought \<Rightarrow>
          (let s1 = flushResults s in
           case decodeEvent C decrypt (decode_thought C) e of
             Inl er \<Rightarrow> Inl er
           | Inr opaque \<Rightarrow> Inr (s1\<lparr>pendingAssistant := pendingAssistant s1 @ reasoning_block C opaque\<rparr>))
      | EventContent \<Rightarrow>
          (let s1 = flushResults s in
           case decodeEvent C decrypt decode_body e of
             Inl er \<Rightarrow> Inl er
           | Inr body \<Rightarrow> Inr (s1\<lparr>pendingAssistant := pendingAssistant s1 @ [BlockText body]\<rparr>))
      | EventToolUse \<Rightarrow>
          (let s1 = flushResults s in
           case decodeEvent C decrypt (decode_tool_use C) e of
             Inl er \<Rightarrow> Inl er
           | Inr tu \<Rightarrow>
               Inr (s1\<lparr>RhToolUseIDs := (RhToolUseIDs s1)(EventID e \<mapsto> TuID tu),
                        pendingAssistant := pendingAssistant s1 @ [BlockToolUse (TuID tu) (TuName tu) (TuInput tu)]\<rparr>))
      | EventUserMessage \<Rightarrow>
          (let s1 = flushResults (flushAssistant s) in
           case decodeEvent C decrypt decode_body e of
             Inl er \<Rightarrow> Inl er
           | Inr body \<Rightarrow> Inr (s1\<lparr>RhTranscript := RhTranscript s1 @ [TextMessage ''user'' body]\<rparr>))
      | EventToolResult \<Rightarrow>
          (let s1 = flushAssistant s in
           case decodeEvent C decrypt (decode_result C) e of
             Inl er \<Rightarrow> Inl er
           | Inr r \<Rightarrow>
               (let toolUseID = (case PairRef e of
                                   None \<Rightarrow> ''''
                                 | Some ref \<Rightarrow> (case RhToolUseIDs s1 ref of None \<Rightarrow> '''' | Some t \<Rightarrow> t)) in
                Inr (s1\<lparr>pendingResults := pendingResults s1
                          @ [BlockToolResult toolUseID (resultText r) (IsError r)]\<rparr>)))
      | _ \<Rightarrow> Inr s)"

fun rehydrate_loop ::
    "codec \<Rightarrow> (event \<Rightarrow> err + bytes) \<Rightarrow> event list \<Rightarrow> rehydration \<Rightarrow> err + rehydration" where
  "rehydrate_loop C decrypt [] s = Inr s"
| "rehydrate_loop C decrypt (e # es) s =
     (case rehydrate_event C decrypt e s of
        Inl er \<Rightarrow> Inl er
      | Inr s' \<Rightarrow> rehydrate_loop C decrypt es s')"

definition no_rehydration :: rehydration where
  "no_rehydration = \<lparr>RhTranscript = [], RhToolUseIDs = Map.empty, pendingAssistant = [], pendingResults = []\<rparr>"

definition Rehydrate ::
    "codec \<Rightarrow> (event \<Rightarrow> err + bytes) \<Rightarrow> event list \<Rightarrow> err + msg list \<times> (uuid \<rightharpoonup> string)" where
  "Rehydrate C decrypt history =
     (case rehydrate_loop C decrypt history no_rehydration of
        Inl er \<Rightarrow> Inl er
      | Inr s \<Rightarrow> (let s' = flushResults (flushAssistant s) in Inr (RhTranscript s', RhToolUseIDs s')))"

text \<open>The scan runs backwards.\<close>

fun taint_scan :: "codec \<Rightarrow> (event \<Rightarrow> err + bytes) \<Rightarrow> event list \<Rightarrow> err + legs" where
  "taint_scan C decrypt [] = Inr (False, False, False)"
| "taint_scan C decrypt (e # es) =
     (if EType e \<noteq> EventTaintTransition then taint_scan C decrypt es
      else decodeEvent C decrypt decode_taint e)"

definition RehydrateTaint :: "codec \<Rightarrow> (event \<Rightarrow> err + bytes) \<Rightarrow> event list \<Rightarrow> err + legs" where
  "RehydrateTaint C decrypt history = taint_scan C decrypt (rev history)"

section \<open>Payloads read back\<close>

text \<open>What a \<^verbatim>\<open>json.RawMessage\<close> is after it has been marshalled and read again.\<close>

definition compact :: "codec \<Rightarrow> bytes \<Rightarrow> bytes" where
  "compact C raw = (case json_raw C raw of Inl _ \<Rightarrow> raw | Inr v \<Rightarrow> render C v)"

definition compact_output :: "codec \<Rightarrow> bytes \<Rightarrow> bytes" where
  "compact_output C out = (if out = '''' then '''' else compact C out)"

lemma struct_member_if [json_fields]:
  "struct_member dec name (if b then fs else gs) acc =
     (if b then struct_member dec name fs acc else struct_member dec name gs acc)"
  by simp

lemmas field_defs = decode_string_def decode_bool_def decode_field_def store_string_def store_bool_def equal_fold_def

lemma store_json_legs: "store_legs (json_legs l) acc = Inr l"
  by (cases l; cases acc) (simp add: store_legs_def json_legs_def store_leg_def store_bool_def)

context codec_laws
begin

lemma decode_thought_json: "payload_json C (PThought opaque) = Inr j \<Longrightarrow> decode_thought C j = Inr opaque"
  by (auto simp: decode_thought_def decode_field_def equal_fold_def json_bytes_def store_bytes_def unb64_b64)

lemma decode_body_json:
  "payload_json C (PUserMessage body) = Inr j \<Longrightarrow> decode_body j = Inr body"
  "payload_json C (PContent body) = Inr j \<Longrightarrow> decode_body j = Inr body"
  by (auto simp: decode_body_def)

lemma decode_taint_json: "payload_json C (PTaintTransition l) = Inr j \<Longrightarrow> decode_taint j = Inr l"
  by (auto simp: decode_taint_def decode_field_def equal_fold_def store_json_legs)

lemma decode_tool_use_json:
  assumes "payload_json C (PToolUse name inp tid) = Inr j"
  shows "decode_tool_use C j = Inr \<lparr>TuID = tid, TuName = name, TuInput = compact C inp\<rparr>"
proof -
  from assms obtain v where v: "json_raw C inp = Inr v"
      "j = JObj ([(''tool_name'', JStr name), (''input'', v)] @ omit_string ''tool_use_id'' tid)"
    by (cases "json_raw C inp") auto
  then show ?thesis
    by (simp add: decode_tool_use_def with_field_def field_defs json_fields store_raw_def compact_def
        tool_use_request.make_def fold_char_def Let_def)
qed

lemma decode_result_json:
  assumes "json_result C r = Inr j"
  shows "decode_result C j = Inr (r\<lparr>Output := compact_output C (Output r)\<rparr>)"
proof -
  define out where "out = (if Output r = '''' then [] else [(''output'', case parse C (Output r) of Inr v \<Rightarrow> v)])"
  have parsed: "Output r \<noteq> '''' \<Longrightarrow> \<exists>v. parse C (Output r) = Inr v"
    using assms by (cases "parse C (Output r)") (auto simp: json_result_def)
  have out: "(if Output r = '''' then Inr [] else map_sum id (\<lambda>v. [(''output'', v)]) (parse C (Output r))) = Inr out"
    using parsed by (auto simp: out_def)
  note j = assms [unfolded json_result_def out sum.case sum.inject, symmetric]
  have dec_out: "struct_member (store_raw C) ''output'' out '''' = Inr (compact_output C (Output r))"
    using parsed by (auto simp: out_def store_raw_def equal_fold_def compact_output_def compact_def json_raw_def)
  have other: "struct_member dec name out acc = Inr acc" if "\<not> equal_fold ''output'' name"
    for dec :: "json \<Rightarrow> 'a \<Rightarrow> err + 'a" and name acc
    using that by (simp add: out_def)
  note fields = j field_defs json_fields fold_char_def Let_def
  have "decode_field (store_raw C) ''output'' '''' j = Inr (compact_output C (Output r))"
    using dec_out by (simp add: fields)
  moreover have "decode_bool ''is_error'' j = Inr (IsError r)" "decode_bool ''synthetic'' j = Inr (Synthetic r)"
    "decode_bool ''permission_denied'' j = Inr (PermissionDenied r)"
    "decode_bool ''awaiting_approval'' j = Inr (AwaitingApproval r)"
    "decode_bool ''approval_mismatch'' j = Inr (ApprovalMismatch r)"
    "decode_bool ''awaiting_delegation'' j = Inr (AwaitingDelegation r)"
    "decode_bool ''taint_changed'' j = Inr (TaintChanged r)"
    by (simp_all add: fields other)
  moreover have "decode_string ''reason'' j = Inr (TrReason r)" "decode_string ''ask_kind'' j = Inr (AskKind r)"
    "decode_string ''effect_class'' j = Inr (EffectClass r)"
    by (simp_all add: fields other)
  moreover have "decode_field (store_bytes C) ''canonical_digest'' '''' j = Inr (CanonicalDigest r)"
    "decode_field (store_uuid C) ''child_session_id'' 0 j = Inr (ChildSessionID r)"
    "decode_field store_legs ''taint_engaged'' (False, False, False) j = Inr (TaintEngaged r)"
    by (simp_all add: fields other store_bytes_def unb64_b64 store_uuid_def uuid_Parse_String store_json_legs)
  ultimately show ?thesis
    by (simp add: decode_result_def with_field_def tool_result.make_def)
qed

end

end
