(* ===== verification/Safety.thy ===== *)
theory Safety
  imports Nexus_Prelude
begin

text \<open>
  Gate 3 of the permission chain (\<^verbatim>\<open>internal/permissions/safety\<close>): the deterministic rule pass over
  the invocation text, then a bounded model leg behind a circuit breaker. The regular
  expressions of the default rules are modelled with a small matcher; the model leg's answer,
  its failure or its timeout is an argument of the call. The lemmas show that the classifier
  fails closed to a question and that matching text is never let through.
\<close>

section \<open>Regular expressions\<close>

text \<open>
  What the rules use of \<^verbatim>\<open>regexp\<close>: character classes, sequence, alternation, repetition, the
  word boundary and the end of the text. A position is the character before it, if any, and
  the text that follows.
\<close>

datatype re =
    Chr "char \<Rightarrow> bool"
  | Seq re re
  | Alt re re
  | Star re
  | WordB
  | EndText
  | Eps

type_synonym pos = "char option \<times> string"

definition is_word :: "char \<Rightarrow> bool" where
  "is_word c = (let n = (of_char c :: nat) in
     (48 \<le> n \<and> n \<le> 57) \<or> (65 \<le> n \<and> n \<le> 90) \<or> (97 \<le> n \<and> n \<le> 122) \<or> n = 95)"

definition is_space :: "char \<Rightarrow> bool" where
  "is_space c = (of_char c \<in> {9, 10, 12, 13, 32 :: nat})"

definition word_before :: "pos \<Rightarrow> bool" where
  "word_before p = (case fst p of None \<Rightarrow> False | Some c \<Rightarrow> is_word c)"

definition word_after :: "pos \<Rightarrow> bool" where
  "word_after p = (case snd p of [] \<Rightarrow> False | c # _ \<Rightarrow> is_word c)"

fun star_from :: "(pos \<Rightarrow> pos list) \<Rightarrow> nat \<Rightarrow> pos \<Rightarrow> pos list" where
  "star_from f 0 p = [p]"
| "star_from f (Suc n) p =
     p # concat (map (star_from f n) (filter (\<lambda>q. length (snd q) < length (snd p)) (f p)))"

text \<open>The positions where a match that starts at the given position can end.\<close>

primrec ends :: "re \<Rightarrow> pos \<Rightarrow> pos list" where
  "ends (Chr P) p = (case snd p of [] \<Rightarrow> [] | c # cs \<Rightarrow> if P c then [(Some c, cs)] else [])"
| "ends (Seq r1 r2) p = concat (map (ends r2) (ends r1 p))"
| "ends (Alt r1 r2) p = ends r1 p @ ends r2 p"
| "ends (Star r) p = star_from (ends r) (length (snd p)) p"
| "ends WordB p = (if word_before p \<noteq> word_after p then [p] else [])"
| "ends EndText p = (if snd p = [] then [p] else [])"
| "ends Eps p = [p]"

fun match_from :: "re \<Rightarrow> char option \<Rightarrow> string \<Rightarrow> bool" where
  "match_from r pv [] = (ends r (pv, []) \<noteq> [])"
| "match_from r pv (c # cs) = (ends r (pv, c # cs) \<noteq> [] \<or> match_from r (Some c) cs)"

definition MatchString :: "re \<Rightarrow> string \<Rightarrow> bool" where
  "MatchString r s = match_from r None s"

definition lit :: "string \<Rightarrow> re" where
  "lit s = foldr (\<lambda>c r. Seq (Chr (\<lambda>x. x = c)) r) s Eps"

text \<open>A literal under \<^verbatim>\<open>(?i)\<close>; none of its letters has a fold outside ASCII.\<close>

definition lit_fold :: "string \<Rightarrow> re" where
  "lit_fold s = foldr (\<lambda>c r. Seq (Chr (\<lambda>x. x = c \<or> of_char x + 32 = (of_char c :: nat))) r) s Eps"

definition spaces :: re where "spaces = Star (Chr is_space)"
definition spaces1 :: re where "spaces1 = Seq (Chr is_space) spaces"
definition words :: re where "words = Star (Chr is_word)"

definition seqs :: "re list \<Rightarrow> re" where
  "seqs rs = foldr Seq rs Eps"

section \<open>Rules\<close>

text \<open>A verdict is an open string type: the model leg may answer with any string.\<close>

type_synonym verdict_str = string

definition VerdictDeny :: verdict_str where "VerdictDeny = ''deny''"
definition VerdictAsk :: verdict_str where "VerdictAsk = ''ask''"
definition VerdictDefer :: verdict_str where "VerdictDefer = ''defer''"

lemmas verdict_defs = VerdictDeny_def VerdictAsk_def VerdictDefer_def

record safety_result =
  Verdict :: verdict_str
  SReason :: string

record rule =
  RuleName :: string
  Pattern :: re
  RuleVerdict :: verdict_str
  RuleReason :: string

definition re_rm_rf_root :: re where
  "re_rm_rf_root =
     seqs [lit ''rm'', spaces1,
           Alt (seqs [lit ''-'', words, lit ''r'', words, lit ''f'', words])
               (seqs [lit ''-'', words, lit ''f'', words, lit ''r'', words]),
           spaces1, lit ''/'',
           Alt (Chr is_space) (Alt EndText (Chr (\<lambda>c. c = CHR 0x22 \<or> c = CHR 0x27)))]"

definition re_fork_bomb :: re where
  "re_fork_bomb =
     seqs [lit '':()'', spaces, lit ''{'', spaces, lit '':|:&'', spaces, lit ''}'', spaces, lit '';'', spaces, lit '':'']"

definition re_drop_table :: re where
  "re_drop_table = seqs [lit_fold ''drop'', spaces1, lit_fold ''table'', WordB]"

definition re_pipe_to_shell :: re where
  "re_pipe_to_shell =
     seqs [lit ''curl'', Star (Chr (\<lambda>c. c \<noteq> CHR ''|'')), lit ''|'', spaces,
           Alt (Seq (lit ''sudo'') spaces1) Eps, Alt (lit ''sh'') (lit ''bash''), WordB]"

definition re_sudo :: re where
  "re_sudo = seqs [WordB, lit ''sudo'', WordB]"

definition DefaultRules :: "rule list" where
  "DefaultRules =
     [\<lparr>RuleName = ''rm_rf_root'', Pattern = re_rm_rf_root, RuleVerdict = VerdictDeny,
       RuleReason = ''matches an unrecoverable root-filesystem delete pattern''\<rparr>,
      \<lparr>RuleName = ''fork_bomb'', Pattern = re_fork_bomb, RuleVerdict = VerdictDeny,
       RuleReason = ''matches a fork-bomb pattern''\<rparr>,
      \<lparr>RuleName = ''drop_table'', Pattern = re_drop_table, RuleVerdict = VerdictDeny,
       RuleReason = ''matches a destructive DDL statement''\<rparr>,
      \<lparr>RuleName = ''pipe_to_shell'', Pattern = re_pipe_to_shell, RuleVerdict = VerdictAsk,
       RuleReason = ''downloads and executes a remote script unreviewed''\<rparr>,
      \<lparr>RuleName = ''sudo'', Pattern = re_sudo, RuleVerdict = VerdictAsk,
       RuleReason = ''escalates privileges''\<rparr>]"

section \<open>The classifier\<close>

record safety_breaker =
  failures :: int
  openUntil :: timestamp
  sb_threshold :: int
  cooldown :: int

definition sb_isopen :: "safety_breaker \<Rightarrow> timestamp \<Rightarrow> bool" where
  "sb_isopen b now = (now < openUntil b)"

definition sb_recordFailure :: "safety_breaker \<Rightarrow> timestamp \<Rightarrow> safety_breaker" where
  "sb_recordFailure b now =
     (let b1 = b\<lparr>failures := failures b + 1\<rparr> in
      if failures b1 \<ge> sb_threshold b1
      then b1\<lparr>openUntil := now + cooldown b1, failures := 0\<rparr> else b1)"

definition sb_recordSuccess :: "safety_breaker \<Rightarrow> safety_breaker" where
  "sb_recordSuccess b = b\<lparr>failures := 0\<rparr>"

text \<open>What the bounded call of the model leg came to.\<close>

datatype model_leg = LegTimedOut | LegError err | LegAnswer verdict_str string

type_synonym model_classifier = "string \<Rightarrow> string \<Rightarrow> model_leg"

definition NoModelClassifier :: model_classifier where
  "NoModelClassifier toolID input = LegError (Err ''safety: no model classifier configured'')"

record classifier =
  Rules :: "rule list"
  Model :: model_classifier
  c_breaker :: safety_breaker

text \<open>The epoch's zero time is before every instant, so a new breaker is closed.\<close>

definition zero_time :: timestamp where
  "zero_time = - (62135596800 * 1000000000)"

definition NewClassifier :: "rule list \<Rightarrow> model_classifier option \<Rightarrow> classifier" where
  "NewClassifier rules model =
     \<lparr>Rules = rules,
      Model = (case model of None \<Rightarrow> NoModelClassifier | Some m \<Rightarrow> m),
      c_breaker = \<lparr>failures = 0, openUntil = zero_time, sb_threshold = 3, cooldown = 30 * 1000000000\<rparr>\<rparr>"

text \<open>\<open>now\<close> is read before the model leg, \<open>later\<close> after it.\<close>

definition Classify_safety ::
    "classifier \<Rightarrow> timestamp \<Rightarrow> timestamp \<Rightarrow> string \<Rightarrow> string \<Rightarrow> safety_result \<times> classifier" where
  "Classify_safety c now later toolID rawInput =
     (let text = toolID @ '' '' @ rawInput in
      case find (\<lambda>r. MatchString (Pattern r) text) (Rules c) of
        Some r \<Rightarrow> (\<lparr>Verdict = RuleVerdict r, SReason = ''rule:'' @ RuleName r @ '': '' @ RuleReason r\<rparr>, c)
      | None \<Rightarrow>
          if sb_isopen (c_breaker c) now
          then (\<lparr>Verdict = VerdictAsk, SReason = ''safety model leg circuit breaker open; failing closed to ask''\<rparr>, c)
          else
            (case Model c toolID rawInput of
               LegTimedOut \<Rightarrow>
                 (\<lparr>Verdict = VerdictAsk, SReason = ''safety model leg timed out; failing closed to ask''\<rparr>,
                  c\<lparr>c_breaker := sb_recordFailure (c_breaker c) later\<rparr>)
             | LegError er \<Rightarrow>
                 (\<lparr>Verdict = VerdictAsk,
                   SReason = ''safety model leg unavailable ('' @ err_msg er @ ''); failing closed to ask''\<rparr>,
                  c\<lparr>c_breaker := sb_recordFailure (c_breaker c) later\<rparr>)
             | LegAnswer v reason \<Rightarrow>
                 (\<lparr>Verdict = v, SReason = reason\<rparr>, c\<lparr>c_breaker := sb_recordSuccess (c_breaker c)\<rparr>)))"

section \<open>Matching\<close>

lemma ends_lit: "ends (lit s) (pv, s @ rest) = [(if s = [] then pv else Some (last s), rest)]"
  by (induction s arbitrary: pv) (auto simp: lit_def)

lemma match_from_here: "ends r (pv, s) \<noteq> [] \<Longrightarrow> match_from r pv s"
  by (cases s) simp_all

lemma match_from_skip:
  "ends r (if pre = [] then pv else Some (last pre), s) \<noteq> [] \<Longrightarrow> match_from r pv (pre @ s)"
proof (induction pre arbitrary: pv)
  case (Cons c pre)
  then have "match_from r (Some c) (pre @ s)" by (cases "pre = []") auto
  then show ?case by simp
qed (simp add: match_from_here)

text \<open>A word is found wherever it stands between word boundaries.\<close>

lemma MatchString_sudo:
  assumes "pre = [] \<or> \<not> is_word (last pre)" and "post = [] \<or> \<not> is_word (hd post)"
  shows "MatchString re_sudo (pre @ ''sudo'' @ post)"
proof -
  let ?pv = "if pre = [] then None else Some (last pre)"
  have w: "is_word (CHR ''s'')" "is_word (CHR ''o'')" by (simp_all add: is_word_def)
  have "ends WordB (?pv, ''sudo'' @ post) = [(?pv, ''sudo'' @ post)]"
    using assms(1) w by (auto simp: word_before_def word_after_def)
  moreover have "ends (lit ''sudo'') (?pv, ''sudo'' @ post) = [(Some (CHR ''o''), post)]"
    by (subst ends_lit) simp
  moreover have "ends WordB (Some (CHR ''o''), post) = [(Some (CHR ''o''), post)]"
    using assms(2) w by (cases post) (auto simp: word_before_def word_after_def)
  ultimately have "ends re_sudo (?pv, ''sudo'' @ post) \<noteq> []"
    by (simp add: re_sudo_def seqs_def del: ends.simps(5))
  then show ?thesis unfolding MatchString_def by (rule match_from_skip)
qed

text \<open>
  with the default rules an invocation that contains the word \<^verbatim>\<open>sudo\<close> is denied or asked
  about, whatever the model leg answers and whatever state the breaker is in, and the model
  leg is not consulted.
\<close>

theorem sudo_never_passes:
  assumes "Rules c = DefaultRules" and "toolID @ '' '' @ rawInput = pre @ ''sudo'' @ post"
    and "pre = [] \<or> \<not> is_word (last pre)" and "post = [] \<or> \<not> is_word (hd post)"
  shows "Verdict (fst (Classify_safety c now later toolID rawInput)) \<in> {VerdictDeny, VerdictAsk} \<and>
         snd (Classify_safety c now later toolID rawInput) = c"
proof -
  let ?p = "\<lambda>r. MatchString (Pattern r) (toolID @ '' '' @ rawInput)"
  have sudo: "MatchString re_sudo (toolID @ '' '' @ rawInput)"
    unfolding assms(2) by (rule MatchString_sudo [OF assms(3,4)])
  have "\<exists>r. find ?p DefaultRules = Some r \<and> RuleVerdict r \<in> {VerdictDeny, VerdictAsk}"
    using sudo by (simp add: DefaultRules_def)
  then obtain r where "find ?p DefaultRules = Some r" "RuleVerdict r \<in> {VerdictDeny, VerdictAsk}" by blast
  then show ?thesis using assms(1) by (simp add: Classify_safety_def)
qed

definition ex_classifier :: classifier where
  "ex_classifier = NewClassifier DefaultRules (Some (\<lambda>_ _. LegAnswer VerdictDefer ''fine''))"

theorem sudo_never_passes_witness:
  "Verdict (fst (Classify_safety ex_classifier 0 0 ''bash'' ''sudo ls'')) \<in> {VerdictDeny, VerdictAsk}"
  using sudo_never_passes [of ex_classifier "''bash''" "''sudo ls''" "''bash ''" "'' ls''" 0 0]
  by (simp add: ex_classifier_def NewClassifier_def is_word_def)

text \<open>
  the classifier never invents a permission: its verdict is a matching rule's, or the model
  leg's own answer when that leg answered in time with a closed breaker, and in every other case,
  an open breaker, a timeout or an error, it asks.
\<close>

theorem Classify_fails_closed:
  "case Classify_safety c now later toolID rawInput of (r, c') \<Rightarrow>
     (case find (\<lambda>r. MatchString (Pattern r) (toolID @ '' '' @ rawInput)) (Rules c) of
        Some rl \<Rightarrow> Verdict r = RuleVerdict rl \<and> c' = c
      | None \<Rightarrow>
          (case Model c toolID rawInput of
             LegAnswer v reason \<Rightarrow>
               (if sb_isopen (c_breaker c) now then Verdict r = VerdictAsk else Verdict r = v)
           | _ \<Rightarrow> Verdict r = VerdictAsk))"
  by (simp add: Classify_safety_def Let_def split: option.splits model_leg.splits)

end
