(* ===== verification/Permissions.thy ===== *)
theory Permissions
  imports Safety
begin

text \<open>
  The ten-layer permission chain (\<^verbatim>\<open>internal/permissions\<close>): deny rules, the autonomy ratchet, tool
  profiles, the Rule of Two, the approval policy, standing scopes and the walk that folds
  them in one published order. The lemmas reduce the walk to the list of its layers'
  outcomes and give its answer from that list; from there follow the finality of a denial,
  the unconditional layers six and seven, and the limits of a standing scope.
\<close>

section \<open>Vocabulary\<close>

text \<open>\<^verbatim>\<open>Decision\<close> is an open string type: the safety verdict is converted into it unchecked.\<close>

datatype decision_word = Allow | Ask | Deny | Defer | OtherDecision string

definition to_decision :: "string \<Rightarrow> decision_word" where
  "to_decision s =
     (if s = ''allow'' then Allow else if s = ''ask'' then Ask
      else if s = ''deny'' then Deny else if s = ''defer'' then Defer else OtherDecision s)"

datatype ask_kind = AskNone | AskOnce | AskSession | AskMultiParty

fun ask_kind_str :: "ask_kind \<Rightarrow> string" where
  "ask_kind_str AskNone = ''''"
| "ask_kind_str AskOnce = ''once''"
| "ask_kind_str AskSession = ''session''"
| "ask_kind_str AskMultiParty = ''multi_party''"

datatype layer =
    LayerUnset | LayerDenyRules | LayerPreToolUseHooks | LayerAutonomy | LayerGate1Profile
  | LayerGate2Capability | LayerGate3Safety | LayerRuleOfTwo | LayerApprovalPolicy
  | LayerStandingScope | LayerFallbackAllow

fun layer_String :: "layer \<Rightarrow> string" where
  "layer_String LayerUnset = ''''"
| "layer_String LayerDenyRules = ''deny_rules''"
| "layer_String LayerPreToolUseHooks = ''pre_tool_use_hooks''"
| "layer_String LayerAutonomy = ''autonomy''"
| "layer_String LayerGate1Profile = ''gate1_tool_profile''"
| "layer_String LayerGate2Capability = ''gate2_capability''"
| "layer_String LayerGate3Safety = ''gate3_safety''"
| "layer_String LayerRuleOfTwo = ''rule_of_two''"
| "layer_String LayerApprovalPolicy = ''approval_policy''"
| "layer_String LayerStandingScope = ''standing_scope''"
| "layer_String LayerFallbackAllow = ''fallback_allow''"

datatype effect_class = EffectReadOnly | EffectMutating | EffectExternal | EffectOther string

fun effect_str :: "effect_class \<Rightarrow> string" where
  "effect_str EffectReadOnly = ''read_only''"
| "effect_str EffectMutating = ''mutating''"
| "effect_str EffectExternal = ''external''"
| "effect_str (EffectOther s) = s"

record taint =
  ReturnsUntrusted :: bool
  ReadsPrivateData :: bool
  MutatesExternal :: bool

record layer_outcome =
  LDecision :: decision_word
  LReason :: string
  LAskKind :: ask_kind

definition outcome :: "decision_word \<Rightarrow> string \<Rightarrow> layer_outcome" where
  "outcome d reason = \<lparr>LDecision = d, LReason = reason, LAskKind = AskNone\<rparr>"

record resolution =
  RDecision :: decision_word
  RLayer :: layer
  RReason :: string
  RAskKind :: ask_kind

section \<open>The layers\<close>

definition matchGlob :: "string \<Rightarrow> string \<Rightarrow> string \<Rightarrow> bool" where
  "matchGlob pattern toolID namespace =
     (if pattern = '''' \<or> pattern = ''*'' then True
      else if pattern = toolID then True
      else if suffix ''/*'' pattern then take (length pattern - 2) pattern = namespace
      else pattern = namespace)"

text \<open>A rule's optional pattern is the predicate its compiled regular expression decides.\<close>

record deny_rule =
  DenyName :: string
  DenyTool :: string
  DenyPattern :: "(string \<Rightarrow> bool) option"
  DenyReason :: string

definition deny_matches :: "deny_rule \<Rightarrow> string \<Rightarrow> string \<Rightarrow> string \<Rightarrow> bool" where
  "deny_matches r toolID namespace rawInput =
     (if \<not> matchGlob (DenyTool r) toolID namespace then False
      else case DenyPattern r of Some p \<Rightarrow> p rawInput | None \<Rightarrow> True)"

definition ResolveDenyRules :: "deny_rule list \<Rightarrow> string \<Rightarrow> string \<Rightarrow> string \<Rightarrow> layer_outcome" where
  "ResolveDenyRules rules toolID namespace rawInput =
     (case find (\<lambda>r. deny_matches r toolID namespace rawInput) rules of
        Some r \<Rightarrow> outcome Deny (''deny rule '' @ DenyName r @ '': '' @ DenyReason r)
      | None \<Rightarrow> outcome Defer ''no deny rule matched'')"

type_synonym autonomy_level = int

definition AutonomyReadOnly :: autonomy_level where "AutonomyReadOnly = 0"
definition AutonomySupervised :: autonomy_level where "AutonomySupervised = 1"
definition AutonomyAutonomous :: autonomy_level where "AutonomyAutonomous = 2"

lemmas autonomy_defs = AutonomyReadOnly_def AutonomySupervised_def AutonomyAutonomous_def

definition level_String :: "autonomy_level \<Rightarrow> string" where
  "level_String l =
     (if l = AutonomyReadOnly then ''read_only''
      else if l = AutonomySupervised then ''supervised''
      else if l = AutonomyAutonomous then ''autonomous'' else ''autonomy_level('' @ dec_int l @ '')'')"

definition ParseAutonomyLevel :: "string \<Rightarrow> autonomy_level \<times> err option" where
  "ParseAutonomyLevel s =
     (if s = ''read_only'' then (AutonomyReadOnly, None)
      else if s = ''supervised'' then (AutonomySupervised, None)
      else if s = ''autonomous'' then (AutonomyAutonomous, None)
      else (AutonomyReadOnly, Some (Err (''permissions: unknown autonomy level '' @ quoted s))))"

record autonomy =
  level :: autonomy_level

definition Pin :: "autonomy_level \<Rightarrow> autonomy" where
  "Pin l = \<lparr>level = l\<rparr>"

definition Tighten :: "autonomy \<Rightarrow> autonomy_level \<Rightarrow> err option \<times> autonomy" where
  "Tighten a target =
     (if target > level a
      then (Some (Err (''permissions: cannot widen autonomy from '' @ level_String (level a) @ '' to '' @ level_String target)), a)
      else (None, a\<lparr>level := target\<rparr>))"

definition Autonomy_Resolve :: "autonomy \<Rightarrow> effect_class \<Rightarrow> layer_outcome" where
  "Autonomy_Resolve a ec =
     (if ec = EffectReadOnly then outcome Defer ''read-only effect class''
      else if level a = AutonomyReadOnly
      then outcome Deny (''autonomy level '' @ level_String (level a) @ '' permits read-only effects only'')
      else if level a = AutonomySupervised
      then \<lparr>LDecision = Ask,
            LReason = ''autonomy level '' @ level_String (level a) @ '' requires approval for a '' @ effect_str ec @ '' effect'',
            LAskKind = AskOnce\<rparr>
      else if level a = AutonomyAutonomous
      then outcome Defer ''autonomy level autonomous defers non-read-only effects to the remaining layers''
      else outcome Deny (''unrecognized autonomy level '' @ level_String (level a) @ ''; failing closed''))"

record tool_profile =
  ProfName :: string
  ProfVersion :: int
  prof_tools :: "string \<Rightarrow> bool"

definition NewToolProfile :: "string \<Rightarrow> int \<Rightarrow> string list \<Rightarrow> tool_profile" where
  "NewToolProfile name version toolRefs =
     \<lparr>ProfName = name, ProfVersion = version, prof_tools = (\<lambda>t. t \<in> set toolRefs)\<rparr>"

definition Has :: "tool_profile \<Rightarrow> string \<Rightarrow> bool" where
  "Has p toolID = prof_tools p toolID"

type_synonym profile_set = "tool_profile list"

definition ProfileSet_Resolve :: "profile_set \<Rightarrow> string \<Rightarrow> layer_outcome" where
  "ProfileSet_Resolve profiles toolID =
     (case find (\<lambda>p. Has p toolID) profiles of
        Some p \<Rightarrow> outcome Defer (''member of tool profile '' @ ProfName p @ ''@v'' @ dec_int (ProfVersion p))
      | None \<Rightarrow> outcome Deny ''not a member of any tool profile bound to this session'')"

text \<open>The three legs of the Rule of Two: untrusted input, private data, external effect.\<close>

record taint_state =
  EngagedUntrusted :: bool
  EngagedPrivate :: bool
  EngagedExternal :: bool

definition clean_taint :: taint_state where
  "clean_taint = \<lparr>EngagedUntrusted = False, EngagedPrivate = False, EngagedExternal = False\<rparr>"

definition engagedCount :: "taint_state \<Rightarrow> nat" where
  "engagedCount s = of_bool (EngagedUntrusted s) + of_bool (EngagedPrivate s) + of_bool (EngagedExternal s)"

definition Rebaseline :: "taint_state \<Rightarrow> taint_state" where
  "Rebaseline s = s\<lparr>EngagedUntrusted := False\<rparr>"

definition engage :: "taint_state \<Rightarrow> taint \<Rightarrow> taint_state" where
  "engage s t =
     \<lparr>EngagedUntrusted = (if ReturnsUntrusted t then True else EngagedUntrusted s),
      EngagedPrivate = (if ReadsPrivateData t then True else EngagedPrivate s),
      EngagedExternal = (if MutatesExternal t then True else EngagedExternal s)\<rparr>"

definition ResolveRuleOfTwo :: "taint_state \<Rightarrow> taint \<Rightarrow> layer_outcome \<times> taint_state" where
  "ResolveRuleOfTwo s t =
     (let next = engage s t in
      if engagedCount next > 2
      then (\<lparr>LDecision = Ask,
             LReason = ''this call would engage a third Rule-of-Two leg within the same session'',
             LAskKind = AskSession\<rparr>, next)
      else (outcome Defer ''within the two-leg Rule-of-Two budget'', next))"

type_synonym approval_policy = "effect_class \<rightharpoonup> ask_kind"

definition Approval_Resolve :: "approval_policy \<Rightarrow> effect_class \<Rightarrow> layer_outcome" where
  "Approval_Resolve p ec =
     (case p ec of
        Some kind \<Rightarrow>
          \<lparr>LDecision = Ask,
           LReason = ''approval policy requires a '' @ quoted (ask_kind_str kind) @ '' approval for '' @ effect_str ec @ '' effects'',
           LAskKind = kind\<rparr>
      | None \<Rightarrow> outcome Defer ''approval policy: auto'')"

record standing_scope =
  ScopeName :: string
  ToolPattern :: string

definition covers :: "standing_scope \<Rightarrow> string \<Rightarrow> string \<Rightarrow> bool" where
  "covers s toolID namespace = matchGlob (ToolPattern s) toolID namespace"

section \<open>The walk\<close>

record chain =
  DenyRules :: "deny_rule list"
  Profiles :: profile_set
  Approval :: approval_policy
  StandingScopes :: "standing_scope list"
  ChainSafety :: classifier

definition NewChain ::
    "deny_rule list \<Rightarrow> profile_set \<Rightarrow> approval_policy \<Rightarrow> standing_scope list \<Rightarrow> classifier option \<Rightarrow> chain" where
  "NewChain dr ps ap ss sf =
     \<lparr>DenyRules = dr, Profiles = ps, Approval = ap, StandingScopes = ss,
      ChainSafety = (case sf of None \<Rightarrow> NewClassifier DefaultRules None | Some c \<Rightarrow> c)\<rparr>"

record chain_request =
  ReqToolID :: string
  ReqNamespace :: string
  ReqEffect :: effect_class
  ReqTaint :: taint
  ReqInput :: string
  ReqAutonomy :: "autonomy option"
  HookOutcome :: layer_outcome
  Gate2 :: layer_outcome
  ReqTaintState :: taint_state

record chain_result =
  Res :: resolution
  ResTaint :: taint_state

definition guardNotAllow :: "layer \<Rightarrow> layer_outcome \<Rightarrow> err + layer_outcome" where
  "guardNotAllow l ou =
     (if LDecision ou = Allow
      then Inl (Err (''permissions: layer '' @ layer_String l @ '' resolved Allow, which is not a valid layer outcome''))
      else Inr ou)"

text \<open>The closure \<^verbatim>\<open>fold\<close>: whether to stop, and the accumulated resolution.\<close>

definition fold_layer :: "layer \<Rightarrow> layer_outcome \<Rightarrow> resolution \<Rightarrow> err + bool \<times> resolution" where
  "fold_layer l raw accumulated =
     (case guardNotAllow l raw of
        Inl er \<Rightarrow> Inl er
      | Inr ou \<Rightarrow>
          Inr (case LDecision ou of
                 Deny \<Rightarrow> (True, \<lparr>RDecision = Deny, RLayer = l, RReason = LReason ou, RAskKind = AskNone\<rparr>)
               | Ask \<Rightarrow>
                   (False, if RDecision accumulated \<noteq> Ask
                           then \<lparr>RDecision = Ask, RLayer = l, RReason = LReason ou, RAskKind = LAskKind ou\<rparr>
                           else accumulated)
               | _ \<Rightarrow> (False, accumulated)))"

text \<open>One \<^verbatim>\<open>if stop, err := fold(...); err != nil || stop { return ... }\<close> followed by the rest.\<close>

definition layer_step ::
    "layer \<Rightarrow> layer_outcome \<Rightarrow> taint_state \<Rightarrow> 'c \<Rightarrow> resolution
      \<Rightarrow> (resolution \<Rightarrow> (chain_result \<times> err option) \<times> 'c) \<Rightarrow> (chain_result \<times> err option) \<times> 'c" where
  "layer_step l raw ts c accumulated rest =
     (case fold_layer l raw accumulated of
        Inl er \<Rightarrow> ((\<lparr>Res = accumulated, ResTaint = ts\<rparr>, Some er), c)
      | Inr (halt, accumulated') \<Rightarrow>
          if halt then ((\<lparr>Res = accumulated', ResTaint = ts\<rparr>, None), c) else rest accumulated')"

definition autonomy_outcome :: "chain_request \<Rightarrow> layer_outcome" where
  "autonomy_outcome req =
     (case ReqAutonomy req of
        None \<Rightarrow> outcome Defer ''no autonomy pinned''
      | Some a \<Rightarrow> Autonomy_Resolve a (ReqEffect req))"

text \<open>Layers nine and ten, once the first eight have been folded in.\<close>

definition standing_or_allow :: "chain \<Rightarrow> chain_request \<Rightarrow> resolution \<Rightarrow> resolution" where
  "standing_or_allow c req accumulated =
     (if RDecision accumulated = Ask then
        (case find (\<lambda>s. covers s (ReqToolID req) (ReqNamespace req)) (StandingScopes c) of
           Some scope \<Rightarrow>
             \<lparr>RDecision = Allow, RLayer = LayerStandingScope,
              RReason = ''standing scope '' @ quoted (ScopeName scope) @ '' satisfied the ask raised at layer ''
                          @ layer_String (RLayer accumulated),
              RAskKind = AskNone\<rparr>
         | None \<Rightarrow> accumulated)
      else
        \<lparr>RDecision = Allow, RLayer = LayerFallbackAllow, RReason = ''no layer objected'', RAskKind = AskNone\<rparr>)"

definition Resolve ::
    "chain \<Rightarrow> timestamp \<Rightarrow> timestamp \<Rightarrow> chain_request \<Rightarrow> (chain_result \<times> err option) \<times> chain" where
  "Resolve c now later req =
     (let acc0 = \<lparr>RDecision = Defer, RLayer = LayerUnset, RReason = '''', RAskKind = AskNone\<rparr>;
          ts = ReqTaintState req in
      layer_step LayerDenyRules (ResolveDenyRules (DenyRules c) (ReqToolID req) (ReqNamespace req) (ReqInput req)) ts c acc0 (\<lambda>acc1.
      layer_step LayerPreToolUseHooks (HookOutcome req) ts c acc1 (\<lambda>acc2.
      layer_step LayerAutonomy (autonomy_outcome req) ts c acc2 (\<lambda>acc3.
      layer_step LayerGate1Profile (ProfileSet_Resolve (Profiles c) (ReqToolID req)) ts c acc3 (\<lambda>acc4.
      layer_step LayerGate2Capability (Gate2 req) ts c acc4 (\<lambda>acc5.
      (let (sr, sf) = Classify_safety (ChainSafety c) now later (ReqToolID req) (ReqInput req);
           c' = c\<lparr>ChainSafety := sf\<rparr> in
      layer_step LayerGate3Safety (outcome (to_decision (Verdict sr)) (SReason sr)) ts c' acc5 (\<lambda>acc6.
      (let (rot, nextTaintState) = ResolveRuleOfTwo ts (ReqTaint req) in
      layer_step LayerRuleOfTwo rot nextTaintState c' acc6 (\<lambda>acc7.
      layer_step LayerApprovalPolicy (Approval_Resolve (Approval c) (ReqEffect req)) nextTaintState c' acc7 (\<lambda>acc8.
      ((\<lparr>Res = standing_or_allow c req acc8, ResTaint = nextTaintState\<rparr>, None), c'))))))))))))"

section \<open>The walk as a fold over the layers' outcomes\<close>

definition safety_of :: "chain \<Rightarrow> timestamp \<Rightarrow> timestamp \<Rightarrow> chain_request \<Rightarrow> safety_result \<times> classifier" where
  "safety_of c now later req = Classify_safety (ChainSafety c) now later (ReqToolID req) (ReqInput req)"

definition layer_outcomes :: "chain \<Rightarrow> timestamp \<Rightarrow> timestamp \<Rightarrow> chain_request \<Rightarrow> (layer \<times> layer_outcome) list" where
  "layer_outcomes c now later req =
     [(LayerDenyRules, ResolveDenyRules (DenyRules c) (ReqToolID req) (ReqNamespace req) (ReqInput req)),
      (LayerPreToolUseHooks, HookOutcome req),
      (LayerAutonomy, autonomy_outcome req),
      (LayerGate1Profile, ProfileSet_Resolve (Profiles c) (ReqToolID req)),
      (LayerGate2Capability, Gate2 req),
      (LayerGate3Safety,
         outcome (to_decision (Verdict (fst (safety_of c now later req)))) (SReason (fst (safety_of c now later req)))),
      (LayerRuleOfTwo, fst (ResolveRuleOfTwo (ReqTaintState req) (ReqTaint req))),
      (LayerApprovalPolicy, Approval_Resolve (Approval c) (ReqEffect req))]"

fun walk :: "(layer \<times> layer_outcome) list \<Rightarrow> resolution \<Rightarrow> err + bool \<times> resolution" where
  "walk [] acc = Inr (False, acc)"
| "walk ((l, ou) # os) acc =
     (case fold_layer l ou acc of
        Inl er \<Rightarrow> Inl er
      | Inr (halt, acc') \<Rightarrow> if halt then Inr (True, acc') else walk os acc')"

definition acc0 :: resolution where
  "acc0 = \<lparr>RDecision = Defer, RLayer = LayerUnset, RReason = '''', RAskKind = AskNone\<rparr>"

lemma layer_step_walk:
  "layer_step l raw ts c acc rest =
     (case walk [(l, raw)] acc of
        Inl er \<Rightarrow> ((\<lparr>Res = acc, ResTaint = ts\<rparr>, Some er), c)
      | Inr (halt, acc') \<Rightarrow> if halt then ((\<lparr>Res = acc', ResTaint = ts\<rparr>, None), c) else rest acc')"
  by (auto simp: layer_step_def split: sum.splits)

text \<open>What a walk's result says about the answer; the rest of the walk says the same of its own.\<close>

definition answers :: "chain \<Rightarrow> chain_request \<Rightarrow> err + bool \<times> resolution \<Rightarrow> (chain_result \<times> err option) \<times> chain \<Rightarrow> bool" where
  "answers c req w r =
     (case w of
        Inl er \<Rightarrow> snd (fst r) = Some er
      | Inr (halt, acc) \<Rightarrow>
          snd (fst r) = None \<and> Res (fst (fst r)) = (if halt then acc else standing_or_allow c req acc))"

lemma layer_step_answers:
  assumes "\<And>acc'. fold_layer l raw acc = Inr (False, acc') \<Longrightarrow> answers c req (walk os acc') (rest acc')"
  shows "answers c req (walk ((l, raw) # os) acc) (layer_step l raw ts c' acc rest)"
  using assms by (auto simp: answers_def layer_step_def split: sum.splits prod.splits)

lemma Resolve_answers: "answers c req (walk (layer_outcomes c now later req) acc0) (Resolve c now later req)"
  unfolding Resolve_def layer_outcomes_def safety_of_def Let_def split_beta acc0_def
  by (intro layer_step_answers) (simp add: answers_def)

definition halts :: "layer \<times> layer_outcome \<Rightarrow> bool" where
  "halts p = (LDecision (snd p) = Deny \<or> LDecision (snd p) = Allow)"

definition asks :: "layer \<times> layer_outcome \<Rightarrow> bool" where
  "asks p = (LDecision (snd p) = Ask)"

lemma walk_by_outcomes:
  "walk os acc =
     (case find halts os of
        Some (l, ou) \<Rightarrow>
          (if LDecision ou = Allow
           then Inl (Err (''permissions: layer '' @ layer_String l @ '' resolved Allow, which is not a valid layer outcome''))
           else Inr (True, \<lparr>RDecision = Deny, RLayer = l, RReason = LReason ou, RAskKind = AskNone\<rparr>))
      | None \<Rightarrow>
          Inr (False, if RDecision acc = Ask then acc
                      else case find asks os of
                             None \<Rightarrow> acc
                           | Some (l, ou) \<Rightarrow>
                               \<lparr>RDecision = Ask, RLayer = l, RReason = LReason ou, RAskKind = LAskKind ou\<rparr>))"
proof (induction os arbitrary: acc)
  case (Cons p os)
  obtain l ou where p: "p = (l, ou)" by (cases p)
  show ?case
    by (cases "LDecision ou")
       (simp_all add: p Cons.IH halts_def asks_def fold_layer_def guardNotAllow_def split: option.splits)
qed simp

text \<open>
  C24: the chain's answer is determined by the outcomes of its eight layers in their published
  order. The first denial is final and names its layer; a layer that claims to allow is an
  error; otherwise the first layer that asks decides, unless a standing scope covers the tool
  and satisfies it; and a call is allowed outright only when no layer denied or asked.
\<close>

theorem Resolve_by_outcomes:
  "let outs = layer_outcomes c now later req;
       res = Res (fst (fst (Resolve c now later req)));
       er = snd (fst (Resolve c now later req))
   in case find halts outs of
        Some (l, ou) \<Rightarrow>
          (if LDecision ou = Allow then er \<noteq> None
           else er = None \<and> RDecision res = Deny \<and> RLayer res = l \<and> RReason res = LReason ou)
      | None \<Rightarrow>
          er = None \<and>
          (case find asks outs of
             None \<Rightarrow> RDecision res = Allow \<and> RLayer res = LayerFallbackAllow
           | Some (l, ou) \<Rightarrow>
               (if list_ex (\<lambda>s. covers s (ReqToolID req) (ReqNamespace req)) (StandingScopes c)
                then RDecision res = Allow \<and> RLayer res = LayerStandingScope
                else RDecision res = Ask \<and> RLayer res = l \<and> RAskKind res = LAskKind ou))"
proof -
  have scope: "list_ex P xs \<longleftrightarrow> find P xs \<noteq> None" for P and xs :: "standing_scope list"
    by (induction xs) auto
  show ?thesis
    using Resolve_answers [of c req now later]
    unfolding walk_by_outcomes [of "layer_outcomes c now later req" acc0] scope
    by (auto simp: answers_def standing_or_allow_def acc0_def Let_def split: option.splits if_splits)
qed

section \<open>Consequences\<close>

definition evaluated :: "chain \<Rightarrow> timestamp \<Rightarrow> timestamp \<Rightarrow> chain_request \<Rightarrow> (chain_result \<times> err option) \<times> chain \<Rightarrow> bool" where
  "evaluated c now later req r \<longleftrightarrow>
     snd (fst r) = None \<longrightarrow> RDecision (Res (fst (fst r))) \<noteq> Deny \<longrightarrow>
     snd r = c\<lparr>ChainSafety := snd (safety_of c now later req)\<rparr> \<and>
     ResTaint (fst (fst r)) = engage (ReqTaintState req) (ReqTaint req)"

lemma layer_step_evaluated:
  "(\<And>acc'. evaluated c now later req (rest acc')) \<Longrightarrow> evaluated c now later req (layer_step l raw ts c' acc rest)"
  by (auto simp: evaluated_def layer_step_def fold_layer_def guardNotAllow_def
      split: sum.splits decision_word.splits if_splits)

lemma ResolveRuleOfTwo_snd: "snd (ResolveRuleOfTwo s t) = engage s t"
  by (simp add: ResolveRuleOfTwo_def Let_def)

lemma Resolve_evaluated: "evaluated c now later req (Resolve c now later req)"
  unfolding Resolve_def Let_def split_beta safety_of_def
  by (intro layer_step_evaluated) (simp add: evaluated_def safety_of_def ResolveRuleOfTwo_snd)

definition ex_request :: chain_request where
  "ex_request =
     \<lparr>ReqToolID = ''fs/read@1'', ReqNamespace = ''fs'', ReqEffect = EffectMutating,
      ReqTaint = \<lparr>ReturnsUntrusted = True, ReadsPrivateData = False, MutatesExternal = False\<rparr>,
      ReqInput = ''{}'', ReqAutonomy = Some (Pin AutonomySupervised),
      HookOutcome = outcome Defer '''', Gate2 = outcome Defer '''', ReqTaintState = clean_taint\<rparr>"

definition ex_chain :: chain where
  "ex_chain = NewChain [] [NewToolProfile ''p'' 1 [''fs/read@1'']] [EffectMutating \<mapsto> AskMultiParty]
     [\<lparr>ScopeName = ''s'', ToolPattern = ''fs/*''\<rparr>] (Some ex_classifier)"

lemma ex_Resolve:
  "snd (fst (Resolve ex_chain 0 0 ex_request)) = None \<and>
   RDecision (Res (fst (fst (Resolve ex_chain 0 0 ex_request)))) = Allow \<and>
   RLayer (Res (fst (fst (Resolve ex_chain 0 0 ex_request)))) = LayerStandingScope"
proof -
  have "(case Resolve ex_chain 0 0 ex_request of ((r, er), _) \<Rightarrow> (er, RDecision (Res r), RLayer (Res r)))
      = (None, Allow, LayerStandingScope)"
    by code_simp
  then show ?thesis by (simp add: split_beta)
qed

text \<open>
  C25: no invocation is allowed or put to a human without layers six and seven having run: the
  classifier has moved to the state its call leaves, its verdict was neither a denial nor an
  allowance, and the session's taint has taken in the call's declared legs. A standing scope
  that covers the tool changes nothing of this.
\<close>

theorem safety_and_rule_of_two_always_run:
  assumes "snd (fst (Resolve c now later req)) = None"
    and "RDecision (Res (fst (fst (Resolve c now later req)))) \<noteq> Deny"
  shows "ChainSafety (snd (Resolve c now later req)) =
           snd (Classify_safety (ChainSafety c) now later (ReqToolID req) (ReqInput req)) \<and>
         Verdict (fst (Classify_safety (ChainSafety c) now later (ReqToolID req) (ReqInput req)))
           \<notin> {''deny'', ''allow''} \<and>
         ResTaint (fst (fst (Resolve c now later req))) = engage (ReqTaintState req) (ReqTaint req)"
proof -
  from Resolve_evaluated [of c now later req] assms
  have ev: "snd (Resolve c now later req) = c\<lparr>ChainSafety := snd (safety_of c now later req)\<rparr>"
    "ResTaint (fst (fst (Resolve c now later req))) = engage (ReqTaintState req) (ReqTaint req)"
    by (auto simp: evaluated_def)
  have "find halts (layer_outcomes c now later req) = None"
    using Resolve_answers [of c req now later] assms
    unfolding walk_by_outcomes [of "layer_outcomes c now later req" acc0]
    by (auto simp: answers_def split: option.splits if_splits)
  then have "Verdict (fst (safety_of c now later req)) \<notin> {''deny'', ''allow''}"
    by (auto simp: layer_outcomes_def halts_def outcome_def to_decision_def find_None_iff split: if_splits)
  with ev show ?thesis by (simp add: safety_of_def)
qed

theorem safety_and_rule_of_two_always_run_witness:
  "EngagedUntrusted (ResTaint (fst (fst (Resolve ex_chain 0 0 ex_request))))"
  using safety_and_rule_of_two_always_run [of ex_chain 0 0 ex_request] ex_Resolve
  by (simp add: engage_def ex_request_def)

text \<open>
  a session pinned to read-only never gets a call with any other effect class allowed or
  even put to a human: it is denied, or the chain reports a layer that broke its rules.
\<close>

theorem read_only_session_is_read_only:
  assumes "ReqAutonomy req = Some a" and "level a = AutonomyReadOnly" and "ReqEffect req \<noteq> EffectReadOnly"
  shows "snd (fst (Resolve c now later req)) \<noteq> None \<or>
         RDecision (Res (fst (fst (Resolve c now later req)))) = Deny"
proof -
  have "find halts (layer_outcomes c now later req) \<noteq> None"
    using assms by (simp add: layer_outcomes_def autonomy_outcome_def Autonomy_Resolve_def halts_def outcome_def)
  then show ?thesis
    using Resolve_answers [of c req now later]
    unfolding walk_by_outcomes [of "layer_outcomes c now later req" acc0]
    by (auto simp: answers_def split: option.splits if_splits)
qed

theorem read_only_session_is_read_only_witness:
  "RDecision (Res (fst (fst (Resolve ex_chain 0 0 (ex_request\<lparr>ReqAutonomy := Some (Pin AutonomyReadOnly)\<rparr>))))) = Deny"
    (is "RDecision (Res (fst (fst (Resolve _ _ _ ?req)))) = Deny")
proof -
  have "snd (fst (Resolve ex_chain 0 0 ?req)) = None" by code_simp
  with read_only_session_is_read_only [of ?req "Pin AutonomyReadOnly" ex_chain 0 0] show ?thesis
    by (simp add: Pin_def ex_request_def)
qed

text \<open>
  the autonomy level only moves towards read-only: after any sequence of tightening
  requests it is the least of the pinned level and the requested ones, refused requests
  included.
\<close>

theorem Tighten_ratchet:
  "level (foldl (\<lambda>a t. snd (Tighten a t)) a targets) = foldl min (level a) targets"
  by (induction targets arbitrary: a) (simp_all add: Tighten_def min_def)

text \<open>
  C26: whatever the session has done before, a call that would leave all three legs of the Rule of
  Two engaged is never allowed outright: it is denied, asked about, or covered by a standing
  scope.
\<close>

theorem third_leg_never_silent:
  assumes "snd (fst (Resolve c now later req)) = None"
    and "engagedCount (engage (ReqTaintState req) (ReqTaint req)) = 3"
  shows "RLayer (Res (fst (fst (Resolve c now later req)))) \<noteq> LayerFallbackAllow"
proof -
  have "find asks (layer_outcomes c now later req) \<noteq> None"
    using assms(2) by (simp add: layer_outcomes_def ResolveRuleOfTwo_def asks_def Let_def)
  then obtain l ou where ask: "find asks (layer_outcomes c now later req) = Some (l, ou)" by auto
  have in_outs: "p \<in> set (layer_outcomes c now later req) \<Longrightarrow> fst p \<noteq> LayerFallbackAllow" for p
    by (auto simp: layer_outcomes_def)
  have "l \<noteq> LayerFallbackAllow" using in_outs [of "(l, ou)"] find_SomeD [OF ask] by simp
  moreover have "l' \<noteq> LayerFallbackAllow" if "find halts (layer_outcomes c now later req) = Some (l', ou')" for l' ou'
    using in_outs [of "(l', ou')"] find_SomeD [OF that] by simp
  ultimately show ?thesis
    using Resolve_answers [of c req now later] assms(1) ask
    unfolding walk_by_outcomes [of "layer_outcomes c now later req" acc0]
    by (auto simp: answers_def standing_or_allow_def acc0_def split: option.splits if_splits)
qed

theorem third_leg_never_silent_witness:
  "RLayer (Res (fst (fst (Resolve ex_chain 0 0 (ex_request\<lparr>ReqTaintState :=
      \<lparr>EngagedUntrusted = False, EngagedPrivate = True, EngagedExternal = True\<rparr>\<rparr>))))) \<noteq> LayerFallbackAllow"
proof (rule third_leg_never_silent)
  show "snd (fst (Resolve ex_chain 0 0 (ex_request\<lparr>ReqTaintState :=
      \<lparr>EngagedUntrusted = False, EngagedPrivate = True, EngagedExternal = True\<rparr>\<rparr>))) = None"
    by code_simp
qed (simp add: engage_def engagedCount_def ex_request_def)

text \<open>
  C27: a supervised session's question hides the approval policy's: when a policy demands several
  approvers for an effect class and no layer denies and no scope covers the tool, the question
  raised is the autonomy layer's, to be answered once by one person.
\<close>

theorem supervised_ask_hides_policy:
  assumes "find halts (layer_outcomes c now later req) = None"
    and "LDecision (HookOutcome req) \<noteq> Ask"
    and "ReqAutonomy req = Some (Pin AutonomySupervised)" and "ReqEffect req \<noteq> EffectReadOnly"
    and "Approval c (ReqEffect req) = Some AskMultiParty"
    and "StandingScopes c = []"
  shows "RDecision (Res (fst (fst (Resolve c now later req)))) = Ask \<and>
         RAskKind (Res (fst (fst (Resolve c now later req)))) = AskOnce"
proof -
  have "LDecision (ResolveDenyRules (DenyRules c) (ReqToolID req) (ReqNamespace req) (ReqInput req)) \<noteq> Ask"
    by (simp add: ResolveDenyRules_def outcome_def split: option.splits)
  then have "find asks (layer_outcomes c now later req) = Some (LayerAutonomy, autonomy_outcome req)"
    using assms(2-4)
    by (simp add: layer_outcomes_def asks_def autonomy_outcome_def Autonomy_Resolve_def Pin_def autonomy_defs)
  then show ?thesis
    using Resolve_answers [of c req now later] assms(1,3,4,6)
    unfolding walk_by_outcomes [of "layer_outcomes c now later req" acc0]
    by (auto simp: answers_def standing_or_allow_def acc0_def autonomy_outcome_def Autonomy_Resolve_def
        Pin_def autonomy_defs split: if_splits)
qed

theorem supervised_ask_hides_policy_witness:
  "RAskKind (Res (fst (fst (Resolve (ex_chain\<lparr>StandingScopes := []\<rparr>) 0 0 ex_request)))) = AskOnce"
proof -
  have "find halts (layer_outcomes (ex_chain\<lparr>StandingScopes := []\<rparr>) 0 0 ex_request) = None"
    by code_simp
  from supervised_ask_hides_policy [OF this] show ?thesis
    by (simp add: ex_request_def ex_chain_def NewChain_def outcome_def)
qed

text \<open>
  a safety verdict outside the known words is treated as no opinion: an invocation for which
  the model leg answers with an unknown word, and to which no other layer objects, is allowed.
\<close>

theorem unknown_verdict_is_no_opinion:
  assumes "find (\<lambda>r. MatchString (Pattern r) (ReqToolID req @ '' '' @ ReqInput req)) (Rules (ChainSafety c)) = None"
    and "\<not> sb_isopen (c_breaker (ChainSafety c)) now"
    and "Model (ChainSafety c) (ReqToolID req) (ReqInput req) = LegAnswer v reason"
    and "v \<notin> {''allow'', ''ask'', ''deny''}"
    and "\<And>l ou. (l, ou) \<in> set (layer_outcomes c now later req) \<Longrightarrow> l \<noteq> LayerGate3Safety \<Longrightarrow> LDecision ou = Defer"
  shows "RDecision (Res (fst (fst (Resolve c now later req)))) = Allow"
proof -
  have v: "to_decision (Verdict (fst (safety_of c now later req))) \<notin> {Allow, Ask, Deny}"
    using assms(1-4) by (simp add: safety_of_def Classify_safety_def to_decision_def)
  have d: "LDecision ou \<notin> {Allow, Ask, Deny}" if "(l, ou) \<in> set (layer_outcomes c now later req)" for l ou
  proof (cases "l = LayerGate3Safety")
    case True
    with that v show ?thesis by (auto simp: layer_outcomes_def outcome_def)
  qed (use assms(5) [OF that] in simp)
  then have "find halts (layer_outcomes c now later req) = None" "find asks (layer_outcomes c now later req) = None"
    by (auto simp: find_None_iff halts_def asks_def)
  then show ?thesis
    using Resolve_answers [of c req now later]
    unfolding walk_by_outcomes [of "layer_outcomes c now later req" acc0]
    by (simp add: answers_def standing_or_allow_def acc0_def)
qed

theorem unknown_verdict_is_no_opinion_witness:
  "RDecision (Res (fst (fst (Resolve
     (ex_chain\<lparr>ChainSafety := NewClassifier DefaultRules (Some (\<lambda>_ _. LegAnswer ''maybe'' '''')), Approval := Map.empty\<rparr>)
     0 0 (ex_request\<lparr>ReqAutonomy := None\<rparr>))))) = Allow"
    (is "RDecision (Res (fst (fst (Resolve ?c 0 0 ?req)))) = Allow")
proof (rule unknown_verdict_is_no_opinion [where v = "''maybe''" and reason = "''''"])
  show "find (\<lambda>r. MatchString (Pattern r) (ReqToolID ?req @ '' '' @ ReqInput ?req)) (Rules (ChainSafety ?c)) = None"
    by code_simp
  have "list_all (\<lambda>(l, ou). l = LayerGate3Safety \<or> LDecision ou = Defer) (layer_outcomes ?c 0 0 ?req)"
    by code_simp
  then show "LDecision ou = Defer"
    if "(l, ou) \<in> set (layer_outcomes ?c 0 0 ?req)" "l \<noteq> LayerGate3Safety" for l ou
    using that by (auto simp: list_all_iff)
qed (simp_all add: NewClassifier_def sb_isopen_def zero_time_def)

end
