(* ===== verification/Hooks.thy ===== *)
theory Hooks
  imports Permissions Kernel_Types
begin

text \<open>
  The hook layer (\<^verbatim>\<open>internal/hooks\<close>): matchers, the condition AST, the dispatcher with its decision
  cache, per-turn cap and chain budget, and the allowlist for rewrites of a tool's input.
  Handlers are ports; what a text template renders to is an argument. The lemmas show that a
  hook never grants anything, that every matching hook ran unless the answer is a denial, and
  that rewrites stay inside the configured paths.
\<close>

section \<open>Types\<close>

datatype hook_event = PreToolUse | PostToolUse

datatype hook_kind = KindCommand | KindHTTP | KindPrompt | KindOther string

fun kind_str :: "hook_kind \<Rightarrow> string" where
  "kind_str KindCommand = ''command''"
| "kind_str KindHTTP = ''http''"
| "kind_str KindPrompt = ''prompt''"
| "kind_str (KindOther s) = s"

datatype expr = Expr
  (e_Eq: "(string \<times> string) option") (e_In: "(string \<times> string list) option")
  (e_And: "expr list") (e_Or: "expr list") (e_Not: "expr option")

fun Eval :: "expr \<Rightarrow> (string \<Rightarrow> string) \<Rightarrow> bool" where
  "Eval (Expr eq inn ands ors neg) vals =
     (case eq of
        Some (field, value) \<Rightarrow> vals field = value
      | None \<Rightarrow>
          (case inn of
             Some (field, values) \<Rightarrow> list_ex (\<lambda>v. vals field = v) values
           | None \<Rightarrow>
               (case neg of
                  Some e \<Rightarrow> \<not> Eval e vals
                | None \<Rightarrow>
                    if ands \<noteq> [] then list_all (\<lambda>e. Eval e vals) ands
                    else if ors \<noteq> [] then list_ex (\<lambda>e. Eval e vals) ors
                    else True)))"

text \<open>The timeout is in nanoseconds. The command line and URL of the other kinds are the handlers' business.\<close>

record hook_config =
  HookCfgName :: string
  HookEvent :: hook_event
  HookKind :: hook_kind
  Matcher :: string
  HookIf :: "expr option"
  Timeout :: int
  UpdatablePaths :: "string list"
  PromptDecision :: decision_word
  PromptTemplate :: string

record hook_context =
  CtxToolID :: string
  CtxNamespace :: string
  CtxEffectClass :: string
  CtxAutonomyLevel :: string
  CtxDataLabel :: string
  CtxInput :: bytes

definition hook_fields :: "hook_context \<Rightarrow> string \<Rightarrow> string" where
  "hook_fields c name =
     (if name = ''tool_id'' then CtxToolID c
      else if name = ''namespace'' then CtxNamespace c
      else if name = ''effect_class'' then CtxEffectClass c
      else if name = ''autonomy_level'' then CtxAutonomyLevel c
      else if name = ''data_label'' then CtxDataLabel c
      else '''')"

record hook_outcome =
  HDecision :: decision_word
  HReason :: string
  UpdatedInput :: "bytes option"
  HookName :: string

definition no_hook_outcome :: hook_outcome where
  "no_hook_outcome = \<lparr>HDecision = Defer, HReason = '''', UpdatedInput = None, HookName = ''''\<rparr>"

definition matchesTool :: "string \<Rightarrow> string \<Rightarrow> string \<Rightarrow> bool" where
  "matchesTool pattern toolID namespace =
     (if pattern = '''' \<or> pattern = ''*'' then True
      else if pattern = toolID then True
      else if suffix ''/*'' pattern then take (length pattern - 2) pattern = namespace
      else pattern = namespace)"

section \<open>The dispatcher\<close>

text \<open>What a handler's run comes to: its context may have expired, whatever it returned.\<close>

datatype handler_answer =
    HandlerTimedOut
  | HandlerError err
  | HandlerAnswer hook_outcome

type_synonym 'w handler = "hook_config \<Rightarrow> hook_context \<Rightarrow> int \<Rightarrow> 'w \<Rightarrow> handler_answer \<times> 'w"

text \<open>\<open>template\<close> is the package \<^verbatim>\<open>text/template\<close>: the rendered text, if it parses and executes.\<close>

definition PromptHandler :: "(string \<Rightarrow> (string \<Rightarrow> string) \<Rightarrow> string option) \<Rightarrow> 'w handler" where
  "PromptHandler template hc hctx timeout w =
     (let decision = (if PromptDecision hc = OtherDecision '''' then Ask else PromptDecision hc);
          reason = (case template (PromptTemplate hc) (hook_fields hctx) of
                      None \<Rightarrow> PromptTemplate hc | Some t \<Rightarrow> t) in
      (HandlerAnswer \<lparr>HDecision = decision, HReason = reason, UpdatedInput = None, HookName = ''''\<rparr>, w))"

record 'w dispatcher =
  Handlers :: "hook_kind \<rightharpoonup> 'w handler"
  ChainBudget :: int
  PerTurnCap :: int
  DefaultTimeout :: int
  hook_cache :: "string \<rightharpoonup> hook_outcome"
  turnCount :: int

definition NewDispatcher :: "(string \<Rightarrow> (string \<Rightarrow> string) \<Rightarrow> string option) \<Rightarrow> 'w dispatcher" where
  "NewDispatcher template =
     \<lparr>Handlers = [KindPrompt \<mapsto> PromptHandler template], ChainBudget = 5000000000, PerTurnCap = 8,
      DefaultTimeout = 2000000000, hook_cache = Map.empty, turnCount = 0\<rparr>"

definition hooks_ResetTurn :: "'w dispatcher \<Rightarrow> 'w dispatcher" where
  "hooks_ResetTurn d = d\<lparr>turnCount := 0\<rparr>"

definition blockOutcome :: "string \<Rightarrow> string \<Rightarrow> hook_outcome" where
  "blockOutcome hookName reason =
     \<lparr>HDecision = Deny, HReason = reason, UpdatedInput = None, HookName = hookName\<rparr>"

text \<open>
  The message for an unrecognised word is formatted after the decision has been overwritten, so it
  names the denial.
\<close>

definition normalize :: "hook_outcome \<Rightarrow> string \<Rightarrow> hook_outcome" where
  "normalize out hookName =
     (let out1 =
        (case HDecision out of
           Deny \<Rightarrow> out | Ask \<Rightarrow> out | Defer \<Rightarrow> out
         | Allow \<Rightarrow>
             out\<lparr>HDecision := Defer,
                 HReason := ''hook '' @ hookName @ '' returned allow; coerced to defer '' @ em_dash
                              @ '' a hook can never grant permission''\<rparr>
         | OtherDecision _ \<Rightarrow>
             out\<lparr>HDecision := Deny,
                 HReason := (if HReason out = ''''
                             then ''hook '' @ hookName @ '' returned an unrecognized decision '' @ quoted ''deny''
                                    @ ''; failing closed to deny''
                             else HReason out)\<rparr>)
      in if HookName out1 = '''' then out1\<lparr>HookName := hookName\<rparr> else out1)"

definition decisionRank :: "decision_word \<Rightarrow> nat" where
  "decisionRank d = (case d of Deny \<Rightarrow> 3 | Ask \<Rightarrow> 2 | _ \<Rightarrow> 1)"

definition combine :: "hook_outcome \<Rightarrow> hook_outcome \<Rightarrow> hook_outcome" where
  "combine agg out =
     (let nxt = (if decisionRank (HDecision out) > decisionRank (HDecision agg)
                 then \<lparr>HDecision = HDecision out, HReason = HReason out, UpdatedInput = None, HookName = HookName out\<rparr>
                 else agg) in
      if UpdatedInput out \<noteq> None then nxt\<lparr>UpdatedInput := UpdatedInput out\<rparr> else nxt)"

text \<open>
  The members of an object with the source text of their values, which is what
  \<^verbatim>\<open>map[string]json.RawMessage\<close> holds; a later duplicate wins.
\<close>

fun raw_members :: "nat \<Rightarrow> string \<Rightarrow> (string \<times> string) list option" where
  "raw_members 0 cs = None"
| "raw_members (Suc n) cs =
     (if take 1 (skip_ws cs) \<noteq> [CHR 34] then None
      else (case parse_string (drop 1 (skip_ws cs)) of
              None \<Rightarrow> None
            | Some (key, r) \<Rightarrow>
                if take 1 (skip_ws r) \<noteq> '':'' then None
                else let t = skip_ws (drop 1 (skip_ws r)) in
                     (case parse_value (2 * length t) t of
                        None \<Rightarrow> None
                      | Some (v, r1) \<Rightarrow>
                          let raw = take (length t - length r1) t in
                          if take 1 (skip_ws r1) = ''}'' then Some [(key, raw)]
                          else if take 1 (skip_ws r1) = '','' then
                            map_option (\<lambda>ms. (key, raw) # ms) (raw_members n (drop 1 (skip_ws r1)))
                          else None)))"

definition raw_object :: "bytes \<Rightarrow> err + (string \<times> string) list" where
  "raw_object cs =
     (case json_parse cs of
        Inl er \<Rightarrow> Inl er
      | Inr JNull \<Rightarrow> Inr []
      | Inr (JObj []) \<Rightarrow> Inr []
      | Inr (JObj (f # fs)) \<Rightarrow>
          (case raw_members (length cs) (drop 1 (skip_ws cs)) of
             None \<Rightarrow> Inl (Err ''invalid JSON text'')
           | Some ms \<Rightarrow> Inr ms)
      | Inr _ \<Rightarrow> Inl (Err ''json: cannot unmarshal value into Go value of type map[string]json.RawMessage''))"

definition raw_get :: "(string \<times> string) list \<Rightarrow> string \<rightharpoonup> string" where
  "raw_get ms = map_of (rev ms)"

definition touchedPaths :: "bytes \<Rightarrow> bytes \<Rightarrow> err + string list" where
  "touchedPaths orig updated =
     (case raw_object (if orig = '''' then ''{}'' else orig) of
        Inl er \<Rightarrow> Inl (Wrapped ''original input is not a JSON object'' er)
      | Inr ob \<Rightarrow>
          (case raw_object updated of
             Inl er \<Rightarrow> Inl (Wrapped ''updated input is not a JSON object'' er)
           | Inr u \<Rightarrow>
               Inr (sort_slice (<)
                 (filter (\<lambda>key. raw_get ob key \<noteq> raw_get u key) (remdups (map fst u))
                  @ filter (\<lambda>key. raw_get u key = None) (remdups (map fst ob))))))"

definition pathAllowed :: "string \<Rightarrow> string list \<Rightarrow> bool" where
  "pathAllowed path allowlist = list_ex (\<lambda>a. a = path) allowlist"

definition go_list :: "string list \<Rightarrow> string" where
  "go_list xs = ''['' @ concat (case xs of [] \<Rightarrow> [] | x # r \<Rightarrow> x # map (\<lambda>y. '' '' @ y) r) @ '']''"

definition enforcePathAllowlist :: "hook_outcome \<Rightarrow> bytes \<Rightarrow> string list \<Rightarrow> hook_outcome" where
  "enforcePathAllowlist out original allowlist =
     (case UpdatedInput out of
        None \<Rightarrow> out
      | Some updated \<Rightarrow>
          if allowlist = []
          then blockOutcome (HookName out) (''hook '' @ HookName out
                 @ '' attempted to rewrite tool input with no configured allowlist; refused'')
          else
            (case touchedPaths original updated of
               Inl er \<Rightarrow> blockOutcome (HookName out) (''hook '' @ HookName out @ '': '' @ err_msg er)
             | Inr touched \<Rightarrow>
                 (case find (\<lambda>p. \<not> pathAllowed p allowlist) touched of
                    Some p \<Rightarrow> blockOutcome (HookName out) (''hook '' @ HookName out @ '' attempted to rewrite input path ''
                               @ quoted p @ '', outside its allowlist '' @ go_list allowlist @ ''; refused'')
                  | None \<Rightarrow> out)))"

text \<open>The clock and the hash are the environment's; a handler's run may move the clock.\<close>

record 'w hooks_env =
  hookClock :: "'w \<Rightarrow> timestamp"
  digestHex :: "bytes \<Rightarrow> string"

type_synonym 'w hooks_state = "'w dispatcher \<times> 'w"

definition chainBudget :: "'w dispatcher \<Rightarrow> int" where
  "chainBudget d = (if ChainBudget d \<le> 0 then 5000000000 else ChainBudget d)"

definition overPerTurnCap :: "'w dispatcher \<Rightarrow> bool \<times> 'w dispatcher" where
  "overPerTurnCap d =
     (let d' = d\<lparr>turnCount := turnCount d + 1\<rparr> in (PerTurnCap d' > 0 \<and> turnCount d' > PerTurnCap d', d'))"

definition cache_key :: "'w hooks_env \<Rightarrow> hook_config \<Rightarrow> hook_context \<Rightarrow> string" where
  "cache_key E hc hctx = HookCfgName hc @ '':'' @ digestHex E (CtxInput hctx)"

definition runCached :: "'w hooks_env \<Rightarrow> hook_config \<Rightarrow> hook_context \<Rightarrow> 'w hooks_state \<Rightarrow> hook_outcome \<times> 'w hooks_state" where
  "runCached E hc hctx s =
     (case s of (d, w) \<Rightarrow>
        (case hook_cache d (cache_key E hc hctx) of
           Some cached \<Rightarrow> (cached, s)
         | None \<Rightarrow>
             (let timeout = (if Timeout hc \<le> 0 then DefaultTimeout d else Timeout hc);
                  (out, w') =
                    (case Handlers d (HookKind hc) of
                       None \<Rightarrow> (blockOutcome (HookCfgName hc)
                                  (''no handler registered for hook kind '' @ quoted (kind_str (HookKind hc))), w)
                     | Some run \<Rightarrow>
                         (case run hc hctx timeout w of
                            (HandlerTimedOut, w1) \<Rightarrow>
                              (blockOutcome (HookCfgName hc) ''hook timed out; failing closed to deny'', w1)
                          | (HandlerError er, w1) \<Rightarrow> (blockOutcome (HookCfgName hc) (''hook error: '' @ err_msg er), w1)
                          | (HandlerAnswer raw, w1) \<Rightarrow> (normalize raw (HookCfgName hc), w1)))
              in (out, (d\<lparr>hook_cache := (hook_cache d)(cache_key E hc hctx \<mapsto> out)\<rparr>, w')))))"

definition hook_applies :: "hook_event \<Rightarrow> hook_context \<Rightarrow> hook_config \<Rightarrow> bool" where
  "hook_applies event hctx hc =
     (HookEvent hc = event \<and> matchesTool (Matcher hc) (CtxToolID hctx) (CtxNamespace hctx) \<and>
      (case HookIf hc of None \<Rightarrow> True | Some e \<Rightarrow> Eval e (hook_fields hctx)))"

fun dispatch_loop ::
    "'w hooks_env \<Rightarrow> hook_event \<Rightarrow> timestamp \<Rightarrow> hook_config list \<Rightarrow> hook_context \<Rightarrow> hook_outcome
      \<Rightarrow> 'w hooks_state \<Rightarrow> hook_outcome \<times> 'w hooks_state" where
  "dispatch_loop E event deadline [] hctx agg s = (agg, s)"
| "dispatch_loop E event deadline (hc # hcs) hctx agg s =
     (if \<not> hook_applies event hctx hc then dispatch_loop E event deadline hcs hctx agg s
      else if hookClock E (snd s) > deadline
      then (combine agg (blockOutcome (HookCfgName hc)
              ''hook chain budget exceeded; remaining hooks skipped, failing closed''), s)
      else
        (case overPerTurnCap (fst s) of (over, d) \<Rightarrow>
           if over
           then (combine agg (blockOutcome (HookCfgName hc)
                   ''per-turn hook cap exceeded; remaining hooks skipped, failing closed''), (d, snd s))
           else
             (case runCached E hc hctx (d, snd s) of (raw, s2) \<Rightarrow>
                (let out = enforcePathAllowlist raw (CtxInput hctx) (UpdatablePaths hc);
                     hctx' = (case UpdatedInput out of None \<Rightarrow> hctx | Some inp \<Rightarrow> hctx\<lparr>CtxInput := inp\<rparr>);
                     agg' = combine agg out in
                 if HDecision agg' = Deny then (agg', s2)
                 else dispatch_loop E event deadline hcs hctx' agg' s2))))"

definition Dispatch ::
    "'w hooks_env \<Rightarrow> hook_event \<Rightarrow> hook_context \<Rightarrow> hook_config list \<Rightarrow> 'w hooks_state
      \<Rightarrow> hook_outcome \<times> 'w hooks_state" where
  "Dispatch E event hctx configs s =
     dispatch_loop E event (hookClock E (snd s) + chainBudget (fst s)) configs hctx no_hook_outcome s"

section \<open>A hook never grants\<close>

definition hook_ok :: "hook_outcome \<Rightarrow> bool" where
  "hook_ok out \<longleftrightarrow> HDecision out \<in> {Deny, Ask, Defer}"

definition cache_ok :: "'w dispatcher \<Rightarrow> bool" where
  "cache_ok d \<longleftrightarrow> (\<forall>out \<in> ran (hook_cache d). hook_ok out)"

lemma hook_ok_block [simp]: "hook_ok (blockOutcome name reason)"
  by (simp add: hook_ok_def blockOutcome_def)

lemma hook_ok_normalize [simp]: "hook_ok (normalize out name)"
  by (auto simp: hook_ok_def normalize_def Let_def split: decision_word.splits)

lemma hook_ok_enforce: "hook_ok out \<Longrightarrow> hook_ok (enforcePathAllowlist out original allowlist)"
  by (simp add: enforcePathAllowlist_def split: option.splits sum.splits)

lemma hook_ok_combine: "hook_ok agg \<Longrightarrow> hook_ok out \<Longrightarrow> hook_ok (combine agg out)"
  by (auto simp: hook_ok_def combine_def Let_def)

lemma runCached_ok:
  assumes "cache_ok (fst s)"
  shows "hook_ok (fst (runCached E hc hctx s)) \<and> cache_ok (fst (snd (runCached E hc hctx s)))"
proof (cases "hook_cache (fst s) (cache_key E hc hctx)")
  case None
  have "hook_ok (fst (runCached E hc hctx s))"
    using None by (auto simp: runCached_def Let_def split: prod.splits option.splits handler_answer.splits)
  moreover have "hook_cache (fst (snd (runCached E hc hctx s)))
      = (hook_cache (fst s))(cache_key E hc hctx \<mapsto> fst (runCached E hc hctx s))"
    using None by (auto simp: runCached_def Let_def split: prod.splits)
  ultimately show ?thesis using assms by (auto simp: cache_ok_def ran_def)
next
  case (Some out)
  then have "hook_ok out" using assms by (auto simp: cache_ok_def ran_def)
  with Some assms show ?thesis by (cases s) (simp add: runCached_def)
qed

lemma overPerTurnCap_cache [simp]: "cache_ok (snd (overPerTurnCap d)) = cache_ok d"
  by (simp add: overPerTurnCap_def cache_ok_def Let_def)

lemma dispatch_loop_ok:
  "cache_ok (fst s) \<Longrightarrow> hook_ok agg \<Longrightarrow>
     hook_ok (fst (dispatch_loop E event deadline hcs hctx agg s)) \<and>
     cache_ok (fst (snd (dispatch_loop E event deadline hcs hctx agg s)))"
proof (induction E event deadline hcs hctx agg s rule: dispatch_loop.induct)
  case (2 E event deadline hc hcs hctx agg s)
  obtain over d where cap: "overPerTurnCap (fst s) = (over, d)" by fastforce
  obtain raw s2 where run: "runCached E hc hctx (d, snd s) = (raw, s2)" by (rule prod.exhaust)
  have d: "cache_ok d" using "2.prems"(1) overPerTurnCap_cache [of "fst s"] cap by simp
  have raw: "hook_ok raw" "cache_ok (fst s2)" using runCached_ok [of "(d, snd s)" E hc hctx] d run by simp_all
  let ?out = "enforcePathAllowlist raw (CtxInput hctx) (UpdatablePaths hc)"
  have agg: "hook_ok (combine agg ?out)" using raw "2.prems"(2) by (simp add: hook_ok_enforce hook_ok_combine)
  show ?case
    using "2.IH" "2.prems" cap run d raw agg by (auto simp: hook_ok_combine Let_def)
qed simp

section \<open>Every matching hook runs\<close>

lemma hook_applies_input [simp]: "hook_applies event (hctx\<lparr>CtxInput := inp\<rparr>) = hook_applies event hctx"
proof -
  have "hook_fields (hctx\<lparr>CtxInput := inp\<rparr>) = hook_fields hctx" by (intro ext) (simp add: hook_fields_def)
  then show ?thesis by (intro ext) (simp add: hook_applies_def split: option.split)
qed

lemma combine_Deny: "HDecision (combine agg (blockOutcome name reason)) = Deny"
  by (cases "HDecision agg") (auto simp: combine_def blockOutcome_def decisionRank_def Let_def)

lemma runCached_counters:
  "turnCount (fst (snd (runCached E hc hctx s))) = turnCount (fst s) \<and>
   PerTurnCap (fst (snd (runCached E hc hctx s))) = PerTurnCap (fst s)"
  by (auto simp: runCached_def Let_def split: prod.splits option.splits)

definition hooks_due :: "hook_event \<Rightarrow> hook_context \<Rightarrow> hook_config list \<Rightarrow> nat" where
  "hooks_due event hctx hcs = length (filter (hook_applies event hctx) hcs)"

lemma dispatch_loop_runs_all:
  "HDecision (fst (dispatch_loop E event deadline hcs hctx agg s)) \<noteq> Deny \<Longrightarrow>
     turnCount (fst (snd (dispatch_loop E event deadline hcs hctx agg s))) = turnCount (fst s) + int (hooks_due event hctx hcs) \<and>
     (PerTurnCap (fst s) > 0 \<and> hooks_due event hctx hcs > 0 \<longrightarrow>
        turnCount (fst s) + int (hooks_due event hctx hcs) \<le> PerTurnCap (fst s))"
proof (induction E event deadline hcs hctx agg s rule: dispatch_loop.induct)
  case (2 E event deadline hc hcs hctx agg s)
  show ?case
  proof (cases "hook_applies event hctx hc")
    case False
    with 2 show ?thesis by (simp add: hooks_due_def)
  next
    case True
    obtain over d where cap: "overPerTurnCap (fst s) = (over, d)" by fastforce
    obtain raw s2 where run: "runCached E hc hctx (d, snd s) = (raw, s2)" by (rule prod.exhaust)
    let ?out = "enforcePathAllowlist raw (CtxInput hctx) (UpdatablePaths hc)"
    let ?hctx = "case UpdatedInput ?out of None \<Rightarrow> hctx | Some inp \<Rightarrow> hctx\<lparr>CtxInput := inp\<rparr>"
    have due: "hooks_due event ?hctx hcs = hooks_due event hctx hcs"
      by (auto simp: hooks_due_def split: option.splits)
    from "2.prems" True cap run have live: "\<not> hookClock E (snd s) > deadline" "\<not> over" "HDecision (combine agg ?out) \<noteq> Deny"
      by (auto simp: combine_Deny Let_def split: if_splits)
    have d: "turnCount d = turnCount (fst s) + 1" "PerTurnCap d = PerTurnCap (fst s)"
        "PerTurnCap d > 0 \<Longrightarrow> turnCount d \<le> PerTurnCap d"
      using cap live(2) by (auto simp: overPerTurnCap_def Let_def)
    have s2: "turnCount (fst s2) = turnCount d" "PerTurnCap (fst s2) = PerTurnCap d"
      using runCached_counters [of E hc hctx "(d, snd s)"] run by simp_all
    have step: "dispatch_loop E event deadline (hc # hcs) hctx agg s = dispatch_loop E event deadline hcs ?hctx (combine agg ?out) s2"
      using True cap run live by (simp add: Let_def)
    have "turnCount (fst (snd (dispatch_loop E event deadline hcs ?hctx (combine agg ?out) s2)))
        = turnCount (fst s2) + int (hooks_due event ?hctx hcs) \<and>
      (PerTurnCap (fst s2) > 0 \<and> hooks_due event ?hctx hcs > 0 \<longrightarrow>
        turnCount (fst s2) + int (hooks_due event ?hctx hcs) \<le> PerTurnCap (fst s2))"
      using True
      by (intro "2.IH"(2) [OF _ live(1) cap [symmetric] live(2) run [symmetric] refl refl refl live(3) "2.prems" [unfolded step]]) simp
    with True d s2 due step show ?thesis by (auto simp: hooks_due_def)
  qed
qed (simp add: hooks_due_def)

text \<open>
  What it means to have heard a hook: its handler ran on the context and answered, or its answer to
  the same input was remembered.
\<close>

inductive heard :: "'w hooks_env \<Rightarrow> hook_config \<Rightarrow> hook_context \<Rightarrow> 'w hooks_state \<Rightarrow> hook_outcome \<Rightarrow> 'w hooks_state \<Rightarrow> bool"
  for E :: "'w hooks_env" and hc :: hook_config and hctx :: hook_context where
  remembered: "hook_cache d (cache_key E hc hctx) = Some out \<Longrightarrow> heard E hc hctx (d, w) out (d, w)"
| ran: "\<lbrakk>hook_cache d (cache_key E hc hctx) = None; Handlers d (HookKind hc) = Some run;
      run hc hctx (if Timeout hc \<le> 0 then DefaultTimeout d else Timeout hc) w = (HandlerAnswer raw, w');
      out = normalize raw (HookCfgName hc)\<rbrakk>
    \<Longrightarrow> heard E hc hctx (d, w) out (d\<lparr>hook_cache := (hook_cache d)(cache_key E hc hctx \<mapsto> out)\<rparr>, w')"

text \<open>
  A chain in which every hook that applies is heard, in order, none after the cap is used up, each on
  the input the hooks before it left, and none denies; \<open>runs\<close> are the hooks with their outcomes.
\<close>

inductive all_heard ::
    "'w hooks_env \<Rightarrow> hook_event \<Rightarrow> hook_config list \<Rightarrow> hook_context \<Rightarrow> 'w hooks_state
      \<Rightarrow> (hook_config \<times> hook_outcome) list \<Rightarrow> 'w hooks_state \<Rightarrow> bool"
  for E :: "'w hooks_env" and event :: hook_event where
  no_more: "all_heard E event [] hctx s [] s"
| not_due: "\<not> hook_applies event hctx hc \<Longrightarrow> all_heard E event hcs hctx s runs s' \<Longrightarrow> all_heard E event (hc # hcs) hctx s runs s'"
| due: "\<lbrakk>hook_applies event hctx hc; PerTurnCap d > 0 \<longrightarrow> turnCount d < PerTurnCap d;
      heard E hc hctx (d\<lparr>turnCount := turnCount d + 1\<rparr>, w) raw s1;
      out = enforcePathAllowlist raw (CtxInput hctx) (UpdatablePaths hc); HDecision out \<noteq> Deny;
      all_heard E event hcs (case UpdatedInput out of None \<Rightarrow> hctx | Some inp \<Rightarrow> hctx\<lparr>CtxInput := inp\<rparr>) s1 runs s'\<rbrakk>
    \<Longrightarrow> all_heard E event (hc # hcs) hctx (d, w) ((hc, out) # runs) s'"

inductive_cases all_heard_NilE: "all_heard E event [] hctx s runs s'"
inductive_cases all_heard_ConsE: "all_heard E event (hc # hcs) hctx s runs s'"

lemma combine_not_Deny: "HDecision (combine agg out) \<noteq> Deny \<Longrightarrow> HDecision out \<noteq> Deny"
  by (auto simp: combine_def decisionRank_def Let_def split: decision_word.splits if_splits)

lemma enforce_keeps_Deny: "HDecision raw = Deny \<Longrightarrow> HDecision (enforcePathAllowlist raw orig allowlist) = Deny"
  by (auto simp: enforcePathAllowlist_def blockOutcome_def split: option.splits sum.splits)

text \<open>A hook that was not heard is denied, whatever kept its handler from answering.\<close>

lemma runCached_heard:
  assumes "runCached E hc hctx s = (raw, s')" and "HDecision raw \<noteq> Deny"
  shows "heard E hc hctx s raw s'"
proof (cases s)
  case (Pair d w)
  show ?thesis
  proof (cases "hook_cache d (cache_key E hc hctx)")
    case (Some out)
    with assms(1) Pair show ?thesis by (auto simp: runCached_def intro: heard.remembered)
  next
    case None
    then obtain run ans w' where "Handlers d (HookKind hc) = Some run"
        "run hc hctx (if Timeout hc \<le> 0 then DefaultTimeout d else Timeout hc) w = (HandlerAnswer ans, w')"
        "raw = normalize ans (HookCfgName hc)" "s' = (d\<lparr>hook_cache := (hook_cache d)(cache_key E hc hctx \<mapsto> raw)\<rparr>, w')"
      using assms Pair
      by (auto simp: runCached_def blockOutcome_def Let_def split: option.splits prod.splits handler_answer.splits)
    with None Pair show ?thesis by (simp add: heard.ran)
  qed
qed

lemma dispatch_loop_heard:
  assumes "dispatch_loop E event deadline hcs hctx agg s = (out, s')" and "HDecision out \<noteq> Deny"
  shows "\<exists>runs. all_heard E event hcs hctx s runs s' \<and> map fst runs = filter (hook_applies event hctx) hcs \<and>
    out = fold (\<lambda>run agg. combine agg (snd run)) runs agg"
  using assms
proof (induction E event deadline hcs hctx agg s rule: dispatch_loop.induct)
  case (1 E event deadline hctx agg s)
  then show ?case by (auto intro: all_heard.no_more exI [of _ "[]"])
next
  case (2 E event deadline hc hcs hctx agg s)
  show ?case
  proof (cases "hook_applies event hctx hc")
    case False
    with "2.IH"(1) "2.prems" show ?thesis by (auto intro: all_heard.not_due)
  next
    case True
    obtain d w where s: "s = (d, w)" by (rule prod.exhaust)
    obtain over d1 where cap: "overPerTurnCap (fst s) = (over, d1)" by (rule prod.exhaust)
    obtain raw s2 where run: "runCached E hc hctx (d1, snd s) = (raw, s2)" by (rule prod.exhaust)
    let ?out = "enforcePathAllowlist raw (CtxInput hctx) (UpdatablePaths hc)"
    let ?hctx = "case UpdatedInput ?out of None \<Rightarrow> hctx | Some inp \<Rightarrow> hctx\<lparr>CtxInput := inp\<rparr>"
    from "2.prems" True cap run have live: "\<not> hookClock E (snd s) > deadline" "\<not> over" "HDecision (combine agg ?out) \<noteq> Deny"
      by (auto simp: combine_Deny Let_def split: if_splits)
    have out: "HDecision ?out \<noteq> Deny" using combine_not_Deny [OF live(3)] .
    then have "heard E hc hctx (d1, snd s) raw s2" using runCached_heard [OF run] enforce_keeps_Deny by blast
    moreover have "d1 = d\<lparr>turnCount := turnCount d + 1\<rparr>" "PerTurnCap d > 0 \<longrightarrow> turnCount d < PerTurnCap d"
      using cap live(2) s by (auto simp: overPerTurnCap_def Let_def)
    moreover have "dispatch_loop E event deadline hcs ?hctx (combine agg ?out) s2 = (out, s')"
      using "2.prems"(1) True cap run live by (simp add: Let_def)
    from "2.IH"(2) [OF _ live(1) cap [symmetric] live(2) run [symmetric] refl refl refl live(3) this "2.prems"(2)] True
    obtain runs where "all_heard E event hcs ?hctx s2 runs s'" "map fst runs = filter (hook_applies event ?hctx) hcs"
        "out = fold (\<lambda>run agg. combine agg (snd run)) runs (combine agg ?out)" by auto
    moreover have "hook_applies event ?hctx = hook_applies event hctx" by (auto split: option.split)
    ultimately show ?thesis using True s out
      by (intro exI [of _ "(hc, ?out) # runs"]) (auto intro: all_heard.due)
  qed
qed

section \<open>Rewrites stay inside the allowlist\<close>

text \<open>The source text of a top-level member of a tool's input; an empty input is the empty object.\<close>

definition member :: "bytes \<Rightarrow> string \<rightharpoonup> string" where
  "member inp = (case raw_object (if inp = '''' then ''{}'' else inp) of Inl _ \<Rightarrow> Map.empty | Inr ms \<Rightarrow> raw_get ms)"

lemma raw_get_None: "raw_get ms key = None \<longleftrightarrow> key \<notin> fst ` set ms"
  by (simp add: raw_get_def map_of_eq_None_iff)

lemma touchedPaths_complete:
  assumes "touchedPaths orig upd = Inr touched" and "key \<notin> set touched"
  shows "member upd key = member orig key"
proof -
  from assms(1) obtain ob u where ob: "raw_object (if orig = '''' then ''{}'' else orig) = Inr ob" and u: "raw_object upd = Inr u"
    and touched: "set touched = {key \<in> fst ` set u. raw_get ob key \<noteq> raw_get u key} \<union> {key \<in> fst ` set ob. raw_get u key = None}"
    by (auto simp: touchedPaths_def split: sum.splits)
  have "upd \<noteq> ''''" using u by (auto simp: raw_object_def json_parse_def)
  with ob u have "member orig = raw_get ob" "member upd = raw_get u" by (simp_all add: member_def)
  moreover have "raw_get u key = raw_get ob key"
  proof (cases "raw_get u key")
    case None
    with assms(2) touched raw_get_None [of ob key] show ?thesis by auto
  next
    case (Some v)
    then have "key \<in> fst ` set u" using raw_get_None [of u key] by (metis option.distinct(1))
    with assms(2) touched show ?thesis by auto
  qed
  ultimately show ?thesis by simp
qed

lemma enforce_keeps_others:
  assumes "UpdatedInput (enforcePathAllowlist out orig allowlist) = Some upd" and "key \<notin> set allowlist"
  shows "member upd key = member orig key"
proof -
  from assms(1) obtain touched where "touchedPaths orig upd = Inr touched" "find (\<lambda>p. \<not> pathAllowed p allowlist) touched = None"
    by (auto simp: enforcePathAllowlist_def blockOutcome_def split: option.splits if_splits sum.splits)
  moreover from this(2) have "set touched \<subseteq> set allowlist"
    by (auto simp: find_None_iff pathAllowed_def list_ex_iff)
  ultimately show ?thesis using touchedPaths_complete assms(2) by blast
qed

lemma UpdatedInput_combine:
  "UpdatedInput (combine agg out) = (case UpdatedInput out of Some i \<Rightarrow> Some i
     | None \<Rightarrow> if decisionRank (HDecision out) > decisionRank (HDecision agg) then None else UpdatedInput agg)"
  by (auto simp: combine_def Let_def split: option.splits)

lemma dispatch_loop_keeps_others:
  assumes "list_all (\<lambda>hc. key \<notin> set (UpdatablePaths hc)) hcs"
    and "\<And>i. UpdatedInput agg = Some i \<Longrightarrow> member i key = v" and "member (CtxInput hctx) key = v"
    and "UpdatedInput (fst (dispatch_loop E event deadline hcs hctx agg s)) = Some inp"
  shows "member inp key = v"
  using assms
proof (induction E event deadline hcs hctx agg s rule: dispatch_loop.induct)
  case (2 E event deadline hc hcs hctx agg s)
  obtain over d where cap: "overPerTurnCap (fst s) = (over, d)" by fastforce
  obtain raw s2 where run: "runCached E hc hctx (d, snd s) = (raw, s2)" by (rule prod.exhaust)
  let ?out = "enforcePathAllowlist raw (CtxInput hctx) (UpdatablePaths hc)"
  have key: "key \<notin> set (UpdatablePaths hc)" and rest: "list_all (\<lambda>hc. key \<notin> set (UpdatablePaths hc)) hcs"
    using "2.prems"(1) by auto
  have out: "member i key = v" if "UpdatedInput ?out = Some i" for i
    using enforce_keeps_others [OF that key] "2.prems"(3) by simp
  have agg: "member i key = v" if "UpdatedInput (combine agg ?out) = Some i" for i
    using that out "2.prems"(2) by (auto simp: UpdatedInput_combine split: option.splits if_splits)
  have blocked: "member inp key = v" if "UpdatedInput (combine agg (blockOutcome name reason)) = Some inp" for name reason
    using that "2.prems"(2) by (auto simp: UpdatedInput_combine blockOutcome_def split: if_splits)
  let ?hctx = "case UpdatedInput ?out of None \<Rightarrow> hctx | Some inp \<Rightarrow> hctx\<lparr>CtxInput := inp\<rparr>"
  have hctx: "member (CtxInput ?hctx) key = v" using out "2.prems"(3) by (auto split: option.splits)
  show ?case
  proof (cases "hook_applies event hctx hc \<and> \<not> hookClock E (snd s) > deadline \<and> \<not> over \<and> HDecision (combine agg ?out) \<noteq> Deny")
    case True
    then have a: "\<not> \<not> hook_applies event hctx hc" "\<not> hookClock E (snd s) > deadline" "\<not> over" "HDecision (combine agg ?out) \<noteq> Deny"
      by simp_all
    have "dispatch_loop E event deadline (hc # hcs) hctx agg s = dispatch_loop E event deadline hcs ?hctx (combine agg ?out) s2"
      using True cap run by (simp add: Let_def)
    with "2.IH"(2) [OF a(1,2) cap [symmetric] a(3) run [symmetric] refl refl refl a(4) rest agg hctx] "2.prems"(4)
    show ?thesis by simp
  next
    case False
    with "2.IH"(1) [OF _ rest "2.prems"(2,3)] "2.prems"(4) cap run agg blocked show ?thesis
      by (auto simp: Let_def split: if_splits)
  qed
qed simp

section \<open>What the hook layer guarantees\<close>

definition demo_env :: "int hooks_env" where
  "demo_env = \<lparr>hookClock = (\<lambda>w. w), digestHex = (\<lambda>b. b)\<rparr>"

definition demo_hook :: "string list \<Rightarrow> hook_config" where
  "demo_hook paths = \<lparr>HookCfgName = ''h'', HookEvent = PreToolUse, HookKind = KindCommand, Matcher = ''*'', HookIf = None,
     Timeout = 0, UpdatablePaths = paths, PromptDecision = Ask, PromptTemplate = ''''\<rparr>"

definition demo_context :: "string \<Rightarrow> bytes \<Rightarrow> hook_context" where
  "demo_context tid inp = \<lparr>CtxToolID = tid, CtxNamespace = ''platform'', CtxEffectClass = ''mutating'',
     CtxAutonomyLevel = '''', CtxDataLabel = '''', CtxInput = inp\<rparr>"

text \<open>A dispatcher with one command handler, which says \<open>d\<close> and may rewrite the input.\<close>

definition demo_dispatcher :: "decision_word \<Rightarrow> bytes option \<Rightarrow> int dispatcher" where
  "demo_dispatcher d upd = (NewDispatcher (\<lambda>_ _. None))\<lparr>Handlers := [KindCommand \<mapsto>
     (\<lambda>hc hctx timeout w. (HandlerAnswer \<lparr>HDecision = d, HReason = ''because'', UpdatedInput = upd, HookName = ''''\<rparr>, w + 1))]\<rparr>"

definition demo_input :: "string \<Rightarrow> bytes" where
  "demo_input a = json_render (JObj [(''a'', JNum a), (''b'', JNum ''2'')])"

text \<open>
  C29: a hook can tighten and never grant. Whatever the handlers answer, a dispatch ends with deny,
  ask or defer, and leaves only such answers in the decision cache.
\<close>

theorem hooks_never_grant:
  assumes "cache_ok (fst s)"
  shows "case Dispatch E event hctx hcs s of (out, s') \<Rightarrow> HDecision out \<in> {Deny, Ask, Defer} \<and> cache_ok (fst s')"
  using dispatch_loop_ok [OF assms, of no_hook_outcome]
  by (auto simp: Dispatch_def hook_ok_def no_hook_outcome_def split: prod.splits) (metis fst_conv snd_conv)+

theorem hooks_never_grant_witness:
  "case Dispatch demo_env PreToolUse (demo_context ''platform/sh@v1'' ''{}'') [demo_hook []] (demo_dispatcher Allow None, 0) of
     (out, s') \<Rightarrow> HDecision out \<in> {Deny, Ask, Defer} \<and> cache_ok (fst s')"
  by (rule hooks_never_grant) (simp add: cache_ok_def demo_dispatcher_def NewDispatcher_def)

text \<open>
  C30: unless the answer is a denial, no matching hook was skipped: each of them was heard, in order and on the
  input its predecessors left, which means that its registered handler ran and answered, or that
  its answer to that input was remembered; none of them denied, the answer is their combination, and
  the turn's cap was not passed. Running out of the chain budget or of the cap, a
  handler that fails, times out or does not exist, all end in a denial.
\<close>

theorem undenied_means_every_hook_ran:
  assumes "Dispatch E event hctx hcs s = (out, s')" and "HDecision out \<noteq> Deny"
  shows "\<exists>runs. all_heard E event hcs hctx s runs s' \<and> map fst runs = filter (hook_applies event hctx) hcs \<and>
     out = fold (\<lambda>run agg. combine agg (snd run)) runs no_hook_outcome \<and>
     turnCount (fst s') = turnCount (fst s) + int (length runs) \<and>
     (PerTurnCap (fst s) > 0 \<and> runs \<noteq> [] \<longrightarrow> turnCount (fst s') \<le> PerTurnCap (fst s))"
proof -
  obtain runs where runs: "all_heard E event hcs hctx s runs s'" "map fst runs = filter (hook_applies event hctx) hcs"
      "out = fold (\<lambda>run agg. combine agg (snd run)) runs no_hook_outcome"
    using dispatch_loop_heard assms unfolding Dispatch_def by blast
  then have "hooks_due event hctx hcs = length runs" unfolding hooks_due_def by (metis length_map)
  with runs dispatch_loop_runs_all assms show ?thesis unfolding Dispatch_def by (metis fst_conv length_0_conv neq0_conv snd_conv)
qed

theorem undenied_means_every_hook_ran_witness:
  "\<exists>out s' raw. Dispatch demo_env PreToolUse (demo_context ''platform/sh@v1'' ''{}'') [demo_hook []] (demo_dispatcher Ask None, 0) = (out, s') \<and>
     HDecision out = Ask \<and>
     heard demo_env (demo_hook []) (demo_context ''platform/sh@v1'' ''{}'') ((demo_dispatcher Ask None)\<lparr>turnCount := 1\<rparr>, 0) raw s'"
proof -
  let ?s = "(demo_dispatcher Ask None, 0)" and ?c = "demo_context ''platform/sh@v1'' ''{}''"
  obtain out s' where d: "Dispatch demo_env PreToolUse ?c [demo_hook []] ?s = (out, s')" by (rule prod.exhaust)
  have "HDecision (fst (Dispatch demo_env PreToolUse ?c [demo_hook []] ?s)) = Ask" by code_simp
  with d have ask: "HDecision out = Ask" by simp
  then have "HDecision out \<noteq> Deny" by simp
  from undenied_means_every_hook_ran [OF d this] obtain runs where
    runs: "all_heard demo_env PreToolUse [demo_hook []] ?c ?s runs s'" by blast
  have "hook_applies PreToolUse ?c (demo_hook [])" by code_simp
  moreover have "turnCount (demo_dispatcher Ask None) = 0" by code_simp
  ultimately obtain raw where "heard demo_env (demo_hook []) ?c ((demo_dispatcher Ask None)\<lparr>turnCount := 1\<rparr>, 0) raw s'"
    using runs by (auto elim!: all_heard_ConsE all_heard_NilE)
  with d ask show ?thesis by blast
qed

text \<open>
  C31: the hooks may only rewrite what they were configured to. A top-level field of the tool's
  input that no configured hook lists as updatable has, after any chain of rewrites, the very
  text it had before, or is absent as it was before.
\<close>

theorem rewrites_stay_in_allowlist:
  assumes "UpdatedInput (fst (Dispatch E event hctx hcs s)) = Some inp"
    and "\<forall>hc \<in> set hcs. key \<notin> set (UpdatablePaths hc)"
  shows "member inp key = member (CtxInput hctx) key"
  using assms dispatch_loop_keeps_others [of key hcs no_hook_outcome "member (CtxInput hctx) key" hctx E event _ s inp]
  by (auto simp: Dispatch_def list_all_iff no_hook_outcome_def)

theorem rewrites_stay_in_allowlist_witness:
  "member (demo_input ''3'') ''b'' = member (demo_input ''1'') ''b'' \<and> member (demo_input ''3'') ''b'' = Some ''2''"
proof -
  have "UpdatedInput (fst (Dispatch demo_env PreToolUse (demo_context ''platform/sh@v1'' (demo_input ''1'')) [demo_hook [''a'']]
      (demo_dispatcher Defer (Some (demo_input ''3'')), 0))) = Some (demo_input ''3'')" by code_simp
  from rewrites_stay_in_allowlist [OF this, of "''b''"] have "member (demo_input ''3'') ''b'' = member (demo_input ''1'') ''b''"
    by (simp add: demo_hook_def demo_context_def)
  moreover have "member (demo_input ''3'') ''b'' = Some ''2''" by code_simp
  ultimately show ?thesis by simp
qed

text \<open>
  the cached answer of a hook is keyed by its name and the input alone. A decision given for
  one tool, even the denial of a handler that timed out, is repeated for every other tool the
  hook matches when the input is the same, without asking the handler.
\<close>

theorem cached_answer_ignores_the_tool:
  assumes "runCached E hc hctx s = (out, s')" and "CtxInput hctx' = CtxInput hctx"
  shows "runCached E hc hctx' s' = (out, s')"
proof -
  have key: "cache_key E hc hctx' = cache_key E hc hctx" using assms(2) by (simp add: cache_key_def)
  have "hook_cache (fst s') (cache_key E hc hctx) = Some out"
    using assms(1) by (cases s) (auto simp: runCached_def Let_def split: option.splits prod.splits)
  with key show ?thesis by (cases s') (simp add: runCached_def)
qed

theorem cached_answer_ignores_the_tool_witness:
  "\<exists>s'. fst (runCached demo_env (demo_hook []) (demo_context ''platform/read@v1'' ''{}'') (demo_dispatcher Defer None, 0))
       = fst (runCached demo_env (demo_hook []) (demo_context ''platform/shell@v1'' ''{}'') s')"
proof -
  obtain out s' where "runCached demo_env (demo_hook []) (demo_context ''platform/read@v1'' ''{}'')
      (demo_dispatcher Defer None, 0) = (out, s')" by (rule prod.exhaust)
  from this cached_answer_ignores_the_tool [OF this, of "demo_context ''platform/shell@v1'' ''{}''"] show ?thesis
    by (metis demo_context_def fst_conv hook_context.select_convs(6))
qed

end
