(* ===== verification/Go_Std.thy ===== *)
theory Go_Std
  imports Go_Codec "HOL-Library.Word"
begin

unbundle bit_operations_syntax

text \<open>
  What the components use of Go's standard library besides JSON: SHA-256 of a byte string, its
  hexadecimal form, and the lexical path functions of \<^verbatim>\<open>path/filepath\<close> on Unix. The lemmas
  give the length of a digest and show that joining a rooted clean path onto a directory stays
  below that directory.
\<close>

section \<open>SHA-256\<close>

type_synonym w32 = "32 word"

text \<open>
  The round constants are the first thirty-two bits of the fractional parts of the cube roots of
  the first sixty-four primes, the initial state those of the square roots of the first eight.
  The root is found bit by bit.
\<close>

definition primes :: "int list" where
  "primes = [2, 3, 5, 7, 11, 13, 17, 19, 23, 29, 31, 37, 41, 43, 47, 53, 59, 61, 67, 71, 73, 79, 83, 89, 97, 101, 103, 107,
     109, 113, 127, 131, 137, 139, 149, 151, 157, 163, 167, 173, 179, 181, 191, 193, 197, 199, 211, 223, 227, 229, 233, 239,
     241, 251, 257, 263, 269, 271, 277, 281, 283, 293, 307, 311]"

definition root_bits :: "nat \<Rightarrow> int \<Rightarrow> w32" where
  "root_bits k p =
     word_of_int (foldl (\<lambda>r i. if (r + 2 ^ i) ^ k \<le> p * 2 ^ (32 * k) then r + 2 ^ i else r) 0 (rev [0..<40]))"

definition sha_K :: "w32 list" where
  "sha_K = map (root_bits 3) primes"

record sha_state =
  sa :: w32  sb :: w32  sc :: w32  sd :: w32  se :: w32  sf :: w32  sg :: w32  sh :: w32

definition sha_init :: sha_state where
  "sha_init =
     (let h = map (root_bits 2) primes in
      \<lparr>sa = h ! 0, sb = h ! 1, sc = h ! 2, sd = h ! 3, se = h ! 4, sf = h ! 5, sg = h ! 6, sh = h ! 7\<rparr>)"

definition rotr :: "nat \<Rightarrow> w32 \<Rightarrow> w32" where
  "rotr n x = drop_bit n x OR push_bit (32 - n) x"

definition sha_round :: "w32 \<times> w32 \<Rightarrow> sha_state \<Rightarrow> sha_state" where
  "sha_round kw s =
     (case kw of (k, w) \<Rightarrow>
      let s1 = rotr 6 (se s) XOR rotr 11 (se s) XOR rotr 25 (se s);
          ch = (se s AND sf s) XOR (NOT (se s) AND sg s);
          t1 = sh s + s1 + ch + k + w;
          s0 = rotr 2 (sa s) XOR rotr 13 (sa s) XOR rotr 22 (sa s);
          maj = (sa s AND sb s) XOR (sa s AND sc s) XOR (sb s AND sc s) in
      \<lparr>sa = t1 + (s0 + maj), sb = sa s, sc = sb s, sd = sc s, se = sd s + t1, sf = se s, sg = sf s, sh = sg s\<rparr>)"

text \<open>The message schedule: a block of sixteen words grows to sixty-four.\<close>

fun sha_expand :: "nat \<Rightarrow> w32 list \<Rightarrow> w32 list" where
  "sha_expand 0 ws = ws"
| "sha_expand (Suc n) ws =
     (let i = length ws; x15 = ws ! (i - 15); x2 = ws ! (i - 2);
          s0 = rotr 7 x15 XOR rotr 18 x15 XOR drop_bit 3 x15;
          s1 = rotr 17 x2 XOR rotr 19 x2 XOR drop_bit 10 x2 in
      sha_expand n (ws @ [ws ! (i - 16) + s0 + ws ! (i - 7) + s1]))"

definition sha_block :: "w32 list \<Rightarrow> sha_state \<Rightarrow> sha_state" where
  "sha_block ws s =
     (let r = fold sha_round (zip sha_K (sha_expand 48 ws)) s in
      \<lparr>sa = sa s + sa r, sb = sb s + sb r, sc = sc s + sc r, sd = sd s + sd r,
       se = se s + se r, sf = sf s + sf r, sg = sg s + sg r, sh = sh s + sh r\<rparr>)"

definition be_bytes :: "nat \<Rightarrow> int \<Rightarrow> bytes" where
  "be_bytes n v = map (\<lambda>i. char_of (v div 256 ^ i mod 256)) (rev [0..<n])"

definition sha_pad :: "bytes \<Rightarrow> bytes" where
  "sha_pad m = m @ CHR 0x80 # replicate ((119 - length m mod 64) mod 64) (CHR 0x00) @ be_bytes 8 (8 * int (length m))"

definition be_word :: "bytes \<Rightarrow> w32" where
  "be_word bs = foldl (\<lambda>acc c. push_bit 8 acc OR word_of_int (of_char c)) 0 bs"

fun chunks :: "nat \<Rightarrow> 'a list \<Rightarrow> 'a list list" where
  "chunks n xs = (if n = 0 \<or> xs = [] then [] else take n xs # chunks n (drop n xs))"

declare chunks.simps [simp del]

definition word_bytes :: "w32 \<Rightarrow> bytes" where
  "word_bytes w = be_bytes 4 (uint w)"

definition sha256 :: "bytes \<Rightarrow> bytes" where
  "sha256 m =
     (let s = fold sha_block (map (\<lambda>b. map be_word (chunks 4 b)) (chunks 64 (sha_pad m))) sha_init in
      concat (map word_bytes [sa s, sb s, sc s, sd s, se s, sf s, sg s, sh s]))"

text \<open>\<^verbatim>\<open>%x\<close> of a byte string, and \<^verbatim>\<open>hex.EncodeToString\<close>.\<close>

definition hex :: "bytes \<Rightarrow> string" where
  "hex bs = concat (map (\<lambda>c. [hex_digit (of_char c div 16), hex_digit (of_char c mod 16)]) bs)"

lemma length_be_bytes [simp]: "length (be_bytes n v) = n"
  by (simp add: be_bytes_def)

lemma length_sha256 [simp]: "length (sha256 m) = 32"
  by (simp add: sha256_def word_bytes_def Let_def)

lemma sha256_not_empty [simp]: "sha256 m \<noteq> []"
  using length_sha256 [of m] by (metis list.size(3) zero_neq_numeral)

section \<open>Paths\<close>

text \<open>
  \<^verbatim>\<open>filepath.Clean\<close>: the path is read element by element; an empty element and \<^verbatim>\<open>.\<close> are
  dropped, \<^verbatim>\<open>..\<close> drops the element before it, and is kept at the front of a relative path only.
  The elements kept so far are in reverse order.
\<close>

fun split_on :: "char \<Rightarrow> string \<Rightarrow> string list" where
  "split_on d [] = [[]]"
| "split_on d (c # cs) =
     (if c = d then [] # split_on d cs
      else (case split_on d cs of [] \<Rightarrow> [[c]] | x # xs \<Rightarrow> (c # x) # xs))"

fun join_with :: "string \<Rightarrow> string list \<Rightarrow> string" where
  "join_with d [] = []"
| "join_with d [x] = x"
| "join_with d (x # y # ys) = x @ d @ join_with d (y # ys)"

definition rooted :: "string \<Rightarrow> bool" where
  "rooted p \<longleftrightarrow> take 1 p = ''/''"

definition clean_step :: "bool \<Rightarrow> string \<Rightarrow> string list \<Rightarrow> string list" where
  "clean_step r c st =
     (if c = '''' \<or> c = ''.'' then st
      else if c \<noteq> ''..'' then c # st
      else (case st of
              [] \<Rightarrow> if r then [] else [c]
            | x # xs \<Rightarrow> if x = ''..'' then c # st else xs))"

definition clean_elems :: "bool \<Rightarrow> string \<Rightarrow> string list" where
  "clean_elems r p = rev (fold (clean_step r) (split_on (CHR ''/'') p) [])"

definition unsplit :: "bool \<Rightarrow> string list \<Rightarrow> string" where
  "unsplit r es = (if es = [] then (if r then ''/'' else ''.'') else (if r then ''/'' else '''') @ join_with ''/'' es)"

definition filepath_Clean :: "string \<Rightarrow> string" where
  "filepath_Clean p = unsplit (rooted p) (clean_elems (rooted p) p)"

text \<open>\<^verbatim>\<open>filepath.Join\<close> of two elements; leading empty ones are ignored.\<close>

definition filepath_Join :: "string \<Rightarrow> string \<Rightarrow> string" where
  "filepath_Join a b =
     (if a \<noteq> '''' then filepath_Clean (a @ ''/'' @ b) else if b \<noteq> '''' then filepath_Clean b else '''')"

text \<open>\<^verbatim>\<open>filepath.Abs\<close> in a process whose working directory is \<open>cwd\<close>.\<close>

definition filepath_Abs :: "string \<Rightarrow> string \<Rightarrow> string" where
  "filepath_Abs cwd p = (if rooted p then filepath_Clean p else filepath_Join cwd p)"

text \<open>The elements of a clean path: no empty one, no dot, and no double dot in a rooted path.\<close>

lemma split_on_not_Nil [simp]: "split_on d p \<noteq> []"
  by (cases p) (auto split: list.splits)

lemma split_on_append:
  "split_on d (a @ d # b) = split_on d a @ split_on d b"
  by (induction a) (auto split: list.splits)

lemma split_on_no_sep: "d \<notin> set p \<Longrightarrow> split_on d p = [p]"
  by (induction p) auto

lemma split_on_elems: "x \<in> set (split_on d p) \<Longrightarrow> d \<notin> set x"
  by (induction p arbitrary: x) (auto split: list.splits if_splits)

lemma split_join:
  assumes "\<forall>x \<in> set es. CHR ''/'' \<notin> set x" and "es \<noteq> []"
  shows "split_on (CHR ''/'') (join_with ''/'' es) = es"
  using assms
proof (induction "''/''" es rule: join_with.induct)
  case (3 x y ys)
  then show ?case using split_on_append [of "CHR ''/''" x] by (simp add: split_on_no_sep)
qed (simp_all add: split_on_no_sep)

definition plain :: "string \<Rightarrow> bool" where
  "plain e \<longleftrightarrow> e \<notin> {'''', ''.'', ''..''} \<and> CHR ''/'' \<notin> set e"

lemma clean_step_plain: "plain e \<Longrightarrow> clean_step r e st = e # st"
  by (simp add: clean_step_def plain_def)

lemma fold_plain: "\<forall>e \<in> set es. plain e \<Longrightarrow> fold (clean_step r) es st = rev es @ st"
  by (induction es arbitrary: st) (simp_all add: clean_step_plain)

lemma clean_step_rooted:
  "\<forall>e \<in> set st. plain e \<Longrightarrow> CHR ''/'' \<notin> set c \<Longrightarrow> \<forall>e \<in> set (clean_step True c st). plain e"
  by (cases st) (auto simp: clean_step_def plain_def)

lemma clean_elems_rooted: "\<forall>e \<in> set (clean_elems True p). plain e"
proof -
  have "\<forall>e \<in> set (fold (clean_step True) cs st). plain e"
    if "\<forall>c \<in> set cs. CHR ''/'' \<notin> set c" "\<forall>e \<in> set st. plain e" for cs st
    using that
  proof (induction cs arbitrary: st)
    case (Cons c cs)
    then show ?case using clean_step_rooted [of st c] by simp
  qed simp
  from this [of "split_on (CHR ''/'') p" "[]"] show ?thesis
    using split_on_elems [of _ "CHR ''/''" p] by (simp add: clean_elems_def)
qed

lemma clean_elems_unsplit:
  assumes "\<forall>e \<in> set es. plain e"
  shows "clean_elems True (unsplit True es) = es"
proof (cases es)
  case Nil
  then show ?thesis by (simp add: unsplit_def clean_elems_def clean_step_def)
next
  case (Cons e r)
  then have "split_on (CHR ''/'') (unsplit True es) = [] # es"
    using assms split_join [of es] by (simp add: unsplit_def plain_def)
  then show ?thesis using assms by (simp add: clean_elems_def fold_plain clean_step_def [of _ "''''"])
qed

lemma rooted_unsplit [simp]: "rooted (unsplit True es)"
  by (simp add: unsplit_def rooted_def)

lemma Clean_idem_rooted: "rooted p \<Longrightarrow> filepath_Clean (filepath_Clean p) = filepath_Clean p"
  by (simp add: filepath_Clean_def clean_elems_unsplit clean_elems_rooted)


text \<open>Cleaning a relative path first changes nothing for the rooted path it is put under.\<close>

definition proper :: "string list \<Rightarrow> bool" where
  "proper es \<longleftrightarrow> (\<forall>e \<in> set es. e \<notin> {'''', ''.''})"

lemma clean_step_proper: "proper st \<Longrightarrow> proper (clean_step r c st)"
  by (cases st) (auto simp: clean_step_def proper_def)

lemma clean_twice_step:
  "proper s \<Longrightarrow> fold (clean_step True) (rev (clean_step False c s)) st = clean_step True c (fold (clean_step True) (rev s) st)"
  by (cases s) (auto simp: clean_step_def proper_def)

lemma clean_twice:
  "proper s \<Longrightarrow> fold (clean_step True) (rev (fold (clean_step False) cs s)) st
     = fold (clean_step True) cs (fold (clean_step True) (rev s) st)"
  by (induction cs arbitrary: s) (simp_all add: clean_step_proper clean_twice_step)

lemma clean_elems_under:
  "fold (clean_step True) (clean_elems False p) st = fold (clean_step True) (split_on (CHR ''/'') p) st"
  by (simp add: clean_elems_def clean_twice proper_def)

lemma clean_elems_proper: "proper (clean_elems r p)"
proof -
  have "proper (fold (clean_step r) cs st)" if "proper st" for cs st
    using that by (induction cs arbitrary: st) (simp_all add: clean_step_proper)
  from this [of "[]"] show ?thesis by (simp add: clean_elems_def proper_def)
qed

lemma clean_elems_no_sep: "e \<in> set (clean_elems r p) \<Longrightarrow> CHR ''/'' \<notin> set e"
proof -
  have "\<forall>e \<in> set (fold (clean_step r) cs st). CHR ''/'' \<notin> set e"
    if "\<forall>c \<in> set cs. CHR ''/'' \<notin> set c" "\<forall>e \<in> set st. CHR ''/'' \<notin> set e" for cs st
    using that
  proof (induction cs arbitrary: st)
    case (Cons c cs)
    have "\<forall>e \<in> set (clean_step r c st). CHR ''/'' \<notin> set e" using Cons.prems by (cases st) (auto simp: clean_step_def)
    with Cons show ?case by simp
  qed simp
  from this [of "split_on (CHR ''/'') p" "[]"] show "e \<in> set (clean_elems r p) \<Longrightarrow> CHR ''/'' \<notin> set e"
    using split_on_elems [of _ "CHR ''/''" p] by (simp add: clean_elems_def)
qed

lemma fold_split_unsplit:
  assumes "\<forall>e \<in> set es. CHR ''/'' \<notin> set e"
  shows "fold (clean_step True) (split_on (CHR ''/'') (unsplit r es)) st = fold (clean_step True) es st"
  using split_join [OF assms] by (auto simp: unsplit_def clean_step_def)

text \<open>The elements of the absolute form of a path.\<close>

definition abs_elems :: "string \<Rightarrow> string \<Rightarrow> string list" where
  "abs_elems cwd p = clean_elems True (if rooted p then p else cwd @ ''/'' @ p)"

lemma filepath_Abs_elems:
  assumes "rooted cwd"
  shows "filepath_Abs cwd p = unsplit True (abs_elems cwd p)"
proof -
  obtain c where "cwd = CHR ''/'' # c" using assms by (cases cwd) (auto simp: rooted_def)
  then have "cwd \<noteq> []" "rooted (cwd @ ''/'' @ p)" by (simp_all add: rooted_def)
  then show ?thesis by (simp add: filepath_Abs_def abs_elems_def filepath_Join_def filepath_Clean_def)
qed

lemma abs_elems_plain: "\<forall>e \<in> set (abs_elems cwd p). plain e"
  unfolding abs_elems_def by (rule clean_elems_rooted)

lemma abs_elems_Join_rooted:
  assumes "dir \<noteq> ''''" and "\<forall>e \<in> set es. plain e"
  shows "abs_elems cwd (filepath_Join dir (unsplit True es)) = abs_elems cwd dir @ es"
proof -
  let ?q = "dir @ ''/'' @ unsplit True es" and ?S = "split_on (CHR ''/'')" and ?f = "fold (clean_step True)"
  have no: "\<forall>e \<in> set es. CHR ''/'' \<notin> set e" using assms(2) by (simp add: plain_def)
  have q: "?f (?S ?q) st = rev es @ ?f (?S dir) st" for st
    using fold_split_unsplit [OF no, of True] fold_plain [OF assms(2)] by (simp add: split_on_append)
  have r: "rooted ?q = rooted dir" using assms(1) by (cases dir) (simp_all add: rooted_def)
  have j: "filepath_Join dir (unsplit True es) = unsplit (rooted dir) (clean_elems (rooted dir) ?q)"
    using assms(1) r by (simp add: filepath_Join_def filepath_Clean_def)
  show ?thesis
  proof (cases "rooted dir")
    case True
    then show ?thesis using q [of "[]"]
      by (simp add: j abs_elems_def clean_elems_unsplit clean_elems_rooted) (simp add: clean_elems_def)
  next
    case False
    let ?u = "unsplit False (clean_elems False ?q)"
    have "\<not> rooted ?u"
    proof (cases "clean_elems False ?q")
      case (Cons e r)
      moreover have "CHR ''/'' \<notin> set e" "e \<noteq> ''''"
        using Cons clean_elems_no_sep [of e False ?q] clean_elems_proper [of False ?q] by (auto simp: proper_def)
      ultimately show ?thesis by (cases r; cases e) (auto simp: unsplit_def rooted_def)
    qed (simp add: unsplit_def rooted_def)
    then have "abs_elems cwd ?u = rev (?f (?S ?u) (?f (?S cwd) []))"
      by (simp add: abs_elems_def clean_elems_def split_on_append)
    also have "\<dots> = rev (?f (?S ?q) (?f (?S cwd) []))"
      using fold_split_unsplit [of "clean_elems False ?q" False] clean_elems_no_sep [of _ False ?q]
      by (simp add: clean_elems_under)
    also have "\<dots> = abs_elems cwd dir @ es"
      unfolding q using False by (simp add: abs_elems_def clean_elems_def split_on_append)
    finally show ?thesis using False by (simp add: j)
  qed
qed

end
