(* ===== verification/Tool_Identity.thy ===== *)
theory Tool_Identity
  imports Hooks Go_Std "HOL-Library.AList"
begin

text \<open>
  Who a tool is (\<^verbatim>\<open>internal/tools\<close>): the qualified reference with its parser, the resident
  registry with one owner per namespace, the admission scanner, the pinned manifest, and the
  canonical digest that approvals and effect claims are bound to. A tool is a record of its
  methods over an abstract world. The lemmas are the round trip of the reference, the invariant
  of the registry, what a manifest pins, and that one digest stands for one canonical call.
\<close>

section \<open>Types\<close>

record tool_ref =
  RefNamespace :: string
  RefName :: string
  RefVersion :: string

definition ref_String :: "tool_ref \<Rightarrow> string" where
  "ref_String r = RefNamespace r @ ''/'' @ RefName r @ ''@'' @ RefVersion r"

record descriptor =
  DescID :: tool_ref
  Description :: string
  InputSchema :: bytes
  DescEffect :: effect_class

definition DefaultTaint :: taint where
  "DefaultTaint = \<lparr>ReturnsUntrusted = True, ReadsPrivateData = True, MutatesExternal = True\<rparr>"

record permission_result =
  PermDecision :: string
  PermReason :: string

record call_result =
  CallOutput :: bytes
  CallIsError :: bool
  CallReason :: string
  AwaitingChild :: "uuid option"

definition no_call_result :: call_result where
  "no_call_result = \<lparr>CallOutput = '''', CallIsError = False, CallReason = '''', AwaitingChild = None\<rparr>"

text \<open>The sandbox of a session runs a command line: output, exit code, breach, error.\<close>

type_synonym 'w sandbox_exec = "string \<Rightarrow> 'w \<Rightarrow> (string \<times> int \<times> string \<times> err option) \<times> 'w"

record 'w run_context =
  RcTenant :: uuid
  RcSession :: uuid
  WorkspaceDir :: string
  RcSandbox :: "'w sandbox_exec option"

text \<open>A call returns a result and an error, or panics with a value of the given printed form.\<close>

datatype call_outcome = Returned call_result "err option" | Panicked string

text \<open>
  The run of a call. A tool acts on the world, and some tools reach back into the pipeline that runs
  them: delegation and the team board hold it as their \<^verbatim>\<open>TaintFolder\<close> and, in the middle of a call, ask for
  the taint of a session or fold taint into one. A run is over with an outcome and the world it
  leaves, or does one of the interface's three operations and goes on, in the first case with the answer.
\<close>

datatype 'w tool_run =
    ToolDone call_outcome 'w
  | AskTaint uuid "legs \<Rightarrow> 'w tool_run"
  | FoldInto uuid legs "'w tool_run"
  | SeedInto uuid string legs "'w tool_run"

record 'w tool =
  ToolRef :: tool_ref
  Descriptor :: "'w \<Rightarrow> descriptor"
  ToolTaint :: "'w \<Rightarrow> taint"
  IsConcurrencySafe :: "bytes \<Rightarrow> bool"
  CheckPermissions :: "bytes \<Rightarrow> 'w run_context \<Rightarrow> 'w \<Rightarrow> permission_result \<times> 'w"
  ValidateInput :: "bytes \<Rightarrow> 'w run_context \<Rightarrow> 'w \<Rightarrow> err option \<times> 'w"
  ToolCall :: "bytes \<Rightarrow> 'w run_context \<Rightarrow> 'w \<Rightarrow> 'w tool_run"

section \<open>References\<close>

text \<open>
  The pattern
  \<^verbatim>\<open>^([a-z0-9_-]+(?:/[a-z0-9_-]+)*)/([a-z0-9_-]+)@(v?[0-9][a-zA-Z0-9_.-]*)$\<close> matches in one way at
  most: no group can contain an at sign, and the name is what follows the last slash.
\<close>

definition seg_char :: "char \<Rightarrow> bool" where
  "seg_char c \<longleftrightarrow> 97 \<le> code c \<and> code c \<le> 122 \<or> is_digit c \<or> c = CHR ''_'' \<or> c = CHR ''-''"

definition segment :: "string \<Rightarrow> bool" where
  "segment s \<longleftrightarrow> s \<noteq> '''' \<and> list_all seg_char s"

definition version_char :: "char \<Rightarrow> bool" where
  "version_char c \<longleftrightarrow> seg_char c \<or> 65 \<le> code c \<and> code c \<le> 90 \<or> c = CHR ''.''"

definition version_ok :: "string \<Rightarrow> bool" where
  "version_ok v =
     (let d = (if take 1 v = ''v'' then drop 1 v else v) in
      (case d of [] \<Rightarrow> False | c # r \<Rightarrow> is_digit c \<and> list_all version_char r))"

definition ParseToolRef :: "string \<Rightarrow> err + tool_ref" where
  "ParseToolRef s =
     (let bad = Inl (Err (''tools: '' @ quoted s @ '' is not a valid {namespace}/{name}@'' @ ''{version} tool ref'')) in
      case split_on (CHR ''@'') s of
        [path, ver] \<Rightarrow>
          (let segs = split_on (CHR ''/'') path in
           if length segs \<ge> 2 \<and> list_all segment segs \<and> version_ok ver
           then Inr \<lparr>RefNamespace = join_with ''/'' (butlast segs), RefName = last segs, RefVersion = ver\<rparr>
           else bad)
      | _ \<Rightarrow> bad)"

definition ref_ok :: "tool_ref \<Rightarrow> bool" where
  "ref_ok r \<longleftrightarrow> list_all segment (split_on (CHR ''/'') (RefNamespace r)) \<and> segment (RefName r) \<and> version_ok (RefVersion r)"

section \<open>The registry\<close>

datatype admission_status = AdmissionNone | AdmissionPending | AdmissionClean | AdmissionFlagged | AdmissionRejected

fun admission_str :: "admission_status \<Rightarrow> string" where
  "admission_str AdmissionNone = ''''"
| "admission_str AdmissionPending = ''pending''"
| "admission_str AdmissionClean = ''clean''"
| "admission_str AdmissionFlagged = ''flagged''"
| "admission_str AdmissionRejected = ''rejected''"

record 'w tool_entry =
  EntryTool :: "'w tool"
  EntryStatus :: admission_status

text \<open>The keys of each namespace are an association list, since \<^verbatim>\<open>All\<close> ranges over its keys.\<close>

record 'w registry =
  namespaceOwner :: "string \<rightharpoonup> string"
  reg_tools :: "string \<rightharpoonup> 'w tool_entry"
  byNamespace :: "(string \<times> string list) list"

definition NewRegistry :: "'w registry" where
  "NewRegistry = \<lparr>namespaceOwner = Map.empty, reg_tools = Map.empty, byNamespace = []\<rparr>"

definition DeclareNamespace :: "string \<Rightarrow> string \<Rightarrow> 'w registry \<Rightarrow> err option \<times> 'w registry" where
  "DeclareNamespace namespace owner r =
     (case namespaceOwner r namespace of
        Some existing \<Rightarrow>
          if existing \<noteq> owner
          then (Some (Err (''tools: namespace '' @ quoted namespace @ '' is already owned by '' @ quoted existing
                  @ '', refusing to also bind '' @ quoted owner)), r)
          else (None, r\<lparr>namespaceOwner := (namespaceOwner r)(namespace \<mapsto> owner)\<rparr>)
      | None \<Rightarrow> (None, r\<lparr>namespaceOwner := (namespaceOwner r)(namespace \<mapsto> owner)\<rparr>))"

definition ns_keys :: "'w registry \<Rightarrow> string \<Rightarrow> string list" where
  "ns_keys r ns = (case map_of (byNamespace r) ns of None \<Rightarrow> [] | Some ks \<Rightarrow> ks)"

definition Register :: "'w tool \<Rightarrow> 'w registry \<Rightarrow> err option \<times> 'w registry" where
  "Register t r =
     (let ref = ToolRef t; key = ref_String ref in
      if namespaceOwner r (RefNamespace ref) = None
      then (Some (Err (''tools: namespace '' @ quoted (RefNamespace ref)
              @ '' has no declared owner; call DeclareNamespace before Register'')), r)
      else if reg_tools r key \<noteq> None then (Some (Err (''tools: '' @ quoted key @ '' is already registered'')), r)
      else (None, r\<lparr>reg_tools := (reg_tools r)(key \<mapsto> \<lparr>EntryTool = t, EntryStatus = AdmissionPending\<rparr>),
                   byNamespace := AList.update (RefNamespace ref) (ns_keys r (RefNamespace ref) @ [key]) (byNamespace r)\<rparr>))"

definition reg_Lookup :: "'w registry \<Rightarrow> tool_ref \<Rightarrow> 'w tool option" where
  "reg_Lookup r ref = map_option EntryTool (reg_tools r (ref_String ref))"

definition SetAdmissionStatus :: "tool_ref \<Rightarrow> admission_status \<Rightarrow> 'w registry \<Rightarrow> err option \<times> 'w registry" where
  "SetAdmissionStatus ref status r =
     (let key = ref_String ref in
      case reg_tools r key of
        None \<Rightarrow> (Some (Err (''tools: '' @ quoted key @ '' is not registered'')), r)
      | Some e \<Rightarrow> (None, r\<lparr>reg_tools := (reg_tools r)(key \<mapsto> e\<lparr>EntryStatus := status\<rparr>)\<rparr>))"

definition AdmissionStatus :: "'w registry \<Rightarrow> tool_ref \<Rightarrow> admission_status" where
  "AdmissionStatus r ref = (case reg_tools r (ref_String ref) of None \<Rightarrow> AdmissionNone | Some e \<Rightarrow> EntryStatus e)"

definition All_tools :: "'w registry \<Rightarrow> 'w tool list" where
  "All_tools r =
     concat (map (\<lambda>ns. map (\<lambda>key. EntryTool (the (reg_tools r key))) (ns_keys r ns))
       (sort_slice (<) (map fst (byNamespace r))))"

section \<open>The admission scanner\<close>

text \<open>
  Under \<^verbatim>\<open>(?i)\<close> the letter s also matches the long s, U+017F; no other letter of the patterns has a
  fold outside ASCII. A dot is any byte but the newline.
\<close>

definition fold_letter :: "char \<Rightarrow> re" where
  "fold_letter c =
     (let self = Chr (\<lambda>x. x = c \<or> 97 \<le> code c \<and> code c \<le> 122 \<and> code x + 32 = code c) in
      if c = CHR ''s'' then Alt self (lit [CHR 0xC5, CHR 0xBF]) else self)"

definition phrase :: "string \<Rightarrow> re" where
  "phrase s = seqs (map fold_letter s)"

definition opt :: "re \<Rightarrow> re" where
  "opt r = Alt r Eps"

definition injectionPatterns :: "(string \<times> re) list" where
  "injectionPatterns =
     [(''(?i)ignore (all )?(previous|prior|above) instructions'',
       seqs [phrase ''ignore '', opt (phrase ''all ''),
             Alt (phrase ''previous'') (Alt (phrase ''prior'') (phrase ''above'')), phrase '' instructions'']),
      (''(?i)disregard (the )?system prompt'',
       seqs [phrase ''disregard '', opt (phrase ''the ''), phrase ''system prompt'']),
      (''(?i)you must (always|now) '',
       seqs [phrase ''you must '', Alt (phrase ''always'') (phrase ''now''), phrase '' '']),
      (''(?i)<!--.*-->'',
       seqs [lit ''<!--'', Star (Chr (\<lambda>c. code c \<noteq> 10)), lit ''-->''])]"

definition byte_range :: "nat \<Rightarrow> nat \<Rightarrow> re" where
  "byte_range a b = Chr (\<lambda>c. a \<le> code c \<and> code c \<le> b)"

definition suspiciousPatterns :: "(string \<times> re) list" where
  "suspiciousPatterns =
     [(join_with [CHR 92] [''['', ''x{200B}-'', ''x{200F}'', ''x{2060}-'', ''x{206F}]''],
       Alt (seqs [lit [CHR 0xE2, CHR 0x80], byte_range 0x8B 0x8F]) (seqs [lit [CHR 0xE2, CHR 0x81], byte_range 0xA0 0xAF]))]"

record finding =
  FindPattern :: string
  FindField :: string

definition hits :: "(string \<times> re) list \<Rightarrow> string \<Rightarrow> string \<Rightarrow> finding list" where
  "hits ps field text =
     map (\<lambda>(name, r). \<lparr>FindPattern = name, FindField = field\<rparr>) (filter (\<lambda>(name, r). MatchString r text) ps)"

text \<open>\<^verbatim>\<open>strings.TrimSpace(s) == ""\<close>: nothing but white space as \<^verbatim>\<open>unicode.IsSpace\<close> has it.\<close>

fun space_width :: "string \<Rightarrow> nat" where
  "space_width (a # r) =
     (if code a \<in> {9, 10, 11, 12, 13, 32} then 1
      else if code a = 0xC2 \<and> map code (take 1 r) \<in> {[0x85], [0xA0]} then 2
      else if map code (a # take 2 r) \<in> {[0xE1, 0x9A, 0x80], [0xE2, 0x80, 0xA8], [0xE2, 0x80, 0xA9], [0xE2, 0x80, 0xAF],
                [0xE2, 0x81, 0x9F], [0xE3, 0x80, 0x80]} then 3
      else if map code (a # take 1 r) = [0xE2, 0x80] \<and> list_all (\<lambda>c. 0x80 \<le> code c \<and> code c \<le> 0x8A) (take 1 (drop 1 r))
              \<and> length r \<ge> 2 then 3
      else 0)"
| "space_width [] = 0"

function blank :: "string \<Rightarrow> bool" where
  "blank s = (if s = [] then True else if space_width s = 0 then False else blank (drop (space_width s) s))"
  by pat_completeness auto
termination by (relation "measure length") auto

declare blank.simps [simp del]

definition Scan :: "descriptor \<Rightarrow> admission_status \<times> finding list" where
  "Scan d =
     (let injections = hits injectionPatterns ''description'' (Description d)
                         @ hits injectionPatterns ''input_schema'' (InputSchema d);
          suspicions = hits suspiciousPatterns ''description'' (Description d)
                         @ hits suspiciousPatterns ''input_schema'' (InputSchema d) in
      if injections \<noteq> [] then (AdmissionRejected, injections)
      else if suspicions \<noteq> [] then (AdmissionFlagged, suspicions)
      else if blank (Description d)
      then (AdmissionFlagged, [\<lparr>FindPattern = ''empty description'', FindField = ''description''\<rparr>])
      else (AdmissionClean, []))"

section \<open>The manifest\<close>

record manifest_entry =
  PinnedID :: tool_ref
  DescriptorDigest :: bytes

record manifest =
  Entries :: "manifest_entry list"
  ManifestDigest :: bytes

definition descriptorDigest :: "descriptor \<Rightarrow> bytes" where
  "descriptorDigest d =
     sha256 (''id='' @ ref_String (DescID d) @ [CHR 10] @ ''description='' @ Description d @ [CHR 10]
       @ ''input_schema='' @ InputSchema d @ [CHR 10] @ ''effect_class='' @ effect_str (DescEffect d) @ [CHR 10])"

definition clean_tools :: "'w registry \<Rightarrow> 'w tool list" where
  "clean_tools reg = filter (\<lambda>t. AdmissionStatus reg (ToolRef t) = AdmissionClean) (All_tools reg)"

definition BuildManifest :: "'w registry \<Rightarrow> 'w \<Rightarrow> manifest" where
  "BuildManifest reg w =
     (let pinned = map (\<lambda>t. \<lparr>PinnedID = ToolRef t, DescriptorDigest = descriptorDigest (Descriptor t w)\<rparr>) (clean_tools reg) in
      \<lparr>Entries = pinned,
       ManifestDigest = sha256 (concat (map (\<lambda>e. ref_String (PinnedID e) @ '':'' @ hex (DescriptorDigest e) @ [CHR 10]) pinned))\<rparr>)"

definition manifest_Resolve :: "manifest \<Rightarrow> tool_ref \<Rightarrow> manifest_entry option" where
  "manifest_Resolve m ref = find (\<lambda>e. PinnedID e = ref) (Entries m)"

section \<open>The canonical digest\<close>

text \<open>
  The decoder reads the first value of the input and leaves the rest unread. An object becomes a
  map, so the last of several members with one key wins; it is written with its keys sorted.
\<close>

definition json_Decode :: "bytes \<Rightarrow> err + json" where
  "json_Decode raw =
     (case parse_value (2 * length raw) raw of
        None \<Rightarrow> Inl (Err (if skip_ws raw = [] then ''EOF'' else ''invalid JSON text'')) | Some (v, r) \<Rightarrow> Inr v)"

definition last_wins :: "(string \<times> 'a) list \<Rightarrow> (string \<times> 'a) list" where
  "last_wins ms = map (\<lambda>key. (key, the (map_of (rev ms) key))) (sort_slice (<) (remdups (map fst ms)))"

fun canon :: "json \<Rightarrow> json" where
  "canon (JArr vs) = JArr (map canon vs)"
| "canon (JObj fs) = JObj (last_wins (map (\<lambda>(key, v). (key, canon v)) fs))"
| "canon v = v"

definition writeCanonical :: "json \<Rightarrow> bytes" where
  "writeCanonical v = json_render (canon v)"

definition canonicalizeJSON :: "bytes \<Rightarrow> err + bytes" where
  "canonicalizeJSON raw = (case json_Decode raw of Inl er \<Rightarrow> Inl er | Inr v \<Rightarrow> Inr (writeCanonical v))"

definition digest_payload :: "string \<Rightarrow> bytes \<Rightarrow> bytes" where
  "digest_payload toolID canonInput =
     [CHR ''{'', CHR 34] @ ''input'' @ [CHR 34, CHR '':''] @ canonInput
       @ [CHR '','', CHR 34] @ ''tool_id'' @ [CHR 34, CHR '':''] @ render_string toolID @ ''}''"

definition Canonical_Digest :: "string \<Rightarrow> bytes \<Rightarrow> err + bytes" where
  "Canonical_Digest toolID inp =
     (case canonicalizeJSON (if inp = '''' then ''{}'' else inp) of
        Inl er \<Rightarrow> Inl (Wrapped ''tools: canonicalize input'' er)
      | Inr canonInput \<Rightarrow> Inr (sha256 (digest_payload toolID canonInput)))"

section \<open>A reference is its text\<close>

lemma join_split: "join_with [d] (split_on d p) = p"
proof (induction p)
  case (Cons c cs)
  show ?case
  proof (cases "split_on d cs")
    case (Cons x xs)
    then show ?thesis using Cons.IH by (cases xs) auto
  qed simp
qed simp

lemma join_snoc: "xs \<noteq> [] \<Longrightarrow> join_with d (xs @ [y]) = join_with d xs @ d @ y"
  by (induction d xs rule: join_with.induct) auto

lemma segment_no_sep: "segment s \<Longrightarrow> CHR ''/'' \<notin> set s \<and> CHR ''@'' \<notin> set s"
  by (auto simp: segment_def list_all_iff seg_char_def is_digit_def code_def)

lemma version_no_at: "version_ok v \<Longrightarrow> CHR ''@'' \<notin> set v"
proof -
  have no: "\<not> version_char (CHR ''@'')" "\<not> is_digit (CHR ''@'')"
    by (simp_all add: version_char_def seg_char_def is_digit_def code_def)
  assume "version_ok v"
  then show ?thesis
    using no by (cases v) (auto simp: version_ok_def Let_def list_all_iff split: list.splits if_splits)
qed

lemma no_at_path: "\<forall>x \<in> set xs. CHR ''@'' \<notin> set x \<Longrightarrow> CHR ''@'' \<notin> set (join_with ''/'' xs)"
  by (induction "''/''" xs rule: join_with.induct) auto

lemma ParseToolRef_String: "ref_ok r \<Longrightarrow> ParseToolRef (ref_String r) = Inr r"
proof -
  assume ok: "ref_ok r"
  let ?segs = "split_on (CHR ''/'') (RefNamespace r) @ [RefName r]"
  have segs: "list_all segment ?segs" using ok by (simp add: ref_ok_def)
  then have "\<forall>x \<in> set ?segs. CHR ''@'' \<notin> set x \<and> CHR ''/'' \<notin> set x"
    using segment_no_sep by (auto simp: list_all_iff)
  moreover have path: "RefNamespace r @ ''/'' @ RefName r = join_with ''/'' ?segs"
    by (simp add: join_snoc join_split)
  ultimately have at: "CHR ''@'' \<notin> set (RefNamespace r @ ''/'' @ RefName r)" and
      sl: "split_on (CHR ''/'') (RefNamespace r @ ''/'' @ RefName r) = ?segs"
    using no_at_path [of ?segs] split_join [of ?segs] by (metis, metis snoc_eq_iff_butlast)
  have "ref_String r = (RefNamespace r @ ''/'' @ RefName r) @ CHR ''@'' # RefVersion r" by (simp add: ref_String_def)
  then have "split_on (CHR ''@'') (ref_String r) = [RefNamespace r @ ''/'' @ RefName r, RefVersion r]"
    using at ok version_no_at [of "RefVersion r"]
    by (simp only: split_on_append) (simp add: split_on_no_sep ref_ok_def)
  moreover have "length (split_on (CHR ''/'') (RefNamespace r)) \<ge> 1"
    by (cases "split_on (CHR ''/'') (RefNamespace r)") auto
  ultimately show ?thesis
    using sl segs ok join_split [of "CHR ''/''" "RefNamespace r"] by (simp add: ParseToolRef_def Let_def ref_ok_def)
qed

lemma ParseToolRef_Inr: "ParseToolRef s = Inr r \<Longrightarrow> ref_ok r \<and> ref_String r = s"
proof -
  assume "ParseToolRef s = Inr r"
  then obtain path ver where at: "split_on (CHR ''@'') s = [path, ver]"
      and ok: "2 \<le> length (split_on (CHR ''/'') path)" "list_all segment (split_on (CHR ''/'') path)" "version_ok ver"
      and r: "r = \<lparr>RefNamespace = join_with ''/'' (butlast (split_on (CHR ''/'') path)),
                  RefName = last (split_on (CHR ''/'') path), RefVersion = ver\<rparr>"
    by (auto simp: ParseToolRef_def Let_def split: list.splits if_splits)
  define segs where "segs = split_on (CHR ''/'') path"
  have len: "2 \<le> length segs" using ok(1) by (simp only: segs_def)
  then obtain a b c where "segs = a # b # c" by (cases segs; cases "tl segs") auto
  then have ne: "butlast segs \<noteq> []" "segs \<noteq> []" by simp_all
  have "path = join_with ''/'' (butlast segs) @ ''/'' @ last segs"
    using join_split [of "CHR ''/''" path] join_snoc [OF ne(1), of "''/''" "last segs"] append_butlast_last_id [OF ne(2)]
    by (simp add: segs_def)
  moreover have "s = path @ ''@'' @ ver" using join_split [of "CHR ''@''" s] at by simp
  moreover have "list_all segment (butlast segs)" "segment (last segs)"
    using ok(2) ne by (auto simp: segs_def list_all_iff dest: in_set_butlastD)
  moreover from this have "split_on (CHR ''/'') (join_with ''/'' (butlast segs)) = butlast segs"
    using ne segment_no_sep by (intro split_join) (auto simp: list_all_iff)
  ultimately show ?thesis using ok(3) by (simp add: r ref_ok_def ref_String_def segs_def)
qed


section \<open>One digest, one call\<close>

lemma last_wins_by_lookup:
  "last_wins ms = map (\<lambda>key. (key, the (map_of (rev ms) key))) (sorted_list_of_set (dom (map_of (rev ms))))"
proof -
  have "sort_slice (\<lambda>a b. id a < id b) (remdups (map fst ms)) = sort_key id (remdups (map fst ms))"
    by (rule sort_slice_sort_key)
  then have "sort_slice (<) (remdups (map fst ms)) = sort (remdups (map fst ms))" by (simp add: id_def)
  moreover have "dom (map_of (rev ms)) = set (map fst ms)" by (simp add: dom_map_of_conv_image_fst)
  ultimately show ?thesis by (simp only: last_wins_def sorted_list_of_set_sort_remdups)
qed

lemma last_wins_cong: "map_of (rev ms) = map_of (rev ms') \<Longrightarrow> last_wins ms = last_wins ms'"
  by (simp add: last_wins_by_lookup)

lemma set_last_wins: "set (last_wins ms) \<subseteq> set ms"
proof
  fix x assume "x \<in> set (last_wins ms)"
  then obtain key where key: "key \<in> dom (map_of (rev ms))" "x = (key, the (map_of (rev ms) key))"
    by (auto simp: last_wins_by_lookup finite_dom_map_of)
  then show "x \<in> set ms" using map_of_SomeD [of "rev ms" key] by auto
qed

lemma canon_wf: "wf_json v \<Longrightarrow> wf_json (canon v)"
proof (induction v rule: canon.induct)
  case (2 fs)
  then show ?case using set_last_wins [of "map (\<lambda>(key, v). (key, canon v)) fs"] by (fastforce simp: list_all_iff)
qed (auto simp: list_all_iff)

lemma canon_members:
  "map_of (rev (map (\<lambda>(key, v). (key, canon v)) fs)) = (\<lambda>key. map_option canon (map_of (rev fs) key))"
  by (simp add: rev_map map_of_map fun_eq_iff)

lemma canon_same_members:
  "map_of (rev fs) = map_of (rev gs) \<Longrightarrow> canon (JObj fs) = canon (JObj gs)"
  using last_wins_cong [of "map (\<lambda>(key, v). (key, canon v)) fs" "map (\<lambda>(key, v). (key, canon v)) gs"]
  by (simp add: canon_members)

lemma render_inj: "wf_json v \<Longrightarrow> wf_json u \<Longrightarrow> json_render v = json_render u \<Longrightarrow> v = u"
  by (metis json_parse_render sum.inject(2))

lemma payload_is_json:
  "digest_payload toolID (json_render v) = json_render (JObj [(''input'', v), (''tool_id'', JStr toolID)])"
proof -
  have "render_string ''input'' = [CHR 34] @ ''input'' @ [CHR 34]" "render_string ''tool_id'' = [CHR 34] @ ''tool_id'' @ [CHR 34]"
    by code_simp+
  then show ?thesis by (simp add: digest_payload_def)
qed

text \<open>The value a tool input stands for.\<close>

definition input_value :: "bytes \<Rightarrow> err + json" where
  "input_value inp = (case json_Decode (if inp = '''' then ''{}'' else inp) of Inl er \<Rightarrow> Inl er | Inr v \<Rightarrow> Inr (canon v))"

definition call_payload :: "string \<Rightarrow> json \<Rightarrow> bytes" where
  "call_payload toolID v = digest_payload toolID (json_render v)"

lemma Canonical_Digest_value:
  "Canonical_Digest toolID inp =
     (case input_value inp of
        Inl er \<Rightarrow> Inl (Wrapped ''tools: canonicalize input'' er) | Inr v \<Rightarrow> Inr (sha256 (call_payload toolID v)))"
  by (simp add: Canonical_Digest_def canonicalizeJSON_def input_value_def writeCanonical_def call_payload_def split: sum.split)

lemma input_value_wf: "input_value inp = Inr v \<Longrightarrow> wf_json v"
  by (auto simp: input_value_def json_Decode_def intro: canon_wf dest: parse_wf split: sum.splits option.splits if_splits)

lemma call_payload_inj:
  "wf_json v \<Longrightarrow> wf_json u \<Longrightarrow> call_payload t v = call_payload s u \<Longrightarrow> t = s \<and> v = u"
  using render_inj [of "JObj [(''input'', v), (''tool_id'', JStr t)]" "JObj [(''input'', u), (''tool_id'', JStr s)]"]
  by (simp add: call_payload_def payload_is_json)

definition collide :: "bytes \<Rightarrow> bytes \<Rightarrow> bool" where
  "collide a b \<longleftrightarrow> a \<noteq> b \<and> sha256 a = sha256 b"

lemma digest_binds:
  assumes "Canonical_Digest t a = Inr d" and "Canonical_Digest s b = Inr d"
  shows "\<exists>v u. input_value a = Inr v \<and> input_value b = Inr u \<and> ((t = s \<and> v = u) \<or> collide (call_payload t v) (call_payload s u))"
proof -
  obtain v u where vu: "input_value a = Inr v" "input_value b = Inr u" "sha256 (call_payload t v) = sha256 (call_payload s u)"
    using assms by (auto simp: Canonical_Digest_value split: sum.splits)
  moreover have "t = s \<and> v = u" if "call_payload t v = call_payload s u"
    using call_payload_inj [OF _ _ that] vu(1,2) input_value_wf by blast
  ultimately show ?thesis by (auto simp: collide_def)
qed


section \<open>The catalog\<close>

definition entry_ns :: "'w tool_entry \<Rightarrow> string" where
  "entry_ns e = RefNamespace (ToolRef (EntryTool e))"

text \<open>
  Every registered tool is filed under the text of its own reference, once, in the list of its own
  namespace, and that namespace has an owner.
\<close>

definition reg_ok :: "'w registry \<Rightarrow> bool" where
  "reg_ok r \<longleftrightarrow>
     distinct (map fst (byNamespace r)) \<and>
     (\<forall>ns. distinct (ns_keys r ns)) \<and>
     (\<forall>ns key. key \<in> set (ns_keys r ns) \<longleftrightarrow> (\<exists>e. reg_tools r key = Some e \<and> entry_ns e = ns)) \<and>
     (\<forall>key e. reg_tools r key = Some e \<longrightarrow> ref_String (ToolRef (EntryTool e)) = key \<and> namespaceOwner r (entry_ns e) \<noteq> None)"

lemma reg_ok_New: "reg_ok NewRegistry"
  by (simp add: reg_ok_def NewRegistry_def ns_keys_def)

lemma ns_keys_other [simp]:
  "ns_keys (r\<lparr>reg_tools := T\<rparr>) = ns_keys r" "ns_keys (r\<lparr>namespaceOwner := N\<rparr>) = ns_keys r"
  by (simp_all add: ns_keys_def fun_eq_iff)

lemma reg_ok_Declare: "reg_ok r \<Longrightarrow> reg_ok (snd (DeclareNamespace ns owner r))"
  by (auto simp: reg_ok_def DeclareNamespace_def split: option.split)

lemma reg_ok_Status: "reg_ok r \<Longrightarrow> reg_ok (snd (SetAdmissionStatus ref status r))"
  by (auto simp: reg_ok_def SetAdmissionStatus_def entry_ns_def Let_def split: option.split)

lemma ns_keys_update:
  "ns_keys (r\<lparr>reg_tools := T, byNamespace := AList.update n ks (byNamespace r)\<rparr>) ns = (if ns = n then ks else ns_keys r ns)"
  by (simp add: ns_keys_def update_conv)

lemma reg_ok_Register: "reg_ok r \<Longrightarrow> reg_ok (snd (Register t r))"
proof -
  assume ok: "reg_ok r"
  let ?n = "RefNamespace (ToolRef t)" and ?k = "ref_String (ToolRef t)"
  show ?thesis
  proof (cases "namespaceOwner r ?n = None \<or> reg_tools r ?k \<noteq> None")
    case False
    then have new: "?k \<notin> set (ns_keys r ns)" for ns using ok by (auto simp: reg_ok_def)
    from False ok new show ?thesis
      by (auto simp: reg_ok_def Register_def Let_def ns_keys_update entry_ns_def distinct_update)
  qed (use ok in \<open>auto simp: Register_def Let_def\<close>)
qed

text \<open>The registries a process can build.\<close>

inductive reg_built :: "'w registry \<Rightarrow> bool" where
  built_new: "reg_built NewRegistry"
| built_declare: "reg_built r \<Longrightarrow> reg_built (snd (DeclareNamespace ns owner r))"
| built_register: "reg_built r \<Longrightarrow> reg_built (snd (Register t r))"
| built_status: "reg_built r \<Longrightarrow> reg_built (snd (SetAdmissionStatus ref status r))"

lemma reg_built_ok: "reg_built r \<Longrightarrow> reg_ok r"
  by (induction rule: reg_built.induct) (simp_all add: reg_ok_New reg_ok_Declare reg_ok_Register reg_ok_Status)

lemma owner_kept:
  "namespaceOwner r ns = Some owner \<Longrightarrow> namespaceOwner (snd (DeclareNamespace ns' owner' r)) ns = Some owner"
  "namespaceOwner (snd (Register t r)) = namespaceOwner r"
  "namespaceOwner (snd (SetAdmissionStatus ref status r)) = namespaceOwner r"
  by (auto simp: DeclareNamespace_def Register_def SetAdmissionStatus_def Let_def split: option.split)

lemma in_byNamespace: "key \<in> set (ns_keys r ns) \<Longrightarrow> ns \<in> set (map fst (byNamespace r))"
  by (cases "map_of (byNamespace r) ns") (auto simp: ns_keys_def dest: map_of_SomeD intro!: image_eqI [of _ fst])

lemma set_All_tools:
  assumes "reg_ok r"
  shows "t \<in> set (All_tools r) \<longleftrightarrow> (\<exists>e. reg_tools r (ref_String (ToolRef t)) = Some e \<and> EntryTool e = t)"
proof
  assume "t \<in> set (All_tools r)"
  then obtain ns key where key: "key \<in> set (ns_keys r ns)" "t = EntryTool (the (reg_tools r key))"
    by (auto simp: All_tools_def)
  then show "\<exists>e. reg_tools r (ref_String (ToolRef t)) = Some e \<and> EntryTool e = t" using assms by (auto simp: reg_ok_def)
next
  assume "\<exists>e. reg_tools r (ref_String (ToolRef t)) = Some e \<and> EntryTool e = t"
  then obtain e where e: "reg_tools r (ref_String (ToolRef t)) = Some e" "EntryTool e = t" by blast
  then have "ref_String (ToolRef t) \<in> set (ns_keys r (entry_ns e))" using assms by (auto simp: reg_ok_def)
  with in_byNamespace [OF this] e show "t \<in> set (All_tools r)" by (force simp: All_tools_def)
qed

lemma manifest_pins:
  assumes "reg_ok r"
  shows "manifest_Resolve (BuildManifest r w) ref = Some e \<longleftrightarrow>
     (\<exists>t. reg_Lookup r ref = Some t \<and> ToolRef t = ref \<and> AdmissionStatus r ref = AdmissionClean \<and>
          e = \<lparr>PinnedID = ref, DescriptorDigest = descriptorDigest (Descriptor t w)\<rparr>)" (is "?l = ?r")
proof
  assume ?l
  then have e: "e \<in> set (Entries (BuildManifest r w))" "PinnedID e = ref"
    by (auto simp: manifest_Resolve_def find_Some_iff)
  then obtain t where t: "t \<in> set (All_tools r)" "AdmissionStatus r (ToolRef t) = AdmissionClean"
      "e = \<lparr>PinnedID = ToolRef t, DescriptorDigest = descriptorDigest (Descriptor t w)\<rparr>"
    by (auto simp: BuildManifest_def clean_tools_def Let_def)
  with e set_All_tools [OF assms, of t] show ?r by (auto simp: reg_Lookup_def)
next
  assume ?r
  then obtain t where t: "reg_Lookup r ref = Some t" "ToolRef t = ref" "AdmissionStatus r ref = AdmissionClean"
      "e = \<lparr>PinnedID = ref, DescriptorDigest = descriptorDigest (Descriptor t w)\<rparr>" by blast
  then have all: "t \<in> set (All_tools r)" using set_All_tools [OF assms, of t] by (auto simp: reg_Lookup_def)
  let ?es = "Entries (BuildManifest r w)"
  have "e \<in> set ?es" using all t by (auto simp: BuildManifest_def clean_tools_def Let_def)
  then obtain e' where e': "find (\<lambda>e. PinnedID e = ref) ?es = Some e'"
    using t(4) by (cases "find (\<lambda>e. PinnedID e = ref) ?es") (auto simp: find_None_iff)
  then have "e' \<in> set ?es" "PinnedID e' = ref" by (auto simp: find_Some_iff)
  then obtain t' where t': "t' \<in> set (All_tools r)" "ToolRef t' = ref"
      "e' = \<lparr>PinnedID = ref, DescriptorDigest = descriptorDigest (Descriptor t' w)\<rparr>"
    by (auto simp: BuildManifest_def clean_tools_def Let_def)
  with t(1) set_All_tools [OF assms, of t'] have "t' = t" by (auto simp: reg_Lookup_def)
  with e' t' t(4) show ?l by (simp add: manifest_Resolve_def)
qed


section \<open>What identity guarantees\<close>

text \<open>
  C34: parsing a reference accepts exactly the texts that well-formed references print to, and gives
  back the reference: printing and parsing are inverse to each other.
\<close>

theorem ParseToolRef_iff: "ParseToolRef s = Inr r \<longleftrightarrow> ref_ok r \<and> s = ref_String r"
  using ParseToolRef_String ParseToolRef_Inr by auto

text \<open>
  C35: in every registry a process can build, the manifest taken from it resolves precisely the
  registered tools the scanner admitted as clean, each pinned to the digest of its own descriptor,
  and no later declaration can move a namespace to another owner.
\<close>

theorem manifest_resolves_admitted_tools:
  assumes "reg_built r"
  shows "(manifest_Resolve (BuildManifest r w) ref = Some e \<longleftrightarrow>
      (\<exists>t. reg_Lookup r ref = Some t \<and> ToolRef t = ref \<and> AdmissionStatus r ref = AdmissionClean \<and>
           e = \<lparr>PinnedID = ref, DescriptorDigest = descriptorDigest (Descriptor t w)\<rparr>)) \<and>
    (namespaceOwner r ns = Some owner \<longrightarrow> namespaceOwner (snd (DeclareNamespace ns' owner' r)) ns = Some owner)"
  using manifest_pins [OF reg_built_ok [OF assms]] owner_kept(1) by blast

definition demo_ref :: tool_ref where
  "demo_ref = \<lparr>RefNamespace = ''platform'', RefName = ''shell'', RefVersion = ''v1''\<rparr>"

definition demo_descriptor :: descriptor where
  "demo_descriptor = \<lparr>DescID = demo_ref, Description = ''Runs a command'', InputSchema = ''{}'', DescEffect = EffectMutating\<rparr>"

text \<open>
  A tool that echoes its input and counts its calls, and folds the untrusted leg into the session it is
  called for, as reading a card of the team board does.
\<close>

definition demo_tool :: "nat tool" where
  "demo_tool = \<lparr>ToolRef = demo_ref, Descriptor = (\<lambda>w. demo_descriptor), ToolTaint = (\<lambda>w. DefaultTaint),
     IsConcurrencySafe = (\<lambda>inp. False),
     CheckPermissions = (\<lambda>inp rc w. (\<lparr>PermDecision = ''defer'', PermReason = ''''\<rparr>, w)),
     ValidateInput = (\<lambda>inp rc w. (None, w)),
     ToolCall = (\<lambda>inp rc w. FoldInto (RcSession rc) (True, False, False)
       (ToolDone (Returned (no_call_result\<lparr>CallOutput := inp\<rparr>) None) (w + 1)))\<rparr>"

definition demo_registry :: "nat registry" where
  "demo_registry = snd (SetAdmissionStatus demo_ref AdmissionClean
     (snd (Register demo_tool (snd (DeclareNamespace ''platform'' ''core'' NewRegistry)))))"

lemma demo_registry_built: "reg_built demo_registry"
  unfolding demo_registry_def by (intro built_status built_register built_declare built_new)

lemma demo_registry_lookup:
  "reg_Lookup demo_registry demo_ref = Some demo_tool" "AdmissionStatus demo_registry demo_ref = AdmissionClean"
  by (simp_all add: demo_registry_def SetAdmissionStatus_def Register_def DeclareNamespace_def NewRegistry_def
        reg_Lookup_def AdmissionStatus_def demo_tool_def demo_ref_def ref_String_def Let_def)

theorem manifest_resolves_admitted_tools_witness:
  "manifest_Resolve (BuildManifest demo_registry 0) demo_ref
     = Some \<lparr>PinnedID = demo_ref, DescriptorDigest = descriptorDigest demo_descriptor\<rparr>"
  using manifest_resolves_admitted_tools [OF demo_registry_built, of 0 demo_ref] demo_registry_lookup
  by (simp add: demo_tool_def)

text \<open>
  a canonical digest stands for one call. Two calls with one digest name the same tool and have
  the same input up to the order of members, repeated members and layout, unless the two payloads
  are a collision of SHA-256.
\<close>

theorem one_digest_one_call:
  assumes "Canonical_Digest t a = Inr d" and "Canonical_Digest s b = Inr d"
  shows "\<exists>v u. input_value a = Inr v \<and> input_value b = Inr u \<and> ((t = s \<and> v = u) \<or> collide (call_payload t v) (call_payload s u))"
  using assms by (rule digest_binds)

definition demo_text :: "string \<Rightarrow> bytes" where
  "demo_text sep = ''{'' @ sep @ render_string ''a'' @ '':1}''"

theorem one_digest_one_call_witness:
  "\<exists>v u. input_value (demo_text '''') = Inr v \<and> input_value (demo_text '' '') = Inr u \<and>
     ((''t'' = ''t'' \<and> v = u) \<or> collide (call_payload ''t'' v) (call_payload ''t'' u))"
proof -
  have v: "input_value (demo_text '''') = Inr (JObj [(''a'', JNum ''1'')])"
      "input_value (demo_text '' '') = Inr (JObj [(''a'', JNum ''1'')])" by code_simp+
  then have "Canonical_Digest ''t'' (demo_text '''') = Inr (sha256 (call_payload ''t'' (JObj [(''a'', JNum ''1'')])))"
      "Canonical_Digest ''t'' (demo_text '' '') = Inr (sha256 (call_payload ''t'' (JObj [(''a'', JNum ''1'')])))"
    by (simp_all add: Canonical_Digest_value)
  then show ?thesis by (rule one_digest_one_call)
qed

text \<open>
  the digest does not see how an input is laid out: two texts whose first values are objects
  with the same members, in any order and with any spacing, have one digest. What follows the first
  value is not seen at all.
\<close>

theorem digest_ignores_layout:
  assumes "json_Decode a = Inr (JObj fs)" and "json_Decode b = Inr (JObj gs)"
    and "map_of (rev fs) = map_of (rev gs)"
  shows "Canonical_Digest t a = Canonical_Digest t b"
proof -
  have "a \<noteq> ''''" "b \<noteq> ''''" using assms(1,2) by (auto simp: json_Decode_def)
  with assms(1,2) canon_same_members [OF assms(3)] show ?thesis by (simp add: Canonical_Digest_value input_value_def)
qed

theorem digest_ignores_layout_witness:
  "Canonical_Digest ''t'' (demo_text '''') = Canonical_Digest ''t'' (demo_text '' '' @ '' or anything'')"
proof -
  have "json_Decode (demo_text '''') = Inr (JObj [(''a'', JNum ''1'')])"
      "json_Decode (demo_text '' '' @ '' or anything'') = Inr (JObj [(''a'', JNum ''1'')])" by code_simp+
  then show ?thesis by (rule digest_ignores_layout) simp
qed

end
