(* ===== verification/Tool_Pipeline.thy ===== *)
theory Tool_Pipeline
  imports Tool_Identity
begin

text \<open>
  The tool pipeline (\<^verbatim>\<open>internal/tools\<close>): from a tool use to its result through resolution,
  admission, validation, the tool's own gate, hooks, the permission chain, the write-ahead claim,
  the call, the hooks after it and the result budget; the resumption of an approved call; the
  taint operations; and the adapter that makes it the kernel's executor
  (\<^verbatim>\<open>internal/tools/kerneladapter\<close>). Invocations are taken one at a time. \<open>Calls\<close> is a ghost list of
  the tool calls made and \<open>Folds\<close> one of the taint the called tools folded into sessions while they
  ran. The claim store is a component of the state with its contract
  \<open>claims_port\<close>; tools, hook handlers, files and clocks act on an abstract world, and a tool's call
  also on the pipeline through its taint operations.
\<close>

section \<open>State and configuration\<close>

record invocation =
  InvTenant :: uuid
  InvSession :: uuid
  InvToolName :: string
  InvInput :: bytes
  InvAutonomy :: string

record execute_result =
  XOutput :: bytes
  XIsError :: bool
  XReason :: string
  XPermissionDenied :: bool
  XAwaitingApproval :: bool
  XAskKind :: string
  XApprovalMismatch :: bool
  XCanonicalDigest :: bytes
  XEffectClass :: string
  XAwaitingDelegation :: bool
  XChildSessionID :: uuid
  XTaintChanged :: bool
  XTaintEngaged :: legs

definition zero_result :: execute_result where
  "zero_result = \<lparr>XOutput = '''', XIsError = False, XReason = '''', XPermissionDenied = False, XAwaitingApproval = False,
     XAskKind = '''', XApprovalMismatch = False, XCanonicalDigest = '''', XEffectClass = '''', XAwaitingDelegation = False,
     XChildSessionID = 0, XTaintChanged = False, XTaintEngaged = (False, False, False)\<rparr>"

definition errorResult :: "string \<Rightarrow> execute_result" where
  "errorResult reason = zero_result\<lparr>XIsError := True, XReason := reason\<rparr>"

text \<open>\<^verbatim>\<open>ClaimOutcome\<close> is an integer type; a value outside the three constants has no case of its own.\<close>

datatype claim_outcome = ClaimFresh | ClaimAmbiguous | ClaimDone | ClaimOutcomeOther int

record 'c claims =
  Claims_Open :: "uuid \<Rightarrow> uuid \<Rightarrow> string \<Rightarrow> bytes \<Rightarrow> 'c \<Rightarrow> (err + uuid \<times> claim_outcome) \<times> 'c"
  Claims_Complete :: "uuid \<Rightarrow> uuid \<Rightarrow> uuid \<Rightarrow> bool \<Rightarrow> string \<Rightarrow> 'c \<Rightarrow> err option \<times> 'c"

text \<open>
  The configuration. The last fields are what the code uses of the clock, of \<^verbatim>\<open>os\<close> and of the
  package \<^verbatim>\<open>uuid\<close>; the safety layer reads the clock before and after its model leg.
\<close>

record ('w, 'c) pipeline_config =
  PManifest :: manifest
  HookConfigs :: "hook_config list"
  BlobDir :: string
  DerivedArtifacts :: "(uuid \<Rightarrow> uuid \<Rightarrow> string \<Rightarrow> string \<Rightarrow> 'w \<Rightarrow> err option \<times> 'w) option"
  WorkspaceRoot :: string
  SandboxFactory :: "(uuid \<Rightarrow> 'w sandbox_exec) option"
  PClaims :: "'c claims option"
  Dynamic :: "(uuid \<Rightarrow> uuid \<Rightarrow> tool_ref \<Rightarrow> 'w \<Rightarrow> (err + 'w tool option) \<times> 'w) option"
  HookEnv :: "'w hooks_env"
  SafetyNow :: "'w \<Rightarrow> timestamp"
  SafetyLater :: "'w \<Rightarrow> timestamp"
  MkdirAll :: "string \<Rightarrow> 'w \<Rightarrow> err option \<times> 'w"
  WriteFile :: "string \<Rightarrow> bytes \<Rightarrow> 'w \<Rightarrow> err option \<times> 'w"
  NewUUID :: "'w \<Rightarrow> uuid \<times> 'w"
  UuidString :: "uuid \<Rightarrow> string"

record session_state =
  s_autonomy :: autonomy
  taintState :: taint_state

record tool_call =
  TcSession :: uuid
  TcTool :: string
  TcInput :: bytes
  TcDigest :: bytes
  TcEffect :: effect_class

record ('w, 'c) pipeline =
  PWorld :: 'w
  PClaimStore :: 'c
  PRegistry :: "'w registry"
  PChain :: chain
  PHooks :: "'w dispatcher option"
  Sessions :: "uuid \<rightharpoonup> session_state"
  Calls :: "tool_call list"
  Folds :: "(uuid \<times> legs) list"

definition NewPipeline :: "'w \<Rightarrow> 'c \<Rightarrow> 'w registry \<Rightarrow> chain \<Rightarrow> 'w dispatcher option \<Rightarrow> ('w, 'c) pipeline" where
  "NewPipeline w c reg ch hs =
     \<lparr>PWorld = w, PClaimStore = c, PRegistry = reg, PChain = ch, PHooks = hs, Sessions = Map.empty, Calls = [], Folds = []\<rparr>"

section \<open>Sessions\<close>

definition stateFor :: "uuid \<Rightarrow> string \<Rightarrow> ('w, 'c) pipeline \<Rightarrow> session_state \<times> ('w, 'c) pipeline" where
  "stateFor sessionID autonomyLevel p =
     (case Sessions p sessionID of
        Some s \<Rightarrow> (s, p)
      | None \<Rightarrow>
          (let lvl = (case ParseAutonomyLevel autonomyLevel of (l, None) \<Rightarrow> l | (l, Some er) \<Rightarrow> AutonomyReadOnly);
               s = \<lparr>s_autonomy = Pin lvl, taintState = clean_taint\<rparr> in
           (s, p\<lparr>Sessions := (Sessions p)(sessionID \<mapsto> s)\<rparr>)))"

definition legs_of :: "taint_state \<Rightarrow> legs" where
  "legs_of t = (EngagedUntrusted t, EngagedPrivate t, EngagedExternal t)"

definition TaintStateFor :: "uuid \<Rightarrow> ('w, 'c) pipeline \<Rightarrow> legs \<times> ('w, 'c) pipeline" where
  "TaintStateFor sessionID p =
     (case stateFor sessionID '''' p of (s, p1) \<Rightarrow> (legs_of (taintState s), p1))"

definition fold_legs :: "legs \<Rightarrow> taint_state \<Rightarrow> taint_state" where
  "fold_legs e t =
     (case e of (u, v, x) \<Rightarrow>
        \<lparr>EngagedUntrusted = (if u then True else EngagedUntrusted t),
         EngagedPrivate = (if v then True else EngagedPrivate t),
         EngagedExternal = (if x then True else EngagedExternal t)\<rparr>)"

definition SeedTaint :: "uuid \<Rightarrow> string \<Rightarrow> legs \<Rightarrow> ('w, 'c) pipeline \<Rightarrow> ('w, 'c) pipeline" where
  "SeedTaint sessionID autonomyLevel engaged p =
     (case stateFor sessionID autonomyLevel p of (s, p1) \<Rightarrow>
        p1\<lparr>Sessions := (Sessions p1)(sessionID \<mapsto> s\<lparr>taintState := fold_legs engaged (taintState s)\<rparr>)\<rparr>)"

definition FoldTaint :: "uuid \<Rightarrow> legs \<Rightarrow> ('w, 'c) pipeline \<Rightarrow> ('w, 'c) pipeline" where
  "FoldTaint sessionID engaged p =
     (case stateFor sessionID '''' p of (s, p1) \<Rightarrow>
        p1\<lparr>Sessions := (Sessions p1)(sessionID \<mapsto> s\<lparr>taintState := fold_legs engaged (taintState s)\<rparr>)\<rparr>)"

definition pipeline_ResetTurn :: "('w, 'c) pipeline \<Rightarrow> ('w, 'c) pipeline" where
  "pipeline_ResetTurn p = p\<lparr>PHooks := map_option hooks_ResetTurn (PHooks p)\<rparr>"

section \<open>Results\<close>

definition joinReason :: "string \<Rightarrow> string \<Rightarrow> string" where
  "joinReason existing addition = (if existing = '''' then addition else existing @ ''; '' @ addition)"

definition decision_str :: "decision_word \<Rightarrow> string" where
  "decision_str d = (case d of Allow \<Rightarrow> ''allow'' | Ask \<Rightarrow> ''ask'' | Deny \<Rightarrow> ''deny'' | Defer \<Rightarrow> ''defer'' | OtherDecision s \<Rightarrow> s)"

definition toLayerOutcome :: "decision_word \<Rightarrow> string \<Rightarrow> err + layer_outcome" where
  "toLayerOutcome d reason =
     (case d of
        Allow \<Rightarrow> Inl (Err (''a precomputed layer resolved Allow ('' @ quoted reason @ ''), which is never valid''))
      | OtherDecision s \<Rightarrow> Inl (Err (''unrecognized decision '' @ quoted s))
      | _ \<Rightarrow> Inr (outcome d reason))"

definition note_fold :: "uuid \<Rightarrow> legs \<Rightarrow> ('w, 'c) pipeline \<Rightarrow> ('w, 'c) pipeline" where
  "note_fold sessionID engaged p = p\<lparr>Folds := Folds p @ [(sessionID, engaged)]\<rparr>"

text \<open>The run of a call, with the pipeline answering its taint operations.\<close>

primrec run_call :: "'w tool_run \<Rightarrow> ('w, 'c) pipeline \<Rightarrow> call_outcome \<times> ('w, 'c) pipeline" where
  "run_call (ToolDone out w) p = (out, p\<lparr>PWorld := w\<rparr>)"
| "run_call (AskTaint sid k) p = run_call (k (fst (TaintStateFor sid p))) (snd (TaintStateFor sid p))"
| "run_call (FoldInto sid e k) p = run_call k (note_fold sid e (FoldTaint sid e p))"
| "run_call (SeedInto sid lvl e k) p = run_call k (note_fold sid e (SeedTaint sid lvl e p))"

definition safeCall ::
    "'w tool \<Rightarrow> bytes \<Rightarrow> 'w run_context \<Rightarrow> ('w, 'c) pipeline \<Rightarrow> (call_result \<times> err option) \<times> ('w, 'c) pipeline" where
  "safeCall t inp rc p =
     (case run_call (ToolCall t inp rc (PWorld p)) p of
        (Returned r er, p1) \<Rightarrow> ((r, er), p1)
      | (Panicked v, p1) \<Rightarrow> ((no_call_result, Some (Err (''tool panicked: '' @ v))), p1))"

definition maxResultTokens :: nat where "maxResultTokens = 25000"
definition maxResultBytes :: nat where "maxResultBytes = maxResultTokens * 4"

definition sanitizeForFilename :: "string \<Rightarrow> string" where
  "sanitizeForFilename s = map (\<lambda>c. if c \<in> set ''/@:'' then CHR ''_'' else c) s"

definition Spill :: "('w, 'c) pipeline_config \<Rightarrow> uuid \<Rightarrow> string \<Rightarrow> bytes \<Rightarrow> 'w \<Rightarrow> (err + string) \<times> 'w" where
  "Spill cf sessionID toolID content w =
     (case MkdirAll cf (BlobDir cf) w of
        (Some er, w1) \<Rightarrow> (Inl (Wrapped ''create blob dir'' er), w1)
      | (None, w1) \<Rightarrow>
          (case NewUUID cf w1 of (u, w2) \<Rightarrow>
             (let name = UuidString cf sessionID @ ''-'' @ sanitizeForFilename toolID @ ''-'' @ UuidString cf u @ ''.blob'';
                  path = filepath_Join (BlobDir cf) name in
              case WriteFile cf path content w2 of
                (Some er, w3) \<Rightarrow> (Inl (Wrapped (''write blob '' @ path) er), w3)
              | (None, w3) \<Rightarrow> (Inr path, w3))))"

text \<open>
  A preview may be cut inside a character: \<^verbatim>\<open>json.Marshal\<close> writes the replacement escape for every
  byte that is not part of a well-formed UTF-8 sequence.
\<close>

definition cont :: "char list \<Rightarrow> bool" where
  "cont cs \<longleftrightarrow> list_all (\<lambda>c. 0x80 \<le> code c \<and> code c \<le> 0xBF) cs"

definition utf8_width :: "string \<Rightarrow> nat" where
  "utf8_width s =
     (case map code (take 2 s) of
        [] \<Rightarrow> 0
      | [a] \<Rightarrow> if a < 0x80 then 1 else 0
      | a # b # _ \<Rightarrow>
          if a < 0x80 then 1
          else if 0xC2 \<le> a \<and> a \<le> 0xDF \<and> cont (take 1 (drop 1 s)) then 2
          else if 0xE0 \<le> a \<and> a \<le> 0xEF \<and> length s \<ge> 3 \<and> cont (take 2 (drop 1 s))
                  \<and> (a = 0xE0 \<longrightarrow> 0xA0 \<le> b) \<and> (a = 0xED \<longrightarrow> b \<le> 0x9F) then 3
          else if 0xF0 \<le> a \<and> a \<le> 0xF4 \<and> length s \<ge> 4 \<and> cont (take 3 (drop 1 s))
                  \<and> (a = 0xF0 \<longrightarrow> 0x90 \<le> b) \<and> (a = 0xF4 \<longrightarrow> b \<le> 0x8F) then 4
          else 0)"

function marshal_chars :: "string \<Rightarrow> string" where
  "marshal_chars [] = []"
| "marshal_chars (c # cs) =
     (let n = utf8_width (c # cs) in
      if n = 0 then [CHR 92] @ ''ufffd'' @ marshal_chars cs
      else escape (take n (c # cs)) @ marshal_chars (drop (n - 1) cs))"
  by pat_completeness auto
termination by (relation "measure length") auto

definition marshal_string :: "string \<Rightarrow> string" where
  "marshal_string s = [CHR 34] @ marshal_chars s @ [CHR 34]"

definition budgetedResult :: "string \<Rightarrow> string \<Rightarrow> bytes" where
  "budgetedResult preview path =
     ''{'' @ render_string ''preview'' @ '':'' @ marshal_string preview @ '','' @ render_string ''full_result_path'' @ '':''
       @ marshal_string path @ '','' @ render_string ''truncated'' @ '':true}''"

definition preview_text :: "bytes \<Rightarrow> string \<Rightarrow> string" where
  "preview_text outp path =
     take maxResultBytes outp @ [CHR 10, CHR 10] @ ''[preview truncated at ~'' @ dec_nat maxResultTokens
       @ '' tokens; full result spilled to '' @ path @ '' '' @ em_dash @ '' do not infer success from the preview]''"

definition BudgetResult ::
    "('w, 'c) pipeline_config \<Rightarrow> uuid \<Rightarrow> uuid \<Rightarrow> string \<Rightarrow> bytes \<Rightarrow> 'w \<Rightarrow> (err + bytes) \<times> 'w" where
  "BudgetResult cf tenantID sessionID toolID outp w =
     (if length outp \<le> maxResultBytes then (Inr outp, w)
      else
        (case Spill cf sessionID toolID outp w of
           (Inl er, w1) \<Rightarrow> (Inl (Wrapped ''tools: spill oversized result'' er), w1)
         | (Inr path, w1) \<Rightarrow>
             (case (case DerivedArtifacts cf of None \<Rightarrow> (None, w1) | Some recorder \<Rightarrow> recorder tenantID sessionID ''blob'' path w1) of
                (Some er, w2) \<Rightarrow> (Inl (Wrapped (''tools: record derived artifact '' @ path) er), w2)
              | (None, w2) \<Rightarrow> (Inr (budgetedResult (preview_text outp path) path), w2))))"

section \<open>The path of an invocation\<close>

definition resolveTool ::
    "('w, 'c) pipeline_config \<Rightarrow> uuid \<Rightarrow> uuid \<Rightarrow> tool_ref \<Rightarrow> ('w, 'c) pipeline
      \<Rightarrow> (execute_result + 'w tool \<times> descriptor \<times> bool) \<times> ('w, 'c) pipeline" where
  "resolveTool cf tenantID sessionID ref p =
     (case manifest_Resolve (PManifest cf) ref of
        Some pinned \<Rightarrow>
          (case reg_Lookup (PRegistry p) ref of
             None \<Rightarrow> (Inl (errorResult (''unknown_tool: '' @ quoted (ref_String ref)
                       @ '' is pinned in the manifest but not registered in this process'')), p)
           | Some t \<Rightarrow>
               (let d = Descriptor t (PWorld p) in
                if descriptorDigest d \<noteq> DescriptorDigest pinned
                then (Inl (errorResult (''descriptor_drift: '' @ quoted (ref_String ref)
                         @ '' no longer matches the digest pinned at session start'')), p)
                else (Inr (t, d, False), p)))
      | None \<Rightarrow>
          (let unknown = errorResult (''unknown_tool: '' @ quoted (ref_String ref)
                 @ '' is not in this session's pinned catalog manifest'') in
           case Dynamic cf of
             None \<Rightarrow> (Inl unknown, p)
           | Some resolve \<Rightarrow>
               (case resolve tenantID sessionID ref (PWorld p) of
                  (Inl er, w) \<Rightarrow> (Inl (errorResult (''dynamic_resolve_error: '' @ err_msg er)), p\<lparr>PWorld := w\<rparr>)
                | (Inr (Some t), w) \<Rightarrow> (Inr (t, Descriptor t w, True), p\<lparr>PWorld := w\<rparr>)
                | (Inr None, w) \<Rightarrow> (Inl unknown, p\<lparr>PWorld := w\<rparr>))))"

text \<open>What steps one to five hand on; \<^verbatim>\<open>Execute\<close> and \<^verbatim>\<open>ExecuteApproved\<close> begin with the same ones.\<close>

record 'w prepared =
  PrRef :: tool_ref
  PrTool :: "'w tool"
  PrDescriptor :: descriptor
  PrepInput :: bytes
  PrRc :: "'w run_context"
  PrDigest :: bytes

definition run_context_for :: "('w, 'c) pipeline_config \<Rightarrow> invocation \<Rightarrow> 'w run_context" where
  "run_context_for cf iv =
     \<lparr>RcTenant = InvTenant iv, RcSession = InvSession iv,
      WorkspaceDir = (if WorkspaceRoot cf \<noteq> '''' then filepath_Join (WorkspaceRoot cf) (UuidString cf (InvSession iv)) else ''''),
      RcSandbox = map_option (\<lambda>factory. factory (InvSession iv)) (SandboxFactory cf)\<rparr>"

definition checked_call ::
    "('w, 'c) pipeline_config \<Rightarrow> invocation \<Rightarrow> tool_ref \<Rightarrow> 'w tool \<Rightarrow> descriptor \<Rightarrow> ('w, 'c) pipeline
      \<Rightarrow> (execute_result + 'w prepared) \<times> ('w, 'c) pipeline" where
  "checked_call cf iv ref t d p =
     (let inp = (if InvInput iv = '''' then ''{}'' else InvInput iv);
          rc = run_context_for cf iv in
      case ValidateInput t inp rc (PWorld p) of
        (Some er, w) \<Rightarrow> (Inl (errorResult (''invalid_input: '' @ err_msg er)), p\<lparr>PWorld := w\<rparr>)
      | (None, w) \<Rightarrow>
          (case Canonical_Digest (ref_String ref) inp of
             Inl er \<Rightarrow> (Inl (errorResult (''digest_error: '' @ err_msg er)), p\<lparr>PWorld := w\<rparr>)
           | Inr dg \<Rightarrow>
               (Inr \<lparr>PrRef = ref, PrTool = t, PrDescriptor = d, PrepInput = inp, PrRc = rc, PrDigest = dg\<rparr>,
                p\<lparr>PWorld := w\<rparr>)))"

definition prepare ::
    "('w, 'c) pipeline_config \<Rightarrow> invocation \<Rightarrow> ('w, 'c) pipeline
      \<Rightarrow> (execute_result + 'w prepared) \<times> ('w, 'c) pipeline" where
  "prepare cf iv p =
     (case ParseToolRef (InvToolName iv) of
        Inl er \<Rightarrow> (Inl (errorResult (''unknown_tool: '' @ err_msg er)), p)
      | Inr ref \<Rightarrow>
          (case resolveTool cf (InvTenant iv) (InvSession iv) ref p of
             (Inl r, p1) \<Rightarrow> (Inl r, p1)
           | (Inr (t, d, dynamic), p1) \<Rightarrow>
               (let status = AdmissionStatus (PRegistry p1) ref in
                if \<not> dynamic \<and> status \<noteq> AdmissionClean
                then (Inl (errorResult (''admission_'' @ admission_str status @ '': '' @ quoted (ref_String ref)
                         @ '' is not admitted clean'')), p1)
                else checked_call cf iv ref t d p1)))"

definition hook_context_for :: "tool_ref \<Rightarrow> descriptor \<Rightarrow> bytes \<Rightarrow> hook_context" where
  "hook_context_for ref d inp =
     \<lparr>CtxToolID = ref_String ref, CtxNamespace = RefNamespace ref, CtxEffectClass = effect_str (DescEffect d),
      CtxAutonomyLevel = '''', CtxDataLabel = '''', CtxInput = inp\<rparr>"

definition run_hooks ::
    "('w, 'c) pipeline_config \<Rightarrow> hook_event \<Rightarrow> hook_context \<Rightarrow> ('w, 'c) pipeline \<Rightarrow> hook_outcome \<times> ('w, 'c) pipeline" where
  "run_hooks cf event hctx p =
     (case PHooks p of
        None \<Rightarrow> (no_hook_outcome, p)
      | Some d \<Rightarrow>
          (case Dispatch (HookEnv cf) event hctx (HookConfigs cf) (d, PWorld p) of
             (out, (d1, w)) \<Rightarrow> (out, p\<lparr>PHooks := Some d1, PWorld := w\<rparr>)))"

text \<open>Step 13: the claim, opened for every effect that is not read-only; its id, or the refusal.\<close>

definition open_claim ::
    "('w, 'c) pipeline_config \<Rightarrow> invocation \<Rightarrow> 'w prepared \<Rightarrow> ('w, 'c) pipeline
      \<Rightarrow> (execute_result + uuid) \<times> ('w, 'c) pipeline" where
  "open_claim cf iv r p =
     (case PClaims cf of
        None \<Rightarrow> (Inr 0, p)
      | Some cs \<Rightarrow>
          if DescEffect (PrDescriptor r) = EffectReadOnly then (Inr 0, p)
          else
            (case Claims_Open cs (InvTenant iv) (InvSession iv) (ref_String (PrRef r)) (PrDigest r) (PClaimStore p) of
               (Inl er, c) \<Rightarrow> (Inl (errorResult (''claim_error: '' @ err_msg er)), p\<lparr>PClaimStore := c\<rparr>)
             | (Inr (cid, ClaimAmbiguous), c) \<Rightarrow>
                 (Inl (errorResult (''effect_claim_in_flight: an earlier attempt at this exact call ('' @ UuidString cf cid
                    @ '') is unresolved and must be resolved '' @ em_dash @ '' probe or human, never re-executed '' @ em_dash
                    @ '' before this can run again'')), p\<lparr>PClaimStore := c\<rparr>)
             | (Inr (cid, ClaimDone), c) \<Rightarrow>
                 (Inl (errorResult (''effect_claim_already_completed: this exact call already ran once (claim ''
                    @ UuidString cf cid @ ''); not re-executed'')), p\<lparr>PClaimStore := c\<rparr>)
             | (Inr (cid, ClaimFresh), c) \<Rightarrow> (Inr cid, p\<lparr>PClaimStore := c\<rparr>)
             | (Inr (cid, ClaimOutcomeOther n), c) \<Rightarrow> (Inr 0, p\<lparr>PClaimStore := c\<rparr>)))"

definition complete_claim ::
    "('w, 'c) pipeline_config \<Rightarrow> invocation \<Rightarrow> 'w prepared \<Rightarrow> uuid \<Rightarrow> call_result \<Rightarrow> err option
      \<Rightarrow> ('w, 'c) pipeline \<Rightarrow> ('w, 'c) pipeline" where
  "complete_claim cf iv r cid out callErr p =
     (case PClaims cf of
        None \<Rightarrow> p
      | Some cs \<Rightarrow>
          if DescEffect (PrDescriptor r) = EffectReadOnly \<or> cid = 0 then p
          else
            (let failed = (callErr \<noteq> None \<or> CallIsError out);
                 reason = (case callErr of Some er \<Rightarrow> err_msg er | None \<Rightarrow> CallReason out) in
             p\<lparr>PClaimStore := snd (Claims_Complete cs (InvTenant iv) (InvSession iv) cid failed reason (PClaimStore p))\<rparr>))"

text \<open>Steps 14 to 16, once the call has returned a result of its own.\<close>

definition deliver ::
    "('w, 'c) pipeline_config \<Rightarrow> invocation \<Rightarrow> 'w prepared \<Rightarrow> call_result \<Rightarrow> ('w, 'c) pipeline
      \<Rightarrow> execute_result \<times> ('w, 'c) pipeline" where
  "deliver cf iv r out p =
     (case run_hooks cf PostToolUse (hook_context_for (PrRef r) (PrDescriptor r) (PrepInput r)) p of (post, p1) \<Rightarrow>
        if HDecision post = Deny
        then (zero_result\<lparr>XIsError := True, XReason := ''result withheld by a post_tool_use hook: '' @ HReason post\<rparr>, p1)
        else
          (let reason = (if HDecision post = Ask
                         then joinReason (CallReason out) (''flagged for review by a post_tool_use hook: '' @ HReason post)
                         else CallReason out) in
           case BudgetResult cf (InvTenant iv) (InvSession iv) (ref_String (PrRef r)) (CallOutput out) (PWorld p1) of
             (Inl er, w) \<Rightarrow> (errorResult (''result_budget_error: '' @ err_msg er), p1\<lparr>PWorld := w\<rparr>)
           | (Inr budgeted, w) \<Rightarrow>
               (zero_result\<lparr>XOutput := budgeted, XIsError := CallIsError out, XReason := reason\<rparr>, p1\<lparr>PWorld := w\<rparr>)))"

definition note_tool_call :: "invocation \<Rightarrow> 'w prepared \<Rightarrow> ('w, 'c) pipeline \<Rightarrow> ('w, 'c) pipeline" where
  "note_tool_call iv r p =
     p\<lparr>Calls := Calls p @ [\<lparr>TcSession = InvSession iv, TcTool = ref_String (PrRef r), TcInput = PrepInput r,
        TcDigest = PrDigest r, TcEffect = DescEffect (PrDescriptor r)\<rparr>]\<rparr>"

definition finishCall ::
    "('w, 'c) pipeline_config \<Rightarrow> invocation \<Rightarrow> 'w prepared \<Rightarrow> ('w, 'c) pipeline \<Rightarrow> execute_result \<times> ('w, 'c) pipeline" where
  "finishCall cf iv r p =
     (case open_claim cf iv r p of
        (Inl x, p1) \<Rightarrow> (x, p1)
      | (Inr cid, p1) \<Rightarrow>
          (case safeCall (PrTool r) (PrepInput r) (PrRc r) p1 of ((out, callErr), pc) \<Rightarrow>
             (let p2 = complete_claim cf iv r cid out callErr (note_tool_call iv r pc) in
              case callErr of
                Some er \<Rightarrow> (errorResult (''tool_error: '' @ err_msg er), p2)
              | None \<Rightarrow>
                  (case AwaitingChild out of
                     Some child \<Rightarrow>
                       (zero_result\<lparr>XAwaitingDelegation := True, XChildSessionID := child,
                          XEffectClass := effect_str (DescEffect (PrDescriptor r))\<rparr>, p2)
                   | None \<Rightarrow> deliver cf iv r out p2))))"

text \<open>Steps 6 to 8: the tool's own gate, the hooks before the call, and the digest bound again.\<close>

definition gates ::
    "('w, 'c) pipeline_config \<Rightarrow> 'w prepared \<Rightarrow> ('w, 'c) pipeline
      \<Rightarrow> (execute_result + layer_outcome \<times> layer_outcome \<times> 'w prepared) \<times> ('w, 'c) pipeline" where
  "gates cf r p =
     (case CheckPermissions (PrTool r) (PrepInput r) (PrRc r) (PWorld p) of (perm, w) \<Rightarrow>
        (let p1 = p\<lparr>PWorld := w\<rparr> in
         case toLayerOutcome (to_decision (PermDecision perm)) (PermReason perm) of
           Inl er \<Rightarrow> (Inl (errorResult (''gate2_error: '' @ err_msg er)), p1)
         | Inr gate2 \<Rightarrow>
             (case run_hooks cf PreToolUse (hook_context_for (PrRef r) (PrDescriptor r) (PrepInput r)) p1 of (hookOut, p2) \<Rightarrow>
                (case toLayerOutcome (HDecision hookOut) (HReason hookOut) of
                   Inl er \<Rightarrow> (Inl (errorResult (''hook_error: '' @ err_msg er)), p2)
                 | Inr ho \<Rightarrow>
                     (case UpdatedInput hookOut of
                        None \<Rightarrow> (Inr (gate2, ho, r), p2)
                      | Some inp \<Rightarrow>
                          (case Canonical_Digest (ref_String (PrRef r)) inp of
                             Inl er \<Rightarrow> (Inl (errorResult (''digest_error: '' @ err_msg er)), p2)
                           | Inr dg \<Rightarrow> (Inr (gate2, ho, r\<lparr>PrepInput := inp, PrDigest := dg\<rparr>), p2)))))))"

definition request_for :: "'w prepared \<Rightarrow> layer_outcome \<Rightarrow> layer_outcome \<Rightarrow> session_state \<Rightarrow> 'w \<Rightarrow> chain_request" where
  "request_for r gate2 ho s w =
     \<lparr>ReqToolID = ref_String (PrRef r), ReqNamespace = RefNamespace (PrRef r), ReqEffect = DescEffect (PrDescriptor r),
      ReqTaint = ToolTaint (PrTool r) w, ReqInput = PrepInput r, ReqAutonomy = Some (s_autonomy s), HookOutcome = ho,
      Gate2 = gate2, ReqTaintState = taintState s\<rparr>"

text \<open>Step 9: the chain, under the session's taint lock.\<close>

definition ask_chain ::
    "('w, 'c) pipeline_config \<Rightarrow> invocation \<Rightarrow> 'w prepared \<Rightarrow> layer_outcome \<Rightarrow> layer_outcome \<Rightarrow> ('w, 'c) pipeline
      \<Rightarrow> (execute_result + resolution \<times> bool \<times> legs) \<times> ('w, 'c) pipeline" where
  "ask_chain cf iv r gate2 ho p =
     (case stateFor (InvSession iv) (InvAutonomy iv) p of (s, p1) \<Rightarrow>
        (case Permissions.Resolve (PChain p1) (SafetyNow cf (PWorld p1)) (SafetyLater cf (PWorld p1))
                (request_for r gate2 ho s (PWorld p1)) of
           ((res, Some er), c) \<Rightarrow> (Inl (errorResult (''permission_chain_error: '' @ err_msg er)), p1\<lparr>PChain := c\<rparr>)
         | ((res, None), c) \<Rightarrow>
             (Inr (Res res, legs_of (taintState s) \<noteq> legs_of (ResTaint res), legs_of (ResTaint res)),
              p1\<lparr>PChain := c, Sessions := (Sessions p1)(InvSession iv \<mapsto> s\<lparr>taintState := ResTaint res\<rparr>)\<rparr>)))"

text \<open>Steps 10 to 16. A decision that is none of the four words has no case and runs on.\<close>

definition decide ::
    "('w, 'c) pipeline_config \<Rightarrow> invocation \<Rightarrow> 'w prepared \<Rightarrow> resolution \<Rightarrow> bool \<Rightarrow> legs \<Rightarrow> ('w, 'c) pipeline
      \<Rightarrow> execute_result \<times> ('w, 'c) pipeline" where
  "decide cf iv r res changed engaged p =
     (case RDecision res of
        Deny \<Rightarrow>
          (zero_result\<lparr>XIsError := True, XReason := ''denied at layer '' @ layer_String (RLayer res) @ '': '' @ RReason res,
             XPermissionDenied := True, XTaintChanged := changed, XTaintEngaged := engaged\<rparr>, p)
      | Ask \<Rightarrow>
          (zero_result\<lparr>XIsError := True,
             XReason := ''approval required at layer '' @ layer_String (RLayer res) @ '': '' @ RReason res,
             XAwaitingApproval := True, XAskKind := ask_kind_str (RAskKind res), XCanonicalDigest := PrDigest r,
             XEffectClass := effect_str (DescEffect (PrDescriptor r)), XTaintChanged := changed, XTaintEngaged := engaged\<rparr>, p)
      | Defer \<Rightarrow>
          (errorResult (''permission_chain_bug: Resolve returned a non-final Defer at layer '' @ layer_String (RLayer res)), p)
      | _ \<Rightarrow>
          (case finishCall cf iv r p of (out, p1) \<Rightarrow>
             (out\<lparr>XTaintChanged := changed, XTaintEngaged := engaged\<rparr>, p1)))"

definition Execute ::
    "('w, 'c) pipeline_config \<Rightarrow> invocation \<Rightarrow> ('w, 'c) pipeline \<Rightarrow> execute_result \<times> ('w, 'c) pipeline" where
  "Execute cf iv p =
     (case prepare cf iv p of
        (Inl x, p1) \<Rightarrow> (x, p1)
      | (Inr r, p1) \<Rightarrow>
          (case gates cf r p1 of
             (Inl x, p2) \<Rightarrow> (x, p2)
           | (Inr (gate2, ho, r2), p2) \<Rightarrow>
               (case ask_chain cf iv r2 gate2 ho p2 of
                  (Inl x, p3) \<Rightarrow> (x, p3)
                | (Inr (res, changed, engaged), p3) \<Rightarrow> decide cf iv r2 res changed engaged p3)))"

definition ExecuteApproved ::
    "('w, 'c) pipeline_config \<Rightarrow> invocation \<Rightarrow> bytes \<Rightarrow> ('w, 'c) pipeline \<Rightarrow> execute_result \<times> ('w, 'c) pipeline" where
  "ExecuteApproved cf iv approvedDigest p =
     (case prepare cf iv p of
        (Inl x, p1) \<Rightarrow> (x, p1)
      | (Inr r, p1) \<Rightarrow>
          if PrDigest r \<noteq> approvedDigest
          then (zero_result\<lparr>XIsError := True, XApprovalMismatch := True,
                  XReason := ''approval_mismatch: the input being executed for '' @ quoted (ref_String (PrRef r))
                    @ '' no longer matches what was approved''\<rparr>, p1)
          else finishCall cf iv r (snd (stateFor (InvSession iv) (InvAutonomy iv) p1)))"

section \<open>The kernel's executor\<close>

definition invocation_of :: "tool_use_request \<Rightarrow> exec_context \<Rightarrow> invocation" where
  "invocation_of req rc =
     \<lparr>InvTenant = EcTenant rc, InvSession = EcSession rc, InvToolName = TuName req, InvInput = TuInput req,
      InvAutonomy = EcAutonomyLevel rc\<rparr>"

definition tool_result_of :: "execute_result \<Rightarrow> tool_result" where
  "tool_result_of x =
     \<lparr>Output = XOutput x, IsError = XIsError x, TrReason = XReason x, Synthetic = False,
      PermissionDenied = XPermissionDenied x, AwaitingApproval = XAwaitingApproval x, AskKind = XAskKind x,
      CanonicalDigest = XCanonicalDigest x, ApprovalMismatch = XApprovalMismatch x, EffectClass = XEffectClass x,
      AwaitingDelegation = XAwaitingDelegation x, ChildSessionID = XChildSessionID x, TaintChanged = XTaintChanged x,
      TaintEngaged = XTaintEngaged x\<rparr>"

definition executor_Execute ::
    "('w, 'c) pipeline_config \<Rightarrow> tool_use_request \<Rightarrow> exec_context \<Rightarrow> ('w, 'c) pipeline \<Rightarrow> tool_result \<times> ('w, 'c) pipeline" where
  "executor_Execute cf req rc p = (case Execute cf (invocation_of req rc) p of (x, p1) \<Rightarrow> (tool_result_of x, p1))"

definition executor_ExecuteApproved ::
    "('w, 'c) pipeline_config \<Rightarrow> tool_use_request \<Rightarrow> bytes \<Rightarrow> exec_context \<Rightarrow> ('w, 'c) pipeline
      \<Rightarrow> tool_result \<times> ('w, 'c) pipeline" where
  "executor_ExecuteApproved cf req dg rc p =
     (case ExecuteApproved cf (invocation_of req rc) dg p of (x, p1) \<Rightarrow> (tool_result_of x, p1))"

definition executor_SeedTaint :: "uuid \<Rightarrow> string \<Rightarrow> legs \<Rightarrow> ('w, 'c) pipeline \<Rightarrow> ('w, 'c) pipeline" where
  "executor_SeedTaint = SeedTaint"

definition executor_ResetTurn :: "('w, 'c) pipeline \<Rightarrow> ('w, 'c) pipeline" where
  "executor_ResetTurn = pipeline_ResetTurn"


section \<open>What the chain hands back\<close>

lemma chain_decides:
  assumes "Permissions.Resolve c now later req = ((res, None), c')"
  shows "RDecision (Res res) \<in> {Deny, Ask, Allow}"
  using Resolve_answers [of c req now later] assms
  unfolding walk_by_outcomes [of "layer_outcomes c now later req" acc0]
  by (auto simp: answers_def standing_or_allow_def acc0_def split: option.splits if_splits prod.splits)

text \<open>When the chain does not deny, none of its layers does.\<close>

lemma chain_undenied:
  assumes "Permissions.Resolve c now later req = ((res, None), c')" and "RDecision (Res res) \<noteq> Deny"
  shows "find halts (layer_outcomes c now later req) = None"
proof (rule ccontr)
  assume "find halts (layer_outcomes c now later req) \<noteq> None"
  then show False
    using Resolve_answers [of c req now later] assms
    unfolding walk_by_outcomes [of "layer_outcomes c now later req" acc0]
    by (auto simp: answers_def split: option.splits if_splits)
qed

lemma chain_read_only:
  assumes "Permissions.Resolve c now later req = ((res, None), c')" and "RDecision (Res res) \<noteq> Deny"
    and "ReqAutonomy req = Some a" and "level a = AutonomyReadOnly"
  shows "ReqEffect req = EffectReadOnly"
  using chain_undenied [OF assms(1,2)] assms(3,4)
  by (auto simp: layer_outcomes_def autonomy_outcome_def Autonomy_Resolve_def halts_def outcome_def split: if_splits)

lemma chain_heeds_gates:
  assumes "Permissions.Resolve c now later req = ((res, None), c')" and "RDecision (Res res) \<noteq> Deny"
  shows "LDecision (Gate2 req) \<noteq> Deny \<and> LDecision (HookOutcome req) \<noteq> Deny"
  using chain_undenied [OF assms] by (auto simp: layer_outcomes_def halts_def split: if_splits)

definition engaged_or_same :: "chain_request \<Rightarrow> (chain_result \<times> err option) \<times> chain \<Rightarrow> bool" where
  "engaged_or_same req r \<longleftrightarrow>
     ResTaint (fst (fst r)) \<in> {ReqTaintState req, engage (ReqTaintState req) (ReqTaint req)}"

lemma layer_step_engaged:
  "(\<And>acc'. engaged_or_same req (rest acc')) \<Longrightarrow> ts \<in> {ReqTaintState req, engage (ReqTaintState req) (ReqTaint req)} \<Longrightarrow>
     engaged_or_same req (layer_step l raw ts c acc rest)"
  by (auto simp: engaged_or_same_def layer_step_def split: sum.splits)

lemma chain_engages: "engaged_or_same req (Permissions.Resolve c now later req)"
  unfolding Permissions.Resolve_def Let_def split_beta
  by (intro layer_step_engaged) (simp_all add: engaged_or_same_def ResolveRuleOfTwo_snd)

section \<open>What each step leaves alone\<close>

lemma stateFor_cases:
  assumes "stateFor sid lvl p = (s, p1)"
  shows "\<exists>S. p1 = p\<lparr>Sessions := S\<rparr>" "Sessions p1 sid = Some s" "sid' \<noteq> sid \<Longrightarrow> Sessions p1 sid' = Sessions p sid'"
    "Sessions p sid = Some s0 \<Longrightarrow> s = s0 \<and> p1 = p"
  using assms by (auto simp: stateFor_def Let_def split: option.splits intro: exI [of _ "Sessions p"])

text \<open>What the world and the hooks cannot reach.\<close>

definition core :: "('w, 'c) pipeline \<Rightarrow> 'c \<times> 'w registry \<times> chain \<times> (uuid \<rightharpoonup> session_state) \<times> tool_call list \<times> (uuid \<times> legs) list" where
  "core p = (PClaimStore p, PRegistry p, PChain p, Sessions p, Calls p, Folds p)"

lemma core_simps [simp]:
  "core (p\<lparr>PWorld := w\<rparr>) = core p" "core (p\<lparr>PHooks := hs\<rparr>) = core p"
  by (simp_all add: core_def)

lemma resolveTool_core: "core (snd (resolveTool cf tn sid ref p)) = core p"
  by (simp add: resolveTool_def Let_def split: option.split prod.split sum.split)

lemma checked_call_core: "core (snd (checked_call cf iv ref t d p)) = core p"
  by (simp add: checked_call_def Let_def split: option.split prod.split sum.split)

lemma prepare_core: "core (snd (prepare cf iv p)) = core p"
  using resolveTool_core [of cf "InvTenant iv" "InvSession iv" _ p]
  by (auto simp: prepare_def checked_call_core Let_def split: prod.split sum.split) (metis snd_conv)+

lemma run_hooks_core: "core (snd (run_hooks cf event hctx p)) = core p"
  by (simp add: run_hooks_def split: option.split prod.split)

lemma gates_core: "core (snd (gates cf r p)) = core p"
proof -
  obtain perm w where c: "CheckPermissions (PrTool r) (PrepInput r) (PrRc r) (PWorld p) = (perm, w)" by (rule prod.exhaust)
  obtain out p2 where h: "run_hooks cf PreToolUse (hook_context_for (PrRef r) (PrDescriptor r) (PrepInput r)) (p\<lparr>PWorld := w\<rparr>) = (out, p2)"
    by (rule prod.exhaust)
  then have "core p2 = core p" by (metis core_simps(1) run_hooks_core snd_conv)
  with c h show ?thesis by (simp add: gates_def Let_def split: sum.split option.split)
qed

lemma deliver_core: "core (snd (deliver cf iv r out p)) = core p"
proof -
  obtain post p1 where h: "run_hooks cf PostToolUse (hook_context_for (PrRef r) (PrDescriptor r) (PrepInput r)) p = (post, p1)"
    by (rule prod.exhaust)
  then have "core p1 = core p" by (metis run_hooks_core snd_conv)
  with h show ?thesis by (simp add: deliver_def Let_def split: prod.split sum.split)
qed

lemma ask_chain_cases:
  assumes "ask_chain cf iv r gate2 ho p = (x, p1)"
  obtains s p0 res er c where "stateFor (InvSession iv) (InvAutonomy iv) p = (s, p0)"
    "Permissions.Resolve (PChain p) (SafetyNow cf (PWorld p)) (SafetyLater cf (PWorld p)) (request_for r gate2 ho s (PWorld p))
       = ((res, er), c)"
    "er \<noteq> None \<Longrightarrow> (\<exists>reason. x = Inl (errorResult reason)) \<and> p1 = p0\<lparr>PChain := c\<rparr>"
    "er = None \<Longrightarrow> x = Inr (Res res, legs_of (taintState s) \<noteq> legs_of (ResTaint res), legs_of (ResTaint res)) \<and>
       p1 = p0\<lparr>PChain := c, Sessions := (Sessions p0)(InvSession iv \<mapsto> s\<lparr>taintState := ResTaint res\<rparr>)\<rparr>"
proof -
  obtain s p0 where s: "stateFor (InvSession iv) (InvAutonomy iv) p = (s, p0)" by (rule prod.exhaust)
  then obtain S where "p0 = p\<lparr>Sessions := S\<rparr>" using stateFor_cases(1) by blast
  then have same: "PChain p0 = PChain p" "PWorld p0 = PWorld p" by simp_all
  obtain y c where "Permissions.Resolve (PChain p) (SafetyNow cf (PWorld p)) (SafetyLater cf (PWorld p))
      (request_for r gate2 ho s (PWorld p)) = (y, c)" by (rule prod.exhaust)
  then obtain res er where "Permissions.Resolve (PChain p) (SafetyNow cf (PWorld p)) (SafetyLater cf (PWorld p))
      (request_for r gate2 ho s (PWorld p)) = ((res, er), c)" by (cases y) auto
  with s same assms show ?thesis by (intro that [of s p0 res er c]) (auto simp: ask_chain_def)
qed


section \<open>Calls are bound and admitted\<close>

text \<open>
  The tool is the registered one, clean and with its descriptor as pinned, or, when the reference is
  not in the manifest, the one the dynamic resolver hands out for this tenant and session.
\<close>

definition admitted :: "('w, 'c) pipeline_config \<Rightarrow> invocation \<Rightarrow> ('w, 'c) pipeline \<Rightarrow> 'w prepared \<Rightarrow> bool" where
  "admitted cf iv p r =
     (case manifest_Resolve (PManifest cf) (PrRef r) of
        Some pinned \<Rightarrow>
          reg_Lookup (PRegistry p) (PrRef r) = Some (PrTool r) \<and> AdmissionStatus (PRegistry p) (PrRef r) = AdmissionClean \<and>
          PrDescriptor r = Descriptor (PrTool r) (PWorld p) \<and> descriptorDigest (PrDescriptor r) = DescriptorDigest pinned
      | None \<Rightarrow>
          (\<exists>resolve w. Dynamic cf = Some resolve \<and>
             resolve (InvTenant iv) (InvSession iv) (PrRef r) (PWorld p) = (Inr (Some (PrTool r)), w) \<and>
             PrDescriptor r = Descriptor (PrTool r) w))"

definition bound :: "'w prepared \<Rightarrow> bool" where
  "bound r \<longleftrightarrow> Canonical_Digest (ref_String (PrRef r)) (PrepInput r) = Inr (PrDigest r)"

lemma checked_call_ok:
  "checked_call cf iv ref t d p = (Inr r, p1) \<Longrightarrow>
     bound r \<and> PrRef r = ref \<and> PrTool r = t \<and> PrDescriptor r = d \<and> PrepInput r = (if InvInput iv = '''' then ''{}'' else InvInput iv)"
  by (auto simp: checked_call_def bound_def Let_def split: prod.splits option.splits sum.splits)

lemma resolveTool_ok:
  assumes "resolveTool cf tn sid ref p = (Inr (t, d, dynamic), p1)"
  shows "case manifest_Resolve (PManifest cf) ref of
           Some pinned \<Rightarrow> reg_Lookup (PRegistry p) ref = Some t \<and> d = Descriptor t (PWorld p) \<and>
             descriptorDigest d = DescriptorDigest pinned \<and> \<not> dynamic
         | None \<Rightarrow> (\<exists>resolve w. Dynamic cf = Some resolve \<and> resolve tn sid ref (PWorld p) = (Inr (Some t), w) \<and> d = Descriptor t w)"
  using assms by (auto simp: resolveTool_def Let_def split: option.splits prod.splits sum.splits if_splits)

lemma prepare_ok:
  assumes "prepare cf iv p = (Inr r, p1)"
  shows "bound r \<and> admitted cf iv p r \<and> ParseToolRef (InvToolName iv) = Inr (PrRef r) \<and>
    PrepInput r = (if InvInput iv = '''' then ''{}'' else InvInput iv)"
proof -
  obtain ref t d dynamic p0 where parsed: "ParseToolRef (InvToolName iv) = Inr ref"
      and res: "resolveTool cf (InvTenant iv) (InvSession iv) ref p = (Inr (t, d, dynamic), p0)"
      and clean: "dynamic \<or> AdmissionStatus (PRegistry p0) ref = AdmissionClean"
      and chk: "checked_call cf iv ref t d p0 = (Inr r, p1)"
    using assms by (auto simp: prepare_def Let_def split: sum.splits prod.splits if_splits)
  have "PRegistry p0 = PRegistry p"
    using resolveTool_core [of cf "InvTenant iv" "InvSession iv" ref p] res by (simp add: core_def)
  with checked_call_ok [OF chk] resolveTool_ok [OF res] clean parsed show ?thesis
    by (auto simp: admitted_def split: option.splits)
qed

text \<open>
  What the two gates before the chain answered about an invocation: \<open>gate2\<close> is the tool's own opinion on
  the prepared call, \<open>ho\<close> the outcome of the hooks dispatched after it, and \<open>r\<close> the call with the
  input as the hooks left it, its digest taken again.
\<close>

definition gated ::
    "('w, 'c) pipeline_config \<Rightarrow> invocation \<Rightarrow> ('w, 'c) pipeline \<Rightarrow> 'w prepared \<Rightarrow> layer_outcome \<Rightarrow> layer_outcome
      \<Rightarrow> ('w, 'c) pipeline \<Rightarrow> bool" where
  "gated cf iv p r gate2 ho p2 \<longleftrightarrow>
     (\<exists>r1 p1 perm w hookOut.
        prepare cf iv p = (Inr r1, p1) \<and>
        CheckPermissions (PrTool r1) (PrepInput r1) (PrRc r1) (PWorld p1) = (perm, w) \<and>
        toLayerOutcome (to_decision (PermDecision perm)) (PermReason perm) = Inr gate2 \<and>
        run_hooks cf PreToolUse (hook_context_for (PrRef r1) (PrDescriptor r1) (PrepInput r1)) (p1\<lparr>PWorld := w\<rparr>) = (hookOut, p2) \<and>
        toLayerOutcome (HDecision hookOut) (HReason hookOut) = Inr ho \<and>
        r = r1\<lparr>PrepInput := (case UpdatedInput hookOut of None \<Rightarrow> PrepInput r1 | Some inp \<Rightarrow> inp), PrDigest := PrDigest r\<rparr>)"

lemma gates_gated:
  assumes "prepare cf iv p = (Inr r1, p1)" and "gates cf r1 p1 = (Inr (gate2, ho, r), p2)"
  shows "gated cf iv p r gate2 ho p2"
  using assms unfolding gated_def
  by (fastforce simp: gates_def Let_def split: prod.splits sum.splits option.splits)

lemma gates_ok:
  assumes "gates cf r p = (Inr (gate2, ho, r2), p2)" and "bound r"
  shows "bound r2 \<and> PrRef r2 = PrRef r \<and> PrTool r2 = PrTool r \<and> PrDescriptor r2 = PrDescriptor r"
  using assms by (auto simp: gates_def bound_def Let_def split: prod.splits sum.splits option.splits)

definition call_of :: "invocation \<Rightarrow> 'w prepared \<Rightarrow> tool_call" where
  "call_of iv r = \<lparr>TcSession = InvSession iv, TcTool = ref_String (PrRef r), TcInput = PrepInput r, TcDigest = PrDigest r,
     TcEffect = DescEffect (PrDescriptor r)\<rparr>"

text \<open>The four ways a claim is asked for, and where the call leaves the store and the ghost list.\<close>

lemma open_claim_core:
  assumes "open_claim cf iv r p = (x, p1)"
  shows "PRegistry p1 = PRegistry p \<and> PChain p1 = PChain p \<and> Sessions p1 = Sessions p \<and> Calls p1 = Calls p \<and> Folds p1 = Folds p"
  using assms
  by (auto simp: open_claim_def split: option.splits if_splits prod.splits sum.splits claim_outcome.splits)

lemma complete_claim_core:
  "PRegistry (complete_claim cf iv r cid out ce p) = PRegistry p" "PChain (complete_claim cf iv r cid out ce p) = PChain p"
  "Sessions (complete_claim cf iv r cid out ce p) = Sessions p" "Calls (complete_claim cf iv r cid out ce p) = Calls p"
  "Folds (complete_claim cf iv r cid out ce p) = Folds p"
  by (simp_all add: complete_claim_def Let_def split: option.split)

text \<open>What a tool cannot reach with the taint operations while it runs.\<close>

definition shell :: "('w, 'c) pipeline \<Rightarrow> 'c \<times> 'w registry \<times> chain \<times> tool_call list" where
  "shell p = (PClaimStore p, PRegistry p, PChain p, Calls p)"

lemma shell_simps [simp]:
  "shell (p\<lparr>PWorld := w\<rparr>) = shell p" "shell (p\<lparr>Sessions := S\<rparr>) = shell p" "shell (note_fold sid e p) = shell p"
  by (simp_all add: shell_def note_fold_def)

lemma stateFor_shell: "stateFor sid lvl p = (s, p1) \<Longrightarrow> shell p1 = shell p"
  using stateFor_cases(1) by fastforce

lemma taint_ops_shell [simp]:
  "shell (snd (TaintStateFor sid p)) = shell p" "shell (FoldTaint sid e p) = shell p" "shell (SeedTaint sid lvl e p) = shell p"
  by (auto simp: TaintStateFor_def FoldTaint_def SeedTaint_def stateFor_shell split: prod.split)

lemma run_call_shell: "shell (snd (run_call x p)) = shell p"
  by (induction x arbitrary: p) simp_all

lemma safeCall_shell: "safeCall t inp rc p = (y, p1) \<Longrightarrow> shell p1 = shell p"
  using run_call_shell [of "ToolCall t inp rc (PWorld p)" p]
  by (auto simp: safeCall_def split: prod.splits call_outcome.splits)

lemma finishCall_cases:
  assumes "finishCall cf iv r p = (x, p1)"
  obtains (refused) "open_claim cf iv r p = (Inl x, p1)"
  | (called) cid p0 out ce pc where "open_claim cf iv r p = (Inr cid, p0)"
      "safeCall (PrTool r) (PrepInput r) (PrRc r) p0 = ((out, ce), pc)"
      "core p1 = core (complete_claim cf iv r cid out ce (note_tool_call iv r pc))"
proof (cases "open_claim cf iv r p")
  case (Pair y p0)
  show ?thesis
  proof (cases y)
    case (Inl e)
    with Pair assms show ?thesis by (intro refused) (simp add: finishCall_def)
  next
    case (Inr cid)
    obtain res pc where "safeCall (PrTool r) (PrepInput r) (PrRc r) p0 = (res, pc)" by (rule prod.exhaust)
    then obtain out ce where s: "safeCall (PrTool r) (PrepInput r) (PrRc r) p0 = ((out, ce), pc)" by (cases res) auto
    let ?p2 = "complete_claim cf iv r cid out ce (note_tool_call iv r pc)"
    have "core p1 = core ?p2"
      using assms Pair Inr s deliver_core [of cf iv r out ?p2]
      by (auto simp: finishCall_def Let_def split: option.splits)
    with Pair Inr s show ?thesis by (intro called) simp_all
  qed
qed

lemma finishCall_core:
  assumes "finishCall cf iv r p = (x, p1)"
  shows "PRegistry p1 = PRegistry p \<and> PChain p1 = PChain p \<and> (Calls p1 = Calls p \<or> Calls p1 = Calls p @ [call_of iv r])"
  using assms
proof (cases rule: finishCall_cases)
  case refused
  then show ?thesis using open_claim_core by blast
next
  case (called cid p0 out ce pc)
  then show ?thesis
    using open_claim_core [OF called(1)] safeCall_shell [OF called(2)]
    by (simp add: core_def shell_def complete_claim_core note_tool_call_def call_of_def)
qed

text \<open>An invocation whose call was made went all the way: prepared, gated, asked, allowed.\<close>

lemma Execute_called:
  assumes "Execute cf iv p = (x, p')" and "Calls p' \<noteq> Calls p"
  obtains r g h r2 p1 p2 p3 s p0 res c where "prepare cf iv p = (Inr r, p1)" "gates cf r p1 = (Inr (g, h, r2), p2)"
    "stateFor (InvSession iv) (InvAutonomy iv) p2 = (s, p0)"
    "Permissions.Resolve (PChain p) (SafetyNow cf (PWorld p2)) (SafetyLater cf (PWorld p2)) (request_for r2 g h s (PWorld p2))
       = ((res, None), c)"
    "RDecision (Res res) = Allow" "Calls p' = Calls p @ [call_of iv r2]"
proof -
  obtain y p1 where pr: "prepare cf iv p = (y, p1)" by (rule prod.exhaust)
  then have c1: "core p1 = core p" using prepare_core [of cf iv p] by simp
  then obtain r where r: "y = Inr r" using assms pr by (cases y) (auto simp: Execute_def core_def)
  obtain z p2 where g: "gates cf r p1 = (z, p2)" by (rule prod.exhaust)
  then have c2: "core p2 = core p" using gates_core [of cf r p1] c1 by simp
  then obtain g0 h r2 where z: "z = Inr (g0, h, r2)" using assms pr r g by (cases z) (auto simp: Execute_def core_def)
  obtain a p3 where a: "ask_chain cf iv r2 g0 h p2 = (a, p3)" by (rule prod.exhaust)
  show ?thesis
    using a
  proof (cases rule: ask_chain_cases)
    case (1 s p0 res er c)
    have "\<exists>S. p0 = p2\<lparr>Sessions := S\<rparr>" using stateFor_cases(1) [OF 1(1)] .
    then have calls: "Calls p3 = Calls p" using 1(3,4) c2 by (cases er) (auto simp: core_def)
    then have er: "er = None" using 1(3) assms pr r g z a by (cases er) (auto simp: Execute_def)
    with 1(4) assms pr r g z a have d: "decide cf iv r2 (Res res) (legs_of (taintState s) \<noteq> legs_of (ResTaint res))
        (legs_of (ResTaint res)) p3 = (x, p')" by (simp add: Execute_def)
    have dec: "RDecision (Res res) = Allow"
      using chain_decides [of "PChain p2"] 1(2) er d calls assms(2) by (fastforce simp: decide_def)
    obtain x' where "finishCall cf iv r2 p3 = (x', p')" using d dec by (auto simp: decide_def split: prod.splits)
    from finishCall_core [OF this] calls assms(2) have "Calls p' = Calls p @ [call_of iv r2]" by auto
    with that [OF pr [unfolded r] g [unfolded z] 1(1)] 1(2) er dec c2 show ?thesis by (simp add: core_def)
  qed
qed


lemma ExecuteApproved_called:
  assumes "ExecuteApproved cf iv dg p = (x, p')" and "Calls p' \<noteq> Calls p"
  obtains r p1 where "prepare cf iv p = (Inr r, p1)" "PrDigest r = dg" "Calls p' = Calls p @ [call_of iv r]"
proof -
  obtain y p1 where pr: "prepare cf iv p = (y, p1)" by (rule prod.exhaust)
  then have c1: "core p1 = core p" using prepare_core [of cf iv p] by simp
  then obtain r where r: "y = Inr r" using assms pr by (cases y) (auto simp: ExecuteApproved_def core_def)
  have dg: "PrDigest r = dg" using assms pr r c1 by (auto simp: ExecuteApproved_def core_def split: if_splits)
  obtain s p0 where s: "stateFor (InvSession iv) (InvAutonomy iv) p1 = (s, p0)" by (rule prod.exhaust)
  then have "Calls p0 = Calls p1" using stateFor_cases(1) [OF s] by auto
  moreover have "finishCall cf iv r p0 = (x, p')" using assms(1) pr r dg s by (simp add: ExecuteApproved_def)
  ultimately show ?thesis using finishCall_core [of cf iv r p0 x p'] assms(2) pr r dg c1 that by (auto simp: core_def)
qed

section \<open>Taint\<close>

definition session_legs :: "('w, 'c) pipeline \<Rightarrow> uuid \<Rightarrow> legs" where
  "session_legs p sid = (case Sessions p sid of None \<Rightarrow> (False, False, False) | Some s \<Rightarrow> legs_of (taintState s))"

fun legs_le :: "legs \<Rightarrow> legs \<Rightarrow> bool" where
  "legs_le (a, b, c) (a', b', c') \<longleftrightarrow> (a \<longrightarrow> a') \<and> (b \<longrightarrow> b') \<and> (c \<longrightarrow> c')"

lemma legs_le_refl [simp]: "legs_le x x"
  by (cases x) simp

lemma legs_le_engage: "legs_le (legs_of s) (legs_of (engage s t))"
  by (simp add: legs_of_def engage_def)

lemma legs_le_fold: "legs_le (legs_of s) (legs_of (fold_legs e s)) \<and> legs_le e (legs_of (fold_legs e s))"
  by (cases e) (simp add: legs_of_def fold_legs_def)

lemma stateFor_legs:
  assumes "stateFor sid lvl p = (s, p1)"
  shows "session_legs p1 = session_legs p" "legs_of (taintState s) = session_legs p sid"
  using assms
  by (cases "Sessions p sid"; auto simp: stateFor_def session_legs_def Let_def clean_taint_def legs_of_def)+

lemma legs_cong: "Sessions p1 = Sessions p \<Longrightarrow> session_legs p1 = session_legs p"
  by (simp add: session_legs_def fun_eq_iff)

lemma core_legs: "core p1 = core p \<Longrightarrow> session_legs p1 = session_legs p \<and> Sessions p1 = Sessions p"
  by (simp add: core_def session_legs_def fun_eq_iff)

fun legs_or :: "legs \<Rightarrow> legs \<Rightarrow> legs" where
  "legs_or (a, b, c) (a', b', c') = (a \<or> a', b \<or> b', c \<or> c')"

text \<open>What folding legs into a session does to the legs of all of them.\<close>

definition fold_into :: "uuid \<times> legs \<Rightarrow> (uuid \<Rightarrow> legs) \<Rightarrow> uuid \<Rightarrow> legs" where
  "fold_into f L = (case f of (sid, e) \<Rightarrow> L(sid := legs_or e (L sid)))"

lemma fold_into_le: "legs_le (L sid) (fold_into f L sid)"
  by (cases f, cases "L sid", cases "snd f") (auto simp: fold_into_def)

lemma legs_le_trans: "legs_le x y \<Longrightarrow> legs_le y z \<Longrightarrow> legs_le x z"
  by (cases x, cases y, cases z) auto

lemma folds_le: "legs_le (L sid) (fold fold_into fs L sid)"
proof (induction fs arbitrary: L)
  case (Cons f fs)
  then show ?case using fold_into_le legs_le_trans by fastforce
qed simp

lemma legs_of_fold: "legs_of (fold_legs e s) = legs_or e (legs_of s)"
  by (cases e) (simp add: legs_of_def fold_legs_def)

lemma Sessions_upd_legs:
  "session_legs (p\<lparr>Sessions := (Sessions p)(sid \<mapsto> s)\<rparr>) = (session_legs p)(sid := legs_of (taintState s))"
  by (auto simp: session_legs_def)

lemma taint_ops_legs:
  "session_legs (snd (TaintStateFor sid p)) = session_legs p"
  "session_legs (FoldTaint sid e p) = fold_into (sid, e) (session_legs p)"
  "session_legs (SeedTaint sid lvl e p) = fold_into (sid, e) (session_legs p)"
  by (auto simp: TaintStateFor_def FoldTaint_def SeedTaint_def Sessions_upd_legs legs_of_fold fold_into_def
        stateFor_legs split: prod.split)

lemma taint_ops_Folds:
  "Folds (snd (TaintStateFor sid p)) = Folds p" "Folds (FoldTaint sid e p) = Folds p" "Folds (SeedTaint sid lvl e p) = Folds p"
  by (auto simp: TaintStateFor_def FoldTaint_def SeedTaint_def stateFor_def Let_def split: prod.split option.splits)

lemma session_legs_note_fold [simp]: "session_legs (note_fold sid e p) = session_legs p"
  by (simp add: session_legs_def note_fold_def fun_eq_iff)

text \<open>While it runs, a tool changes taint only by the folds on the ghost list.\<close>

definition folded :: "(uuid \<times> legs) list \<Rightarrow> ('w, 'c) pipeline \<Rightarrow> ('w, 'c) pipeline \<Rightarrow> bool" where
  "folded fs p p' \<longleftrightarrow> Folds p' = Folds p @ fs \<and> session_legs p' = fold fold_into fs (session_legs p)"

lemma run_call_folded: "\<exists>fs. folded fs p (snd (run_call x p))"
proof (induction x arbitrary: p)
  case (ToolDone out w)
  show ?case by (intro exI [of _ "[]"]) (simp add: folded_def session_legs_def fun_eq_iff)
next
  case (AskTaint sid k)
  from AskTaint [OF rangeI] obtain fs where
    "folded fs (snd (TaintStateFor sid p)) (snd (run_call (k (fst (TaintStateFor sid p))) (snd (TaintStateFor sid p))))" by blast
  then have "folded fs p (snd (run_call (AskTaint sid k) p))" by (simp add: folded_def taint_ops_legs taint_ops_Folds)
  then show ?case ..
next
  case (FoldInto sid e k)
  from FoldInto obtain fs where
    "folded fs (note_fold sid e (FoldTaint sid e p)) (snd (run_call k (note_fold sid e (FoldTaint sid e p))))" by blast
  then have "folded ((sid, e) # fs) p (snd (run_call (FoldInto sid e k) p))"
    by (simp add: folded_def taint_ops_legs) (simp add: note_fold_def taint_ops_Folds)
  then show ?case ..
next
  case (SeedInto sid lvl e k)
  from SeedInto obtain fs where
    "folded fs (note_fold sid e (SeedTaint sid lvl e p)) (snd (run_call k (note_fold sid e (SeedTaint sid lvl e p))))" by blast
  then have "folded ((sid, e) # fs) p (snd (run_call (SeedInto sid lvl e k) p))"
    by (simp add: folded_def taint_ops_legs) (simp add: note_fold_def taint_ops_Folds)
  then show ?case ..
qed

lemma safeCall_folded: "safeCall t inp rc p = (y, p1) \<Longrightarrow> \<exists>fs. folded fs p p1"
  using run_call_folded [of p "ToolCall t inp rc (PWorld p)"]
  by (auto simp: safeCall_def split: prod.splits call_outcome.splits)

lemma finishCall_folded:
  assumes "finishCall cf iv r p = (x, p1)"
  shows "\<exists>fs. folded fs p p1 \<and> (Calls p1 = Calls p \<longrightarrow> fs = [])"
  using assms
proof (cases rule: finishCall_cases)
  case refused
  then show ?thesis using open_claim_core [OF refused] by (auto simp: folded_def session_legs_def fun_eq_iff)
next
  case (called cid p0 out ce pc)
  obtain fs where fs: "folded fs p0 pc" using safeCall_folded [OF called(2)] by blast
  have "Calls p1 \<noteq> Calls p"
    using open_claim_core [OF called(1)] safeCall_shell [OF called(2)] called(3)
    by (simp add: core_def shell_def complete_claim_core note_tool_call_def)
  moreover have "folded fs p p1"
    using fs open_claim_core [OF called(1)] called(3) legs_cong [of p0 p] legs_cong [of p1 pc]
    by (simp add: folded_def core_def complete_claim_core note_tool_call_def)
  ultimately show ?thesis by blast
qed

text \<open>
  What an invocation did to taint: the change its result reports to its own session, and then the
  folds of the tool it called.
\<close>

definition reports :: "uuid \<Rightarrow> ('w, 'c) pipeline \<Rightarrow> execute_result \<times> ('w, 'c) pipeline \<Rightarrow> bool" where
  "reports sid p r =
     (case r of (x, p') \<Rightarrow>
        (XTaintChanged x \<longrightarrow> XTaintEngaged x \<noteq> session_legs p sid \<and> legs_le (session_legs p sid) (XTaintEngaged x)) \<and>
        (\<exists>fs. Folds p' = Folds p @ fs \<and> (Calls p' = Calls p \<longrightarrow> fs = []) \<and>
           session_legs p' = fold fold_into fs
             (if XTaintChanged x then (session_legs p)(sid := XTaintEngaged x) else session_legs p)))"

lemma reports_same:
  "session_legs p' = session_legs p \<Longrightarrow> Folds p' = Folds p \<Longrightarrow> \<not> XTaintChanged x \<Longrightarrow> reports sid p (x, p')"
  by (simp add: reports_def)

lemma errorResult_quiet [simp]: "\<not> XTaintChanged (errorResult reason)" "\<not> XTaintChanged zero_result"
  by (simp_all add: errorResult_def zero_result_def)

lemma decide_taint:
  assumes "RDecision res \<in> {Deny, Ask, Allow}" and "decide cf iv r res changed engaged p = (x, p')"
  shows "XTaintChanged x = changed \<and> XTaintEngaged x = engaged \<and> (\<exists>fs. folded fs p p' \<and> (Calls p' = Calls p \<longrightarrow> fs = []))"
proof (cases "RDecision res = Allow")
  case True
  obtain y p1 where f: "finishCall cf iv r p = (y, p1)" by (rule prod.exhaust)
  with True assms(2) finishCall_folded [OF f] show ?thesis by (auto simp: decide_def)
next
  case False
  with assms have "p' = p" "XTaintChanged x = changed" "XTaintEngaged x = engaged" by (auto simp: decide_def)
  then show ?thesis by (auto simp: folded_def)
qed

lemma prepare_quiet: "prepare cf iv p = (Inl x, p1) \<Longrightarrow> \<not> XTaintChanged x"
  by (auto simp: prepare_def resolveTool_def checked_call_def Let_def
        split: sum.splits prod.splits option.splits if_splits)

lemma gates_quiet: "gates cf r p = (Inl x, p1) \<Longrightarrow> \<not> XTaintChanged x"
  by (auto simp: gates_def Let_def split: sum.splits prod.splits option.splits)

lemma finishCall_quiet: "\<not> XTaintChanged (fst (finishCall cf iv r p))"
  by (auto simp: finishCall_def open_claim_def deliver_def errorResult_def zero_result_def Let_def
        split: prod.splits sum.splits option.splits claim_outcome.splits if_splits)

lemma ask_chain_frame: "ask_chain cf iv r gate2 ho p = (a, p1) \<Longrightarrow> Folds p1 = Folds p \<and> Calls p1 = Calls p"
  by (auto simp: ask_chain_def stateFor_def Let_def split: prod.splits option.splits)

lemma ask_chain_taint:
  assumes "ask_chain cf iv r gate2 ho p = (Inr (res, changed, engaged), p1)"
  shows "RDecision res \<in> {Deny, Ask, Allow}" "session_legs p1 = (session_legs p)(InvSession iv := engaged)"
    "changed = (session_legs p (InvSession iv) \<noteq> engaged)" "legs_le (session_legs p (InvSession iv)) engaged"
proof -
  from assms have "RDecision res \<in> {Deny, Ask, Allow} \<and> session_legs p1 = (session_legs p)(InvSession iv := engaged) \<and>
    changed = (session_legs p (InvSession iv) \<noteq> engaged) \<and> legs_le (session_legs p (InvSession iv)) engaged"
  proof (cases rule: ask_chain_cases)
    case (1 s p0 res' er c)
    note legs = stateFor_legs [OF 1(1)]
    from 1(3) have er: "er = None" by (cases er) auto
    then have p1: "p1 = p0\<lparr>PChain := c, Sessions := (Sessions p0)(InvSession iv \<mapsto> s\<lparr>taintState := ResTaint res'\<rparr>)\<rparr>"
      and x: "res = Res res'" "engaged = legs_of (ResTaint res')" "changed = (legs_of (taintState s) \<noteq> engaged)"
      using 1(4) by auto
    from p1 legs(1) x have "session_legs p1 = (session_legs p)(InvSession iv := engaged)"
      by (auto simp: session_legs_def fun_eq_iff)
    moreover have "ResTaint res' \<in> {taintState s, engage (taintState s) (ToolTaint (PrTool r) (PWorld p))}"
      using chain_engages [of "request_for r gate2 ho s (PWorld p)" "PChain p" "SafetyNow cf (PWorld p)" "SafetyLater cf (PWorld p)"]
        1(2) by (simp add: engaged_or_same_def) (simp add: request_for_def)
    then have "legs_le (legs_of (taintState s)) engaged" using x(2) legs_le_engage by auto
    ultimately show ?thesis using chain_decides [OF 1(2) [unfolded er]] x legs(2) by simp
  qed
  then show "RDecision res \<in> {Deny, Ask, Allow}" "session_legs p1 = (session_legs p)(InvSession iv := engaged)"
    "changed = (session_legs p (InvSession iv) \<noteq> engaged)" "legs_le (session_legs p (InvSession iv)) engaged" by blast+
qed

lemma ask_chain_quiet:
  assumes "ask_chain cf iv r gate2 ho p = (Inl x, p1)"
  shows "\<not> XTaintChanged x \<and> session_legs p1 = session_legs p"
  using assms
proof (cases rule: ask_chain_cases)
  case (1 s p0 res er c)
  then obtain reason where "x = errorResult reason" "p1 = p0\<lparr>PChain := c\<rparr>" by (cases er) auto
  with stateFor_legs(1) [OF 1(1)] show ?thesis by (simp add: session_legs_def fun_eq_iff)
qed

lemma Execute_reports: "reports (InvSession iv) p (Execute cf iv p)"
proof -
  obtain y p1 where pr: "prepare cf iv p = (y, p1)" by (rule prod.exhaust)
  then have "core p1 = core p" using prepare_core [of cf iv p] by simp
  then have c1: "session_legs p1 = session_legs p" "Folds p1 = Folds p" "core p1 = core p" using core_legs by (auto simp: core_def)
  show ?thesis
  proof (cases y)
    case (Inl x)
    with pr prepare_quiet [of cf iv p x p1] c1 show ?thesis by (simp add: Execute_def reports_same)
  next
    case (Inr r)
    obtain z p2 where g: "gates cf r p1 = (z, p2)" by (rule prod.exhaust)
    then have "core p2 = core p" using gates_core [of cf r p1] c1(3) by simp
    then have c2: "session_legs p2 = session_legs p" "Folds p2 = Folds p" "Calls p2 = Calls p" using core_legs by (auto simp: core_def)
    show ?thesis
    proof (cases z)
      case (Inl x)
      with pr Inr g gates_quiet [of cf r p1 x p2] c2 show ?thesis by (simp add: Execute_def reports_same)
    next
      case z: (Inr t)
      obtain g0 h r2 where t: "t = (g0, h, r2)" by (cases t)
      obtain a p3 where a: "ask_chain cf iv r2 g0 h p2 = (a, p3)" by (rule prod.exhaust)
      note c3 = ask_chain_frame [OF a]
      show ?thesis
      proof (cases a)
        case (Inl x)
        with pr Inr g z t a ask_chain_quiet [of cf iv r2 g0 h p2 x p3] c2 c3 show ?thesis
          by (simp add: Execute_def reports_same)
      next
        case s: (Inr u)
        obtain res changed engaged where u: "u = (res, changed, engaged)" by (cases u)
        note taint = ask_chain_taint [OF a [unfolded s u]]
        obtain x p' where d: "decide cf iv r2 res changed engaged p3 = (x, p')" by (rule prod.exhaust)
        from decide_taint [OF taint(1) d] obtain fs where fs: "folded fs p3 p'" "Calls p' = Calls p3 \<longrightarrow> fs = []"
          and x: "XTaintChanged x = changed" "XTaintEngaged x = engaged" by blast
        have "session_legs p3 = (if XTaintChanged x then (session_legs p)(InvSession iv := XTaintEngaged x) else session_legs p)"
          using taint(2,3) c2(1) x by auto
        with fs x taint(3,4) c2 c3 have "reports (InvSession iv) p (x, p')" by (auto simp: reports_def folded_def)
        with pr Inr g z t a s u d show ?thesis by (simp add: Execute_def)
      qed
    qed
  qed
qed

lemma ExecuteApproved_reports: "reports (InvSession iv) p (ExecuteApproved cf iv dg p)"
proof -
  obtain y p1 where pr: "prepare cf iv p = (y, p1)" by (rule prod.exhaust)
  then have "core p1 = core p" using prepare_core [of cf iv p] by simp
  then have c1: "session_legs p1 = session_legs p" "Folds p1 = Folds p" "Calls p1 = Calls p" using core_legs by (auto simp: core_def)
  show ?thesis
  proof (cases y)
    case (Inl x)
    with pr prepare_quiet [of cf iv p x p1] c1 show ?thesis by (simp add: ExecuteApproved_def reports_same)
  next
    case (Inr r)
    show ?thesis
    proof (cases "PrDigest r = dg")
      case False
      with pr Inr c1 show ?thesis by (simp add: ExecuteApproved_def reports_same zero_result_def)
    next
      case True
      obtain s p0 where s: "stateFor (InvSession iv) (InvAutonomy iv) p1 = (s, p0)" by (rule prod.exhaust)
      obtain x p' where f: "finishCall cf iv r p0 = (x, p')" by (rule prod.exhaust)
      have "\<exists>S. p0 = p1\<lparr>Sessions := S\<rparr>" using stateFor_cases(1) [OF s] .
      then have "Folds p0 = Folds p" "Calls p0 = Calls p" using c1 by auto
      moreover have "session_legs p0 = session_legs p" using stateFor_legs(1) [OF s] c1 by simp
      moreover have "\<not> XTaintChanged x" using finishCall_quiet [of cf iv r p0] f by simp
      ultimately have "reports (InvSession iv) p (x, p')"
        using finishCall_folded [OF f] by (auto simp: reports_def folded_def)
      with pr Inr True s f show ?thesis by (simp add: ExecuteApproved_def)
    qed
  qed
qed

section \<open>Effects happen at most once\<close>

definition effects :: "('w, 'c) pipeline \<Rightarrow> (uuid \<times> bytes) list" where
  "effects p = map (\<lambda>c. (TcSession c, TcDigest c)) (filter (\<lambda>c. TcEffect c \<noteq> EffectReadOnly) (Calls p))"

text \<open>
  Everything that can be asked of a pipeline, one after the other; \<open>OpStore\<close> is anything that
  happens to the claim store from outside.
\<close>

datatype 'c pipeline_op =
    OpExecute invocation
  | OpApproved invocation bytes
  | OpSeed uuid string legs
  | OpFold uuid legs
  | OpTaint uuid
  | OpReset
  | OpStore "'c \<Rightarrow> 'c"

fun do_op :: "('w, 'c) pipeline_config \<Rightarrow> 'c pipeline_op \<Rightarrow> ('w, 'c) pipeline \<Rightarrow> ('w, 'c) pipeline" where
  "do_op cf (OpExecute iv) p = snd (Execute cf iv p)"
| "do_op cf (OpApproved iv dg) p = snd (ExecuteApproved cf iv dg p)"
| "do_op cf (OpSeed sid lvl e) p = SeedTaint sid lvl e p"
| "do_op cf (OpFold sid e) p = FoldTaint sid e p"
| "do_op cf (OpTaint sid) p = snd (TaintStateFor sid p)"
| "do_op cf OpReset p = pipeline_ResetTurn p"
| "do_op cf (OpStore f) p = p\<lparr>PClaimStore := f (PClaimStore p)\<rparr>"

text \<open>
  What the pipeline relies on in a claim store: a call is let through only by opening a claim that
  was not there, and nothing makes a claim that is there go away.
\<close>

locale claims_port =
  fixes cs :: "'c claims" and opened :: "'c \<Rightarrow> (uuid \<times> bytes) set"
  assumes open_grows [port_laws]: "opened c \<subseteq> opened (snd (Claims_Open cs tn sid tid dg c))"
    and open_fresh [port_laws]: "Claims_Open cs tn sid tid dg c = (Inr (cid, out), c') \<Longrightarrow> out \<notin> {ClaimAmbiguous, ClaimDone} \<Longrightarrow>
          (sid, dg) \<notin> opened c \<and> (sid, dg) \<in> opened c'"
    and complete_grows [port_laws]: "opened c \<subseteq> opened (snd (Claims_Complete cs tn sid cid failed reason c))"
begin

definition once :: "'c \<Rightarrow> ('w, 'c) pipeline \<Rightarrow> bool" where
  "once c0 p \<longleftrightarrow> distinct (effects p) \<and> set (effects p) \<subseteq> opened (PClaimStore p) - opened c0 \<and> opened c0 \<subseteq> opened (PClaimStore p)"

lemma once_core: "core p1 = core p \<Longrightarrow> once c0 p1 = once c0 p"
  by (simp add: once_def core_def effects_def)

lemma once_shell: "shell p1 = shell p \<Longrightarrow> once c0 (note_tool_call iv r p1) = once c0 (note_tool_call iv r p)"
  by (simp add: once_def shell_def effects_def note_tool_call_def)

lemma once_sessions: "once c0 (p\<lparr>Sessions := S\<rparr>) = once c0 p" "once c0 (p\<lparr>PChain := ch\<rparr>) = once c0 p"
  by (simp_all add: once_def effects_def)

lemma once_stateFor: "once c0 p \<Longrightarrow> stateFor sid lvl p = (s, p1) \<Longrightarrow> once c0 p1"
  using stateFor_cases(1) [of sid lvl p s p1] once_sessions(1) by metis

lemma once_grows:
  "once c0 p \<Longrightarrow> opened (PClaimStore p) \<subseteq> opened c1 \<Longrightarrow> once c0 (p\<lparr>PClaimStore := c1\<rparr>)"
  by (auto simp: once_def effects_def)

lemma once_open_claim:
  assumes "PClaims cf = Some cs" and "once c0 p" and "open_claim cf iv r p = (x, p1)"
  shows "once c0 p1"
proof (cases "DescEffect (PrDescriptor r) = EffectReadOnly")
  case False
  let ?o = "Claims_Open cs (InvTenant iv) (InvSession iv) (ref_String (PrRef r)) (PrDigest r) (PClaimStore p)"
  have "p1 = p\<lparr>PClaimStore := snd ?o\<rparr>"
    using False assms(1,3) by (auto simp: open_claim_def split: prod.splits sum.splits claim_outcome.splits)
  with once_grows [OF assms(2) open_grows] show ?thesis by simp
qed (use assms in \<open>simp add: open_claim_def\<close>)

lemma once_call:
  assumes "PClaims cf = Some cs" and "once c0 p" and "open_claim cf iv r p = (Inr cid, p1)"
  shows "once c0 (note_tool_call iv r p1)"
proof (cases "DescEffect (PrDescriptor r) = EffectReadOnly")
  case True
  with once_open_claim [OF assms] show ?thesis by (simp add: once_def effects_def note_tool_call_def)
next
  case False
  then obtain cid' out c where o: "Claims_Open cs (InvTenant iv) (InvSession iv) (ref_String (PrRef r)) (PrDigest r) (PClaimStore p)
      = (Inr (cid', out), c)" "out \<notin> {ClaimAmbiguous, ClaimDone}" "p1 = p\<lparr>PClaimStore := c\<rparr>"
    using assms(1,3) by (auto simp: open_claim_def split: prod.splits sum.splits claim_outcome.splits)
  from open_fresh [OF o(1,2)] assms(2) o(3) once_open_claim [OF assms] False show ?thesis
    by (auto simp: once_def effects_def note_tool_call_def)
qed

lemma once_complete: "PClaims cf = Some cs \<Longrightarrow> once c0 p \<Longrightarrow> once c0 (complete_claim cf iv r cid out ce p)"
  by (simp add: complete_claim_def Let_def once_grows complete_grows)

lemma once_finishCall:
  assumes "PClaims cf = Some cs" and "once c0 p"
  shows "once c0 (snd (finishCall cf iv r p))"
proof -
  obtain x p1 where f: "finishCall cf iv r p = (x, p1)" by (rule prod.exhaust)
  then have "once c0 p1"
  proof (cases rule: finishCall_cases)
    case refused
    then show ?thesis by (rule once_open_claim [OF assms])
  next
    case (called cid p0 out ce pc)
    have "once c0 (note_tool_call iv r pc)"
      unfolding once_shell [OF safeCall_shell [OF called(2)]] by (rule once_call [OF assms called(1)])
    then show ?thesis unfolding once_core [OF called(3)] by (rule once_complete [OF assms(1)])
  qed
  with f show ?thesis by simp
qed

lemma once_prepare: "once c0 p \<Longrightarrow> prepare cf iv p = (y, p1) \<Longrightarrow> once c0 p1"
  using prepare_core [of cf iv p] once_core by (metis snd_conv)

lemma once_gates: "once c0 p \<Longrightarrow> gates cf r p = (z, p1) \<Longrightarrow> once c0 p1"
  using gates_core [of cf r p] once_core by (metis snd_conv)

lemma once_ask_chain: "once c0 p \<Longrightarrow> ask_chain cf iv r g h p = (a, p1) \<Longrightarrow> once c0 p1"
  by (auto simp: ask_chain_def once_sessions once_stateFor split: prod.splits option.splits)

lemma once_decide: "PClaims cf = Some cs \<Longrightarrow> once c0 p \<Longrightarrow> once c0 (snd (decide cf iv r res changed engaged p))"
  using once_finishCall [of cf c0 p iv r] by (simp add: decide_def split_beta split: decision_word.split)

lemma once_chain:
  assumes "PClaims cf = Some cs" and "once c0 p2" and "ask_chain cf iv r g h p2 = (a, p3)"
  shows "once c0 (snd (case a of Inl x \<Rightarrow> (x, p3) | Inr (res, changed, engaged) \<Rightarrow> decide cf iv r res changed engaged p3))"
  using once_ask_chain [OF assms(2,3)] by (simp add: once_decide [OF assms(1)] split: sum.split prod.split)

lemma once_Execute:
  assumes "PClaims cf = Some cs" and "once c0 p"
  shows "once c0 (snd (Execute cf iv p))"
proof -
  obtain y p1 where pr: "prepare cf iv p = (y, p1)" by (rule prod.exhaust)
  note p1 = once_prepare [OF assms(2) pr]
  show ?thesis
  proof (cases y)
    case (Inr r)
    obtain z p2 where g: "gates cf r p1 = (z, p2)" by (rule prod.exhaust)
    note p2 = once_gates [OF p1 g]
    show ?thesis
    proof (cases z)
      case z: (Inr t)
      obtain g0 h r2 where t: "t = (g0, h, r2)" by (cases t)
      obtain a p3 where a: "ask_chain cf iv r2 g0 h p2 = (a, p3)" by (rule prod.exhaust)
      from once_chain [OF assms(1) p2 a] pr Inr g z t a show ?thesis by (cases a) (auto simp: Execute_def)
    qed (use pr Inr g p2 in \<open>simp add: Execute_def\<close>)
  qed (use pr p1 in \<open>simp add: Execute_def\<close>)
qed

lemma once_Approved:
  assumes "PClaims cf = Some cs" and "once c0 p"
  shows "once c0 (snd (ExecuteApproved cf iv dg p))"
proof -
  obtain y p1 where pr: "prepare cf iv p = (y, p1)" by (rule prod.exhaust)
  note p1 = once_prepare [OF assms(2) pr]
  obtain s p2 where s: "stateFor (InvSession iv) (InvAutonomy iv) p1 = (s, p2)" by (rule prod.exhaust)
  from once_finishCall [OF assms(1) once_stateFor [OF p1 s]] pr p1 s show ?thesis
    by (cases y) (simp_all add: ExecuteApproved_def)
qed

lemma once_taint_ops:
  assumes "once c0 p"
  shows "once c0 (SeedTaint sid lvl e p)" "once c0 (FoldTaint sid e p)" "once c0 (snd (TaintStateFor sid p))"
proof -
  show "once c0 (SeedTaint sid lvl e p)"
    by (cases "stateFor sid lvl p") (simp add: SeedTaint_def once_sessions once_stateFor [OF assms])
  show "once c0 (FoldTaint sid e p)"
    by (cases "stateFor sid '''' p") (simp add: FoldTaint_def once_sessions once_stateFor [OF assms])
  show "once c0 (snd (TaintStateFor sid p))"
    by (cases "stateFor sid '''' p") (simp add: TaintStateFor_def once_stateFor [OF assms])
qed

lemma once_op:
  assumes "PClaims cf = Some cs" and "once c0 p" and "\<And>f c. x = OpStore f \<Longrightarrow> opened c \<subseteq> opened (f c)"
  shows "once c0 (do_op cf x p)"
proof (cases x)
  case (OpStore f)
  with once_grows [OF assms(2) assms(3)] show ?thesis by simp
next
  case OpReset
  with assms(2) once_core [of "pipeline_ResetTurn p" p c0] show ?thesis by (simp add: pipeline_ResetTurn_def)
qed (simp_all add: once_Execute [OF assms(1,2)] once_Approved [OF assms(1,2)] once_taint_ops [OF assms(2)])

lemma once_ops:
  assumes "PClaims cf = Some cs" and "\<And>f c. OpStore f \<in> set ops \<Longrightarrow> opened c \<subseteq> opened (f c)" and "once c0 p"
  shows "once c0 (fold (do_op cf) ops p)"
  using assms(2,3)
proof (induction ops arbitrary: p)
  case (Cons x ops)
  have "once c0 (do_op cf x p)"
    by (rule once_op [OF assms(1) Cons.prems(2)]) (use Cons.prems(1) in auto)
  with Cons show ?case by simp
qed simp

end

end
