(* ===== verification/Effect_Claims.thy ===== *)
theory Effect_Claims
  imports Tool_Pipeline
begin

text \<open>
  The durable claim ledger behind the tool pipeline (\<^verbatim>\<open>internal/runctl/claims.go\<close>,
  \<^verbatim>\<open>internal/runctl/postgres/claims.go\<close>): the table with its uniqueness of session and digest, the
  tracker that opens and completes claims in a unit of work with the event that records them, and
  the operator's resolution. Every statement, append and commit may fail; a failed unit leaves the
  table as it was, except that a commit may fail after it took effect. The row-level policy of the table
  hides the rows of other tenants from reads and updates, and not from the check of uniqueness. The tracker is shown to keep
  the pipeline's contract \<open>claims_port\<close>.
\<close>

section \<open>The table\<close>

datatype claim_status = ClaimInFlight | ClaimCompleted | ClaimAbandoned | ClaimStatusOther string

fun claim_status_str :: "claim_status \<Rightarrow> string" where
  "claim_status_str ClaimInFlight = ''in_flight''"
| "claim_status_str ClaimCompleted = ''completed''"
| "claim_status_str ClaimAbandoned = ''abandoned''"
| "claim_status_str (ClaimStatusOther s) = s"

record claim =
  ClaimID :: uuid
  ClTenant :: uuid
  ClSession :: uuid
  ClToolID :: string
  ClDigest :: bytes
  ClStatus :: claim_status
  ClReason :: string
  CreatedAt :: timestamp
  ResolvedAt :: "timestamp option"

text \<open>
  What the ledger uses of the database and the event log: fresh identifiers, the clock, whether a
  statement fails, appending the event of a claim, and the commit, whose failure says whether the
  unit persists all the same.
\<close>

datatype claim_event = EffectClaimed uuid string | EffectClaimResolved uuid string string

record 'e claim_env =
  ceNewUUID :: "'e \<Rightarrow> uuid \<times> 'e"
  ceNow :: "'e \<Rightarrow> timestamp"
  ceStatement :: "'e \<Rightarrow> err option \<times> 'e"
  ceAppend :: "uuid \<Rightarrow> uuid \<Rightarrow> string \<Rightarrow> claim_event \<Rightarrow> 'e \<Rightarrow> err option \<times> 'e"
  ceCommit :: "'e \<Rightarrow> (err \<times> bool) option \<times> 'e"
  ceUuidString :: "uuid \<Rightarrow> string"

record 'e claim_store =
  Rows :: "claim list"
  CEnv :: 'e

definition claim_key :: "claim \<Rightarrow> uuid \<times> bytes" where
  "claim_key c = (ClSession c, ClDigest c)"

definition openOrFindClaim ::
    "'e claim_env \<Rightarrow> uuid \<Rightarrow> uuid \<Rightarrow> string \<Rightarrow> bytes \<Rightarrow> 'e claim_store \<Rightarrow> (err + claim \<times> bool) \<times> 'e claim_store" where
  "openOrFindClaim E tenantID sessionID toolID dg st =
     (case ceNewUUID E (CEnv st) of (claimID, e1) \<Rightarrow>
      (case ceStatement E e1 of
         (Some er, e2) \<Rightarrow> (Inl (Wrapped ''open claim'' er), st\<lparr>CEnv := e2\<rparr>)
       | (None, e2) \<Rightarrow>
           (case find (\<lambda>c. claim_key c = (sessionID, dg)) (Rows st) of
              None \<Rightarrow>
                (let c = \<lparr>ClaimID = claimID, ClTenant = tenantID, ClSession = sessionID, ClToolID = toolID, ClDigest = dg,
                          ClStatus = ClaimInFlight, ClReason = '''', CreatedAt = ceNow E e2, ResolvedAt = None\<rparr> in
                 (Inr (c, True), st\<lparr>Rows := Rows st @ [c], CEnv := e2\<rparr>))
            | Some _ \<Rightarrow>
                (case ceStatement E e2 of
                   (Some er, e3) \<Rightarrow>
                     (Inl (Wrapped ''open claim: read back after conflict'' (Wrapped ''scan claim'' er)), st\<lparr>CEnv := e3\<rparr>)
                 | (None, e3) \<Rightarrow>
                     (case find (\<lambda>c. ClTenant c = tenantID \<and> claim_key c = (sessionID, dg)) (Rows st) of
                        None \<Rightarrow> (Inl (Wrapped ''open claim: read back after conflict''
                                        (Err ''scan claim: no rows in result set'')), st\<lparr>CEnv := e3\<rparr>)
                      | Some c \<Rightarrow> (Inr (c, False), st\<lparr>CEnv := e3\<rparr>))))))"

text \<open>In what follows \<open>tenantID\<close> is the tenant of the unit of work.\<close>

definition settle :: "uuid \<Rightarrow> uuid \<Rightarrow> claim_status \<Rightarrow> string \<Rightarrow> timestamp \<Rightarrow> claim \<Rightarrow> claim" where
  "settle tenantID claimID status reason now c =
     (if ClTenant c = tenantID \<and> ClaimID c = claimID \<and> ClStatus c = ClaimInFlight
      then c\<lparr>ClStatus := status, ClReason := reason, ResolvedAt := Some now\<rparr> else c)"

definition resolveClaim ::
    "'e claim_env \<Rightarrow> uuid \<Rightarrow> uuid \<Rightarrow> claim_status \<Rightarrow> string \<Rightarrow> 'e claim_store \<Rightarrow> (err + claim) \<times> 'e claim_store" where
  "resolveClaim E tenantID claimID status reason st =
     (let name = ''resolve claim '' @ ceUuidString E claimID in
      if status \<noteq> ClaimCompleted \<and> status \<noteq> ClaimAbandoned
      then (Inl (Err (name @ '': status must be completed or abandoned, got '' @ quoted (claim_status_str status))), st)
      else
        (case ceStatement E (CEnv st) of
           (Some er, e1) \<Rightarrow> (Inl (Wrapped name er), st\<lparr>CEnv := e1\<rparr>)
         | (None, e1) \<Rightarrow>
             (let st1 = st\<lparr>Rows := map (settle tenantID claimID status reason (ceNow E e1)) (Rows st), CEnv := e1\<rparr> in
              case ceStatement E e1 of
                (Some er, e2) \<Rightarrow> (Inl (Wrapped (name @ '': read back'') (Wrapped ''scan claim'' er)), st1\<lparr>CEnv := e2\<rparr>)
              | (None, e2) \<Rightarrow>
                  (case find (\<lambda>c. ClTenant c = tenantID \<and> ClaimID c = claimID) (Rows st1) of
                     None \<Rightarrow> (Inl (Wrapped (name @ '': read back'') (Err ''scan claim: no rows in result set'')), st1\<lparr>CEnv := e2\<rparr>)
                   | Some c \<Rightarrow> (Inr c, st1\<lparr>CEnv := e2\<rparr>)))))"

fun insert_by_time :: "claim \<Rightarrow> claim list \<Rightarrow> claim list" where
  "insert_by_time c [] = [c]"
| "insert_by_time c (d # ds) = (if CreatedAt c < CreatedAt d then c # d # ds else d # insert_by_time c ds)"

definition listInFlightClaims :: "'e claim_env \<Rightarrow> uuid \<Rightarrow> uuid \<Rightarrow> 'e claim_store \<Rightarrow> (err + claim list) \<times> 'e claim_store" where
  "listInFlightClaims E tenantID sessionID st =
     (case ceStatement E (CEnv st) of
        (Some er, e1) \<Rightarrow> (Inl (Wrapped (''list in-flight claims for session '' @ ceUuidString E sessionID) er), st\<lparr>CEnv := e1\<rparr>)
      | (None, e1) \<Rightarrow>
          (Inr (fold insert_by_time (filter (\<lambda>c. ClTenant c = tenantID \<and> ClSession c = sessionID \<and> ClStatus c = ClaimInFlight) (Rows st)) []),
           st\<lparr>CEnv := e1\<rparr>))"

section \<open>The tracker\<close>

text \<open>A unit of work: what it did persists when it succeeds and its commit does.\<close>

definition InTenant ::
    "'e claim_env \<Rightarrow> ('e claim_store \<Rightarrow> (err + 'a) \<times> 'e claim_store) \<Rightarrow> 'e claim_store \<Rightarrow> (err + 'a) \<times> 'e claim_store" where
  "InTenant E work st =
     (case ceStatement E (CEnv st) of
        (Some er, e1) \<Rightarrow> (Inl er, st\<lparr>CEnv := e1\<rparr>)
      | (None, e1) \<Rightarrow>
          (case work (st\<lparr>CEnv := e1\<rparr>) of
             (Inl er, st1) \<Rightarrow> (Inl er, st1\<lparr>Rows := Rows st\<rparr>)
           | (Inr a, st1) \<Rightarrow>
               (case ceCommit E (CEnv st1) of
                  (None, e2) \<Rightarrow> (Inr a, st1\<lparr>CEnv := e2\<rparr>)
                | (Some (er, persisted), e2) \<Rightarrow>
                    (Inl er, st1\<lparr>Rows := if persisted then Rows st1 else Rows st, CEnv := e2\<rparr>))))"

definition append_event ::
    "'e claim_env \<Rightarrow> uuid \<Rightarrow> uuid \<Rightarrow> string \<Rightarrow> claim_event \<Rightarrow> 'a \<Rightarrow> 'e claim_store \<Rightarrow> (err + 'a) \<times> 'e claim_store" where
  "append_event E tenantID sessionID toolID ev a st =
     (case ceAppend E tenantID sessionID toolID ev (CEnv st) of
        (Some er, e1) \<Rightarrow> (Inl er, st\<lparr>CEnv := e1\<rparr>)
      | (None, e1) \<Rightarrow> (Inr a, st\<lparr>CEnv := e1\<rparr>))"

definition tracker_Open ::
    "'e claim_env \<Rightarrow> uuid \<Rightarrow> uuid \<Rightarrow> string \<Rightarrow> bytes \<Rightarrow> 'e claim_store
      \<Rightarrow> (err + uuid \<times> claim_outcome) \<times> 'e claim_store" where
  "tracker_Open E tenantID sessionID toolID dg st =
     (case InTenant E
        (\<lambda>s. case openOrFindClaim E tenantID sessionID toolID dg s of
               (Inl er, s1) \<Rightarrow> (Inl er, s1)
             | (Inr (c, created), s1) \<Rightarrow>
                 if created then append_event E tenantID sessionID toolID (EffectClaimed (ClaimID c) toolID) (c, created) s1
                 else (Inr (c, created), s1)) st of
        (Inl er, st1) \<Rightarrow> (Inl (Wrapped ''runctl: open claim'' er), st1)
      | (Inr (c, created), st1) \<Rightarrow>
          (Inr (ClaimID c,
             if created then ClaimFresh else if ClStatus c = ClaimCompleted then ClaimDone else ClaimAmbiguous), st1))"

text \<open>\<^verbatim>\<open>Complete\<close> and the operator's \<^verbatim>\<open>ResolveClaim\<close> are the same unit of work.\<close>

definition resolve_unit ::
    "'e claim_env \<Rightarrow> uuid \<Rightarrow> uuid \<Rightarrow> uuid \<Rightarrow> claim_status \<Rightarrow> string \<Rightarrow> 'e claim_store \<Rightarrow> (err + claim) \<times> 'e claim_store" where
  "resolve_unit E tenantID sessionID claimID status reason st =
     InTenant E
       (\<lambda>s. case resolveClaim E tenantID claimID status reason s of
              (Inl er, s1) \<Rightarrow> (Inl er, s1)
            | (Inr c, s1) \<Rightarrow>
                append_event E tenantID sessionID (ClToolID c)
                  (EffectClaimResolved claimID (claim_status_str status) reason) c s1) st"

definition tracker_Complete ::
    "'e claim_env \<Rightarrow> uuid \<Rightarrow> uuid \<Rightarrow> uuid \<Rightarrow> bool \<Rightarrow> string \<Rightarrow> 'e claim_store \<Rightarrow> err option \<times> 'e claim_store" where
  "tracker_Complete E tenantID sessionID claimID failed reason st =
     (case resolve_unit E tenantID sessionID claimID (if failed then ClaimAbandoned else ClaimCompleted) reason st of
        (Inl er, st1) \<Rightarrow> (Some er, st1) | (Inr c, st1) \<Rightarrow> (None, st1))"

definition control_ResolveClaim ::
    "'e claim_env \<Rightarrow> uuid \<Rightarrow> uuid \<Rightarrow> uuid \<Rightarrow> claim_status \<Rightarrow> string \<Rightarrow> 'e claim_store \<Rightarrow> (err + claim) \<times> 'e claim_store" where
  "control_ResolveClaim E tenantID sessionID claimID status reason st =
     (case resolve_unit E tenantID sessionID claimID status reason st of
        (Inl er, st1) \<Rightarrow> (Inl (Wrapped (''runctl: resolve claim '' @ ceUuidString E claimID) er), st1)
      | (Inr c, st1) \<Rightarrow> (Inr c, st1))"

definition NewClaimTracker :: "'e claim_env \<Rightarrow> 'e claim_store claims" where
  "NewClaimTracker E = \<lparr>Claims_Open = tracker_Open E, Claims_Complete = tracker_Complete E\<rparr>"

section \<open>The contract\<close>

definition claim_keys :: "'e claim_store \<Rightarrow> (uuid \<times> bytes) set" where
  "claim_keys st = set (map claim_key (Rows st))"

lemma settle_key [simp]: "claim_key (settle tn claimID status reason now c) = claim_key c"
  by (simp add: settle_def claim_key_def)

lemma open_keys: "claim_keys st \<subseteq> claim_keys (snd (openOrFindClaim E tn sid tid dg st))"
  by (auto simp: openOrFindClaim_def claim_keys_def Let_def split: prod.splits option.splits)

lemma resolve_keys: "claim_keys (snd (resolveClaim E tn cid status reason st)) = claim_keys st"
  by (simp add: resolveClaim_def claim_keys_def Let_def image_image split: prod.split option.split)

lemma append_keys [simp]: "claim_keys (snd (append_event E tn sid tid ev a st)) = claim_keys st"
  by (simp add: append_event_def claim_keys_def split: prod.split option.split)

lemma claim_keys_env [simp]: "claim_keys (st\<lparr>CEnv := e\<rparr>) = claim_keys st"
  by (simp add: claim_keys_def)

lemma InTenant_keys:
  assumes "\<And>s. claim_keys s \<subseteq> claim_keys (snd (work s))"
  shows "claim_keys st \<subseteq> claim_keys (snd (InTenant E work st))"
proof -
  obtain f e1 where s: "ceStatement E (CEnv st) = (f, e1)" by (rule prod.exhaust)
  obtain x st1 where w: "work (st\<lparr>CEnv := e1\<rparr>) = (x, st1)" by (rule prod.exhaust)
  have k: "claim_keys st \<subseteq> claim_keys st1" using assms [of "st\<lparr>CEnv := e1\<rparr>"] w by simp
  have r: "claim_keys (st1\<lparr>Rows := Rows st, CEnv := e\<rparr>) = claim_keys st" "claim_keys (st1\<lparr>Rows := Rows st\<rparr>) = claim_keys st"
    "claim_keys (st1\<lparr>Rows := Rows st1, CEnv := e\<rparr>) = claim_keys st1" for e by (simp_all add: claim_keys_def)
  show ?thesis using k r
    by (simp add: InTenant_def s w split: option.split sum.split prod.split)
qed

lemma resolve_unit_keys: "claim_keys st \<subseteq> claim_keys (snd (resolve_unit E tn sid cid status reason st))"
  unfolding resolve_unit_def
proof (rule InTenant_keys)
  fix s
  show "claim_keys s \<subseteq> claim_keys (snd (case resolveClaim E tn cid status reason s of (Inl er, s1) \<Rightarrow> (Inl er, s1)
      | (Inr c, s1) \<Rightarrow> append_event E tn sid (ClToolID c) (EffectClaimResolved cid (claim_status_str status) reason) c s1))"
    using resolve_keys [of E tn cid status reason s] by (auto split: prod.split sum.split)
qed

lemma control_ResolveClaim_keys: "claim_keys st \<subseteq> claim_keys (snd (control_ResolveClaim E tn sid cid status reason st))"
  using resolve_unit_keys [of st E tn sid cid status reason] by (auto simp: control_ResolveClaim_def split: prod.split sum.split)


lemma InTenant_Inr:
  assumes "InTenant E work st = (Inr a, st')"
  obtains e1 st1 e2 where "work (st\<lparr>CEnv := e1\<rparr>) = (Inr a, st1)" "st' = st1\<lparr>CEnv := e2\<rparr>"
  using assms by (auto simp: InTenant_def split: prod.splits option.splits sum.splits)

lemma tracker_Open_keys: "claim_keys st \<subseteq> claim_keys (snd (tracker_Open E tn sid tid dg st))"
proof -
  let ?work = "\<lambda>s. case openOrFindClaim E tn sid tid dg s of (Inl er, s1) \<Rightarrow> (Inl er, s1)
    | (Inr (c, created), s1) \<Rightarrow>
        if created then append_event E tn sid tid (EffectClaimed (ClaimID c) tid) (c, created) s1 else (Inr (c, created), s1)"
  have "claim_keys s \<subseteq> claim_keys (snd (?work s))" for s
  proof -
    obtain x s1 where x: "openOrFindClaim E tn sid tid dg s = (x, s1)" by (rule prod.exhaust)
    then have "claim_keys s \<subseteq> claim_keys s1" using open_keys [of s E tn sid tid dg] by simp
    with x show ?thesis by (simp split: sum.split)
  qed
  from InTenant_keys [of ?work, OF this] have "claim_keys st \<subseteq> claim_keys (snd (InTenant E ?work st))" .
  then show ?thesis by (auto simp: tracker_Open_def split: prod.split sum.split)
qed

lemma tracker_Open_fresh:
  assumes "tracker_Open E tn sid tid dg st = (Inr (cid, out), st')" and "out \<notin> {ClaimAmbiguous, ClaimDone}"
  shows "(sid, dg) \<notin> claim_keys st \<and> (sid, dg) \<in> claim_keys st'"
proof -
  let ?work = "\<lambda>s. case openOrFindClaim E tn sid tid dg s of (Inl er, s1) \<Rightarrow> (Inl er, s1)
    | (Inr (c, created), s1) \<Rightarrow>
        if created then append_event E tn sid tid (EffectClaimed (ClaimID c) tid) (c, created) s1 else (Inr (c, created), s1)"
  obtain y where y: "InTenant E ?work st = (Inr y, st')" "snd y"
    using assms by (auto simp: tracker_Open_def split: prod.splits sum.splits if_splits)
  from y(1) obtain e1 st1 e2 where w: "?work (st\<lparr>CEnv := e1\<rparr>) = (Inr y, st1)" "st' = st1\<lparr>CEnv := e2\<rparr>"
    by (rule InTenant_Inr)
  then obtain c s1 where o: "openOrFindClaim E tn sid tid dg (st\<lparr>CEnv := e1\<rparr>) = (Inr (c, True), s1)"
      and a: "append_event E tn sid tid (EffectClaimed (ClaimID c) tid) (c, True) s1 = (Inr y, st1)"
    using y(2) by (auto split: prod.splits sum.splits if_splits)
  have "(sid, dg) \<notin> claim_keys st \<and> (sid, dg) \<in> claim_keys s1"
    using o by (auto simp: openOrFindClaim_def claim_keys_def claim_key_def find_None_iff Let_def
        split: prod.splits option.splits)
  moreover have "claim_keys st1 = claim_keys s1" using append_keys [of E tn sid tid _ _ s1] a by (metis snd_conv)
  ultimately show ?thesis using w(2) by simp
qed

interpretation tracker: claims_port "NewClaimTracker E" claim_keys
proof
  show "claim_keys c \<subseteq> claim_keys (snd (Claims_Open (NewClaimTracker E) tn sid tid dg c))" for c tn sid tid dg
    by (simp add: NewClaimTracker_def tracker_Open_keys)
  show "(sid, dg) \<notin> claim_keys c \<and> (sid, dg) \<in> claim_keys c'"
    if "Claims_Open (NewClaimTracker E) tn sid tid dg c = (Inr (cid, out), c')" "out \<notin> {ClaimAmbiguous, ClaimDone}"
    for tn sid tid dg c cid out c'
    using that by (simp add: NewClaimTracker_def tracker_Open_fresh)
  show "claim_keys c \<subseteq> claim_keys (snd (Claims_Complete (NewClaimTracker E) tn sid cid failed reason c))"
    for c tn sid cid failed reason
    using resolve_unit_keys [of c E tn sid cid "if failed then ClaimAbandoned else ClaimCompleted" reason]
    by (auto simp: NewClaimTracker_def tracker_Complete_def split: prod.split sum.split)
qed

end
