(* ===== verification/Tool_Theorems.thy ===== *)
theory Tool_Theorems
  imports Effect_Claims
begin

text \<open>
  What the tool pipeline guarantees with its claim ledger: every effect at most once, no call
  without an admitted tool and the chain's permission, an approved call only for the digest that
  was approved, no effect in a read-only session, and taint that only grows, by what the result
  reports and by what the called tool folds in. The witnesses run a pipeline with one pinned tool.
\<close>

section \<open>What the ledger guarantees\<close>

text \<open>What an operator or a probe may do to the ledger between invocations.\<close>

definition resolution_op :: "'e claim_env \<Rightarrow> 'e claim_store pipeline_op \<Rightarrow> bool" where
  "resolution_op E x =
     (case x of OpStore f \<Rightarrow> (\<exists>tn sid cid status reason. f = (\<lambda>st. snd (control_ResolveClaim E tn sid cid status reason st))) | _ \<Rightarrow> True)"

text \<open>
  C9: every effect happens at most once. Over any sequence of invocations, approved calls, taint
  operations and resolutions of claims by an operator, no two calls with an effect have the same
  session and digest, and none repeats a call claimed before the pipeline started; whatever fails
  in the database in between.
\<close>

theorem effects_at_most_once:
  assumes "PClaims cf = Some (NewClaimTracker E)" and "list_all (resolution_op E) ops" and "Calls p = []"
  shows "distinct (effects (fold (do_op cf) ops p)) \<and>
    set (effects (fold (do_op cf) ops p)) \<inter> claim_keys (PClaimStore p) = {}"
proof -
  have "tracker.once (PClaimStore p) (fold (do_op cf) ops p)"
  proof (rule tracker.once_ops [OF assms(1)])
    show "claim_keys c \<subseteq> claim_keys (f c)" if "OpStore f \<in> set ops" for f c
      using assms(2) that control_ResolveClaim_keys [of c E] by (fastforce simp: list_all_iff resolution_op_def)
    show "tracker.once (PClaimStore p) p" using assms(3) by (simp add: tracker.once_def effects_def)
  qed
  then show ?thesis by (auto simp: tracker.once_def)
qed


definition demo_claims :: "nat claim_env" where
  "demo_claims = \<lparr>ceNewUUID = (\<lambda>e. (e + 1, e + 1)), ceNow = int, ceStatement = (\<lambda>e. (None, e)),
     ceAppend = (\<lambda>_ _ _ _ e. (None, e)), ceCommit = (\<lambda>e. (None, e)), ceUuidString = dec_nat\<rparr>"

definition demo_store :: "nat claim_store" where
  "demo_store = \<lparr>Rows = [], CEnv = 0\<rparr>"

definition demo_config :: "(nat, nat claim_store) pipeline_config" where
  "demo_config = \<lparr>PManifest = BuildManifest demo_registry 0, HookConfigs = [], BlobDir = ''/blobs'', DerivedArtifacts = None,
     WorkspaceRoot = '''', SandboxFactory = None, PClaims = Some (NewClaimTracker demo_claims),
     Dynamic = None, HookEnv = \<lparr>hookClock = (\<lambda>w. 0), digestHex = (\<lambda>b. b)\<rparr>,
     SafetyNow = (\<lambda>w. 0), SafetyLater = (\<lambda>w. 0), MkdirAll = (\<lambda>_ w. (None, w)), WriteFile = (\<lambda>_ _ w. (None, w)),
     NewUUID = (\<lambda>w. (w, w)), UuidString = dec_nat\<rparr>"

definition demo_chain :: chain where
  "demo_chain = NewChain [] [NewToolProfile ''p'' 1 [''platform/shell@v1'']] Map.empty
     [\<lparr>ScopeName = ''s'', ToolPattern = ''platform/*''\<rparr>] (Some (NewClassifier [] (Some (\<lambda>_ _. LegAnswer ''defer'' ''''))))"

definition demo_pipeline :: "(nat, nat claim_store) pipeline" where
  "demo_pipeline = NewPipeline 0 demo_store demo_registry demo_chain None"

definition demo_invocation :: "string \<Rightarrow> invocation" where
  "demo_invocation lvl = \<lparr>InvTenant = 7, InvSession = 8, InvToolName = ''platform/shell@v1'', InvInput = ''{}'', InvAutonomy = lvl\<rparr>"

definition demo_digest :: bytes where
  "demo_digest = sha256 (call_payload ''platform/shell@v1'' (JObj []))"

definition demo_prepared :: "nat prepared" where
  "demo_prepared = \<lparr>PrRef = demo_ref, PrTool = demo_tool, PrDescriptor = demo_descriptor, PrepInput = ''{}'',
     PrRc = run_context_for demo_config (demo_invocation ''''), PrDigest = demo_digest\<rparr>"

lemma demo_digest_is: "Canonical_Digest ''platform/shell@v1'' ''{}'' = Inr demo_digest"
proof -
  have "input_value ''{}'' = Inr (JObj [])" by code_simp
  then show ?thesis by (simp add: Canonical_Digest_value demo_digest_def)
qed

lemma demo_fields [simp]:
  "InvTenant (demo_invocation lvl) = 7" "InvSession (demo_invocation lvl) = 8" "InvInput (demo_invocation lvl) = ''{}''"
  "InvToolName (demo_invocation lvl) = ''platform/shell@v1''" "InvAutonomy (demo_invocation lvl) = lvl"
  "ValidateInput demo_tool inp rc w = (None, w)" "Descriptor demo_tool w = demo_descriptor"
  by (simp_all add: demo_invocation_def demo_tool_def)

lemma demo_manifest:
  "manifest_Resolve (PManifest demo_config) demo_ref = Some \<lparr>PinnedID = demo_ref, DescriptorDigest = descriptorDigest demo_descriptor\<rparr>"
  using manifest_pins [OF reg_built_ok [OF demo_registry_built], of 0 demo_ref] demo_registry_lookup
  by (simp add: demo_config_def demo_tool_def)

lemma demo_prepare:
  assumes "PRegistry p = demo_registry"
  shows "prepare demo_config (demo_invocation lvl) p = (Inr demo_prepared, p)"
proof -
  have ref: "ParseToolRef ''platform/shell@v1'' = Inr demo_ref" by code_simp
  have str: "ref_String demo_ref = ''platform/shell@v1''" by code_simp
  have rc: "run_context_for demo_config (demo_invocation lvl) = run_context_for demo_config (demo_invocation '''')"
    by (simp add: run_context_for_def)
  have "resolveTool demo_config 7 8 demo_ref p = (Inr (demo_tool, demo_descriptor, False), p)"
    by (simp add: resolveTool_def demo_manifest assms demo_registry_lookup Let_def)
  moreover have "checked_call demo_config (demo_invocation lvl) demo_ref demo_tool demo_descriptor p = (Inr demo_prepared, p)"
    by (simp add: checked_call_def rc str demo_digest_is demo_prepared_def Let_def)
  ultimately show ?thesis by (simp add: prepare_def ref assms demo_registry_lookup Let_def)
qed

lemma demo_registered [simp]: "PRegistry demo_pipeline = demo_registry"
  by (simp add: demo_pipeline_def NewPipeline_def)

lemma demo_gates:
  "PHooks p = None \<Longrightarrow> gates demo_config demo_prepared p = (Inr (outcome Defer '''', outcome Defer '''', demo_prepared), p)"
  by (simp add: gates_def run_hooks_def demo_prepared_def demo_tool_def to_decision_def toLayerOutcome_def no_hook_outcome_def Let_def)

definition demo_session :: session_state where
  "demo_session = \<lparr>s_autonomy = Pin AutonomyAutonomous, taintState = clean_taint\<rparr>"

definition demo_request :: chain_request where
  "demo_request = \<lparr>ReqToolID = ''platform/shell@v1'', ReqNamespace = ''platform'', ReqEffect = EffectMutating,
     ReqTaint = DefaultTaint, ReqInput = ''{}'', ReqAutonomy = Some (Pin AutonomyAutonomous), HookOutcome = outcome Defer '''',
     Gate2 = outcome Defer '''', ReqTaintState = clean_taint\<rparr>"

lemma demo_request_is: "request_for demo_prepared (outcome Defer '''') (outcome Defer '''') demo_session w = demo_request"
  by (simp add: request_for_def demo_prepared_def demo_request_def demo_session_def demo_tool_def demo_ref_def demo_descriptor_def
        ref_String_def)

lemma demo_allowed:
  "\<exists>res c. Permissions.Resolve demo_chain 0 0 demo_request = ((res, None), c) \<and> RDecision (Res res) = Allow"
proof -
  have "(case Permissions.Resolve demo_chain 0 0 demo_request of ((r, er), _) \<Rightarrow> (er, RDecision (Res r))) = (None, Allow)"
    by code_simp
  then show ?thesis by (auto split: prod.splits)
qed

lemma demo_finish:
  assumes "PClaimStore p = demo_store"
  shows "Calls (snd (finishCall demo_config iv demo_prepared p)) = Calls p @ [call_of iv demo_prepared] \<and>
    Folds (snd (finishCall demo_config iv demo_prepared p)) = Folds p @ [(8, (True, False, False))]"
proof -
  have "\<exists>c. tracker_Open demo_claims tn sid tid dg demo_store = (Inr (1, ClaimFresh), c)" for tn sid tid dg
    by (simp add: tracker_Open_def InTenant_def openOrFindClaim_def append_event_def demo_claims_def demo_store_def Let_def)
  then obtain c where o: "tracker_Open demo_claims (InvTenant iv) (InvSession iv) (ref_String (PrRef demo_prepared))
      (PrDigest demo_prepared) demo_store = (Inr (1, ClaimFresh), c)" by blast
  have eff: "DescEffect (PrDescriptor demo_prepared) \<noteq> EffectReadOnly" by (simp add: demo_prepared_def demo_descriptor_def)
  have oc: "open_claim demo_config iv demo_prepared p = (Inr 1, p\<lparr>PClaimStore := c\<rparr>)"
    using o eff assms by (simp add: open_claim_def demo_config_def NewClaimTracker_def)
  have call: "ToolCall (PrTool demo_prepared) inp (PrRc demo_prepared) w = FoldInto 8 (True, False, False)
      (ToolDone (Returned (no_call_result\<lparr>CallOutput := inp\<rparr>) None) (w + 1))" for inp w
    by (simp add: demo_prepared_def demo_tool_def run_context_for_def)
  obtain y p1 where f: "finishCall demo_config iv demo_prepared p = (y, p1)" by (rule prod.exhaust)
  then have "Calls p1 = Calls p @ [call_of iv demo_prepared] \<and> Folds p1 = Folds p @ [(8, (True, False, False))]"
  proof (cases rule: finishCall_cases)
    case refused
    with oc show ?thesis by simp
  next
    case (called cid p0 out ce pc)
    have "Folds pc = Folds p0 @ [(8, (True, False, False))]"
      using called(2) by (auto simp: safeCall_def call note_fold_def taint_ops_Folds)
    with called open_claim_core [OF called(1)] safeCall_shell [OF called(2)] show ?thesis
      by (simp add: core_def shell_def complete_claim_core note_tool_call_def call_of_def)
  qed
  with f show ?thesis by simp
qed

lemma demo_Execute:
  "Calls (snd (Execute demo_config (demo_invocation ''autonomous'') demo_pipeline)) = [call_of (demo_invocation ''autonomous'') demo_prepared] \<and>
   Folds (snd (Execute demo_config (demo_invocation ''autonomous'') demo_pipeline)) = [(8, (True, False, False))]"
proof -
  obtain res c where res: "Permissions.Resolve demo_chain 0 0 demo_request = ((res, None), c)" "RDecision (Res res) = Allow"
    using demo_allowed by blast
  have "ParseAutonomyLevel ''autonomous'' = (AutonomyAutonomous, None)" by code_simp
  then have s: "stateFor 8 ''autonomous'' demo_pipeline = (demo_session, demo_pipeline\<lparr>Sessions := [8 \<mapsto> demo_session]\<rparr>)"
    by (simp add: stateFor_def demo_pipeline_def NewPipeline_def demo_session_def Let_def)
  let ?p3 = "demo_pipeline\<lparr>Sessions := [8 \<mapsto> demo_session], PChain := c, Sessions := [8 \<mapsto> demo_session\<lparr>taintState := ResTaint res\<rparr>]\<rparr>"
  have "ask_chain demo_config (demo_invocation ''autonomous'') demo_prepared (outcome Defer '''') (outcome Defer '''') demo_pipeline
      = (Inr (Res res, legs_of (taintState demo_session) \<noteq> legs_of (ResTaint res), legs_of (ResTaint res)), ?p3)"
    using s res(1) by (simp add: ask_chain_def demo_request_is) (simp add: demo_config_def demo_pipeline_def NewPipeline_def)
  moreover have "gates demo_config demo_prepared demo_pipeline = (Inr (outcome Defer '''', outcome Defer '''', demo_prepared), demo_pipeline)"
    by (rule demo_gates) (simp add: demo_pipeline_def NewPipeline_def)
  moreover have "PClaimStore ?p3 = demo_store" "Calls ?p3 = []" "Folds ?p3 = []" by (simp_all add: demo_pipeline_def NewPipeline_def)
  moreover note demo_finish [of ?p3 "demo_invocation ''autonomous''"]
  ultimately show ?thesis using res(2) by (simp add: Execute_def demo_prepare decide_def split_beta)
qed

theorem effects_at_most_once_witness:
  "distinct (effects (fold (do_op demo_config)
      [OpExecute (demo_invocation ''autonomous''), OpApproved (demo_invocation ''autonomous'') demo_digest] demo_pipeline))"
  using effects_at_most_once [of demo_config demo_claims
      "[OpExecute (demo_invocation ''autonomous''), OpApproved (demo_invocation ''autonomous'') demo_digest]" demo_pipeline]
  by (simp add: demo_config_def demo_pipeline_def NewPipeline_def resolution_op_def)


lemma asked_session:
  assumes "prepare cf iv p = (Inr r, p1)" and "gates cf r p1 = (Inr y, p2)"
    and "stateFor (InvSession iv) (InvAutonomy iv) p2 = (s, p0)"
  shows "s = fst (stateFor (InvSession iv) (InvAutonomy iv) p)"
proof -
  have "Sessions p2 = Sessions p" using prepare_core [of cf iv p] gates_core [of cf r p1] assms(1,2) by (simp add: core_def)
  with assms(3) show ?thesis by (auto simp: stateFor_def Let_def split: option.splits)
qed

text \<open>
  C10: no call without permission. When an invocation makes a call at all it makes one, of a tool
  that is admitted: the registered one, clean and with its descriptor as pinned, or the one the dynamic
  resolver handed out. It is bound to the digest of exactly the input it is given, and the permission
  chain resolved that request to allow: the request with that input, with what the tool's own gate and
  the hooks answered on the way, neither of them a denial, and with the session's autonomy and taint.
\<close>

theorem a_call_was_allowed:
  assumes "Execute cf iv p = (x, p')" and "Calls p' \<noteq> Calls p"
  shows "\<exists>r gate2 ho p2 res c. Calls p' = Calls p @ [call_of iv r] \<and> bound r \<and> admitted cf iv p r \<and>
    ref_String (PrRef r) = InvToolName iv \<and>
    gated cf iv p r gate2 ho p2 \<and> LDecision gate2 \<noteq> Deny \<and> LDecision ho \<noteq> Deny \<and>
    Permissions.Resolve (PChain p) (SafetyNow cf (PWorld p2)) (SafetyLater cf (PWorld p2))
      (request_for r gate2 ho (fst (stateFor (InvSession iv) (InvAutonomy iv) p)) (PWorld p2)) = ((res, None), c) \<and>
    RDecision (Res res) = Allow"
proof -
  obtain r g h r2 p1 p2 s p0 res c where e: "prepare cf iv p = (Inr r, p1)" "gates cf r p1 = (Inr (g, h, r2), p2)"
      "stateFor (InvSession iv) (InvAutonomy iv) p2 = (s, p0)"
      "Permissions.Resolve (PChain p) (SafetyNow cf (PWorld p2)) (SafetyLater cf (PWorld p2)) (request_for r2 g h s (PWorld p2))
         = ((res, None), c)" "RDecision (Res res) = Allow" "Calls p' = Calls p @ [call_of iv r2]"
    using assms by (rule Execute_called) blast
  have r: "bound r" "admitted cf iv p r" "ref_String (PrRef r) = InvToolName iv"
    using prepare_ok [OF e(1)] ParseToolRef_Inr by blast+
  with gates_ok [OF e(2)] have "bound r2" "admitted cf iv p r2" "ref_String (PrRef r2) = InvToolName iv"
    by (auto simp: admitted_def split: option.splits)
  moreover have "s = fst (stateFor (InvSession iv) (InvAutonomy iv) p)" using asked_session [OF e(1-3)] .
  moreover have "LDecision g \<noteq> Deny \<and> LDecision h \<noteq> Deny"
    using chain_heeds_gates [OF e(4)] e(5) by (simp add: request_for_def)
  ultimately show ?thesis using e(4-6) gates_gated [OF e(1,2)] by blast
qed

theorem a_call_was_allowed_witness:
  "\<exists>r gate2 ho p2. gated demo_config (demo_invocation ''autonomous'') demo_pipeline r gate2 ho p2 \<and> PrTool r = demo_tool \<and> bound r \<and>
     admitted demo_config (demo_invocation ''autonomous'') demo_pipeline r \<and>
     manifest_Resolve (PManifest demo_config) (PrRef r) \<noteq> None"
proof -
  obtain x p' where e: "Execute demo_config (demo_invocation ''autonomous'') demo_pipeline = (x, p')" by (rule prod.exhaust)
  then have "Calls p' \<noteq> Calls demo_pipeline" using demo_Execute by (simp add: demo_pipeline_def NewPipeline_def)
  from a_call_was_allowed [OF e this] obtain r gate2 ho p2 where
    r: "gated demo_config (demo_invocation ''autonomous'') demo_pipeline r gate2 ho p2" "bound r"
      "admitted demo_config (demo_invocation ''autonomous'') demo_pipeline r" by blast
  from r(1) obtain inp dg where "r = demo_prepared\<lparr>PrepInput := inp, PrDigest := dg\<rparr>" by (auto simp: gated_def demo_prepare)
  then have "PrTool r = demo_tool" "manifest_Resolve (PManifest demo_config) (PrRef r) \<noteq> None"
    by (simp_all add: demo_prepared_def demo_manifest)
  with r show ?thesis by blast
qed

text \<open>What an invocation that waits for an approval was asking about, after the hooks.\<close>

definition asked_about :: "('w, 'c) pipeline_config \<Rightarrow> invocation \<Rightarrow> ('w, 'c) pipeline \<Rightarrow> 'w prepared \<Rightarrow> bool" where
  "asked_about cf iv p r \<longleftrightarrow> (\<exists>r1 p1 g h p2. prepare cf iv p = (Inr r1, p1) \<and> gates cf r1 p1 = (Inr (g, h, r), p2))"

lemma finishCall_never_asks: "\<not> XAwaitingApproval (fst (finishCall cf iv r p))"
  by (auto simp: finishCall_def open_claim_def deliver_def errorResult_def zero_result_def Let_def
        split: prod.splits sum.splits option.splits claim_outcome.splits if_splits)

lemma Execute_asked:
  assumes "Execute cf iv p = (x, p')" and "XAwaitingApproval x"
  shows "\<exists>r. asked_about cf iv p r \<and> bound r \<and> XCanonicalDigest x = PrDigest r"
proof -
  obtain y p1 where pr: "prepare cf iv p = (y, p1)" by (rule prod.exhaust)
  have quiet: "\<not> XAwaitingApproval x" if "y = Inl x" for x
    using that pr by (auto simp: prepare_def resolveTool_def checked_call_def errorResult_def zero_result_def Let_def
        split: sum.splits prod.splits option.splits if_splits)
  then obtain r where r: "y = Inr r" using assms pr by (cases y) (auto simp: Execute_def)
  obtain z p2 where g: "gates cf r p1 = (z, p2)" by (rule prod.exhaust)
  have "\<not> XAwaitingApproval x" if "z = Inl x" for x
    using that g by (auto simp: gates_def errorResult_def zero_result_def Let_def split: sum.splits prod.splits option.splits)
  then obtain g0 h r2 where z: "z = Inr (g0, h, r2)" using assms pr r g by (cases z) (auto simp: Execute_def)
  obtain a p3 where a: "ask_chain cf iv r2 g0 h p2 = (a, p3)" by (rule prod.exhaust)
  then have "\<not> XAwaitingApproval x" if "a = Inl x" for x
    using that by (auto simp: ask_chain_def errorResult_def zero_result_def split: prod.splits option.splits)
  then obtain res changed engaged where d: "decide cf iv r2 res changed engaged p3 = (x, p')"
    using assms pr r g z a by (cases a) (auto simp: Execute_def)
  have "XCanonicalDigest x = PrDigest r2"
    using d assms(2) finishCall_never_asks [of cf iv r2 p3]
    by (auto simp: decide_def errorResult_def zero_result_def split: decision_word.splits prod.splits)
  with pr r g z gates_ok [OF g [unfolded z]] prepare_ok [OF pr [unfolded r]] show ?thesis by (auto simp: asked_about_def)
qed

text \<open>
  C11: an approved call is the one that was asked about. A resumed invocation makes a call only when
  its own tool and input have the approved digest; then its tool, and the value of its input, are
  those of the question the approval answers, with the hooks' rewrites of that time included,
  unless the two are a collision of SHA-256. An input a hook rewrote can therefore not be resumed
  with the input the model gave.
\<close>

theorem an_approved_call_is_the_one_asked_about:
  assumes "Execute cf0 iv0 p0 = (x0, p0')" and "XAwaitingApproval x0"
    and "ExecuteApproved cf iv (XCanonicalDigest x0) p = (x, p')" and "Calls p' \<noteq> Calls p"
  shows "Canonical_Digest (InvToolName iv) (InvInput iv) = Inr (XCanonicalDigest x0) \<and>
    (\<exists>c r0 v u. Calls p' = Calls p @ [c] \<and> TcTool c = InvToolName iv \<and> asked_about cf0 iv0 p0 r0 \<and>
       input_value (TcInput c) = Inr v \<and> input_value (PrepInput r0) = Inr u \<and>
       ((TcTool c = ref_String (PrRef r0) \<and> v = u) \<or> collide (call_payload (TcTool c) v) (call_payload (ref_String (PrRef r0)) u)))"
proof -
  obtain r0 where r0: "asked_about cf0 iv0 p0 r0" "bound r0" "XCanonicalDigest x0 = PrDigest r0"
    using Execute_asked [OF assms(1,2)] by blast
  obtain r p1 where r: "prepare cf iv p = (Inr r, p1)" "PrDigest r = XCanonicalDigest x0" "Calls p' = Calls p @ [call_of iv r]"
    using assms(3,4) by (rule ExecuteApproved_called) blast
  have ok: "bound r" "ref_String (PrRef r) = InvToolName iv" "PrepInput r = (if InvInput iv = '''' then ''{}'' else InvInput iv)"
    using prepare_ok [OF r(1)] ParseToolRef_Inr by blast+
  then have dg: "Canonical_Digest (InvToolName iv) (PrepInput r) = Inr (XCanonicalDigest x0)" using r(2) by (simp add: bound_def)
  moreover have "Canonical_Digest (InvToolName iv) (InvInput iv) = Canonical_Digest (InvToolName iv) (PrepInput r)"
    using ok(3) by (simp add: Canonical_Digest_def)
  moreover have "Canonical_Digest (ref_String (PrRef r0)) (PrepInput r0) = Inr (XCanonicalDigest x0)"
    using r0(2,3) by (simp add: bound_def)
  from digest_binds [OF dg this] obtain v u where "input_value (PrepInput r) = Inr v" "input_value (PrepInput r0) = Inr u"
      "(InvToolName iv = ref_String (PrRef r0) \<and> v = u) \<or> collide (call_payload (InvToolName iv) v) (call_payload (ref_String (PrRef r0)) u)"
    by blast
  ultimately show ?thesis using r(3) r0(1) ok(2) by (intro conjI exI [of _ "call_of iv r"] exI [of _ r0] exI [of _ v] exI [of _ u])
      (simp_all add: call_of_def)
qed


definition demo_asking :: "(nat, nat claim_store) pipeline" where
  "demo_asking = NewPipeline 0 demo_store demo_registry (demo_chain\<lparr>StandingScopes := []\<rparr>) None"

lemma demo_asks:
  "\<exists>x p'. Execute demo_config (demo_invocation ''autonomous'') demo_asking = (x, p') \<and> XAwaitingApproval x \<and> XCanonicalDigest x = demo_digest"
proof -
  have "(case Permissions.Resolve (demo_chain\<lparr>StandingScopes := []\<rparr>) 0 0 demo_request of ((r, er), _) \<Rightarrow> (er, RDecision (Res r))) = (None, Ask)"
    by code_simp
  then obtain res c where res: "Permissions.Resolve (demo_chain\<lparr>StandingScopes := []\<rparr>) 0 0 demo_request = ((res, None), c)"
      "RDecision (Res res) = Ask" by (auto split: prod.splits)
  have "ParseAutonomyLevel ''autonomous'' = (AutonomyAutonomous, None)" by code_simp
  then have s: "stateFor 8 ''autonomous'' demo_asking = (demo_session, demo_asking\<lparr>Sessions := [8 \<mapsto> demo_session]\<rparr>)"
    by (simp add: stateFor_def demo_asking_def NewPipeline_def demo_session_def Let_def)
  have "\<exists>p3. ask_chain demo_config (demo_invocation ''autonomous'') demo_prepared (outcome Defer '''') (outcome Defer '''') demo_asking
      = (Inr (Res res, legs_of (taintState demo_session) \<noteq> legs_of (ResTaint res), legs_of (ResTaint res)), p3)"
    using s res(1) by (simp add: ask_chain_def demo_request_is) (simp add: demo_config_def demo_asking_def NewPipeline_def)
  moreover have "gates demo_config demo_prepared demo_asking = (Inr (outcome Defer '''', outcome Defer '''', demo_prepared), demo_asking)"
    by (rule demo_gates) (simp add: demo_asking_def NewPipeline_def)
  moreover have "PrDigest demo_prepared = demo_digest" by (simp add: demo_prepared_def)
  moreover have "PRegistry demo_asking = demo_registry" by (simp add: demo_asking_def NewPipeline_def)
  ultimately show ?thesis using res(2) by (auto simp: Execute_def demo_prepare decide_def zero_result_def)
qed

lemma demo_approved:
  "\<exists>x p'. ExecuteApproved demo_config (demo_invocation ''autonomous'') demo_digest demo_pipeline = (x, p') \<and> Calls p' \<noteq> Calls demo_pipeline"
proof -
  obtain s p1 where s: "stateFor 8 ''autonomous'' demo_pipeline = (s, p1)" by (rule prod.exhaust)
  then obtain S where p1: "p1 = demo_pipeline\<lparr>Sessions := S\<rparr>" using stateFor_cases(1) by blast
  have "Calls (snd (finishCall demo_config (demo_invocation ''autonomous'') demo_prepared p1)) = Calls p1 @ [call_of (demo_invocation ''autonomous'') demo_prepared]"
    using demo_finish [of p1] by (simp add: p1 demo_pipeline_def NewPipeline_def)
  moreover have "PrDigest demo_prepared = demo_digest" by (simp add: demo_prepared_def)
  ultimately show ?thesis
    using s p1 by (cases "finishCall demo_config (demo_invocation ''autonomous'') demo_prepared p1")
      (simp add: ExecuteApproved_def demo_prepare)
qed

theorem an_approved_call_is_the_one_asked_about_witness:
  "Canonical_Digest ''platform/shell@v1'' ''{}'' = Inr demo_digest \<and> (\<exists>r0. asked_about demo_config (demo_invocation ''autonomous'') demo_asking r0)"
proof -
  obtain x0 p0 where a: "Execute demo_config (demo_invocation ''autonomous'') demo_asking = (x0, p0)" "XAwaitingApproval x0"
      "XCanonicalDigest x0 = demo_digest" using demo_asks by blast
  obtain x p' where e: "ExecuteApproved demo_config (demo_invocation ''autonomous'') (XCanonicalDigest x0) demo_pipeline = (x, p')"
      "Calls p' \<noteq> Calls demo_pipeline" using demo_approved a(3) by auto
  from an_approved_call_is_the_one_asked_about [OF a(1,2) e] a(3) show ?thesis by auto
qed

text \<open>
  C32: a session pinned to read-only gets no effect out of the pipeline: whatever the tools, the hooks
  and the approval policy say, the one call an invocation of it can make is of a read-only tool. A
  session is pinned when it is first seen; an unknown autonomy level pins it to read-only.
\<close>

theorem read_only_session_has_no_effects:
  assumes "level (s_autonomy (fst (stateFor (InvSession iv) (InvAutonomy iv) p))) = AutonomyReadOnly"
  shows "effects (snd (Execute cf iv p)) = effects p"
proof (cases "Calls (snd (Execute cf iv p)) = Calls p")
  case False
  obtain x p' where e: "Execute cf iv p = (x, p')" by (rule prod.exhaust)
  with False have "Calls p' \<noteq> Calls p" by simp
  then obtain r g h r2 p1 p2 s p0 res c where c: "prepare cf iv p = (Inr r, p1)" "gates cf r p1 = (Inr (g, h, r2), p2)"
      "stateFor (InvSession iv) (InvAutonomy iv) p2 = (s, p0)"
      "Permissions.Resolve (PChain p) (SafetyNow cf (PWorld p2)) (SafetyLater cf (PWorld p2)) (request_for r2 g h s (PWorld p2))
         = ((res, None), c)" "RDecision (Res res) = Allow" "Calls p' = Calls p @ [call_of iv r2]"
    using e by (elim Execute_called) blast
  have "s = fst (stateFor (InvSession iv) (InvAutonomy iv) p)" using asked_session [OF c(1-3)] .
  then have "DescEffect (PrDescriptor r2) = EffectReadOnly"
    using chain_read_only [OF c(4)] c(5) assms by (simp add: request_for_def)
  with e c(6) show ?thesis by (simp add: effects_def call_of_def)
qed (simp add: effects_def)

theorem read_only_session_has_no_effects_witness:
  "effects (snd (Execute demo_config (demo_invocation ''whatever'') demo_pipeline)) = []"
proof -
  have "level (s_autonomy (fst (stateFor (InvSession (demo_invocation ''whatever'')) (InvAutonomy (demo_invocation ''whatever'')) demo_pipeline)))
      = AutonomyReadOnly"
    by (simp add: stateFor_def demo_pipeline_def NewPipeline_def ParseAutonomyLevel_def Pin_def Let_def)
  from read_only_session_has_no_effects [OF this, of demo_config] show ?thesis
    by (simp add: effects_def demo_pipeline_def NewPipeline_def)
qed

text \<open>
  C12: taint only grows, and never without a trace. An invocation or an approved call takes no engaged
  leg from any session. What it adds is the change its result reports, to its own session and
  with the legs as they stood after the chain, and what the called tool itself folded into
  sessions through the pipeline's taint operations while it ran, in that order and nothing else. So
  without a call, a result that reports no change left every session's legs as they were, and one that
  reports a change left those of the other sessions as they were.
\<close>

theorem taint_grows_and_is_reported:
  assumes "Execute cf iv p = (x, p') \<or> ExecuteApproved cf iv dg p = (x, p')"
  shows "(\<forall>sid. legs_le (session_legs p sid) (session_legs p' sid)) \<and>
    (XTaintChanged x \<longrightarrow> XTaintEngaged x \<noteq> session_legs p (InvSession iv) \<and>
       legs_le (session_legs p (InvSession iv)) (XTaintEngaged x)) \<and>
    (\<exists>folds. Folds p' = Folds p @ folds \<and> (Calls p' = Calls p \<longrightarrow> folds = []) \<and>
       session_legs p' = fold fold_into folds
         (if XTaintChanged x then (session_legs p)(InvSession iv := XTaintEngaged x) else session_legs p))"
proof -
  have r: "reports (InvSession iv) p (x, p')"
    using assms Execute_reports [of iv p cf] ExecuteApproved_reports [of iv p cf dg] by auto
  then obtain folds where "session_legs p' = fold fold_into folds
      (if XTaintChanged x then (session_legs p)(InvSession iv := XTaintEngaged x) else session_legs p)"
    and "XTaintChanged x \<longrightarrow> legs_le (session_legs p (InvSession iv)) (XTaintEngaged x)" by (auto simp: reports_def)
  then have "legs_le (session_legs p sid) (session_legs p' sid)" for sid
    using folds_le [of "if XTaintChanged x then (session_legs p)(InvSession iv := XTaintEngaged x) else session_legs p" sid folds]
    by (cases "sid = InvSession iv") (auto intro: legs_le_trans split: if_splits)
  with r show ?thesis by (simp add: reports_def)
qed

theorem taint_grows_and_is_reported_witness:
  "\<exists>x p'. Execute demo_config (demo_invocation ''autonomous'') demo_pipeline = (x, p') \<and>
     session_legs p' = fold_into (8, (True, False, False))
       (if XTaintChanged x then (\<lambda>_. (False, False, False))(8 := XTaintEngaged x) else (\<lambda>_. (False, False, False)))"
proof -
  obtain x p' where e: "Execute demo_config (demo_invocation ''autonomous'') demo_pipeline = (x, p')" by (rule prod.exhaust)
  then have "Folds p' = [(8, (True, False, False))]" using demo_Execute by simp
  moreover have "Folds demo_pipeline = []" "session_legs demo_pipeline = (\<lambda>_. (False, False, False))"
    by (simp_all add: demo_pipeline_def NewPipeline_def session_legs_def fun_eq_iff)
  moreover note taint_grows_and_is_reported [OF disjI1 [OF e]]
  ultimately show ?thesis using e by auto
qed

text \<open>
  C33: a claim is never free again. Once a call is claimed, opening it answers that it is done or
  ambiguous, or fails; and this does not change when an operator resolves the claim, as abandoned
  or as completed.
\<close>

theorem a_resolved_claim_stays_closed:
  assumes "(sid, dg) \<in> claim_keys st"
  shows "case fst (tracker_Open E tn sid tid dg (snd (control_ResolveClaim E tn' sid' cid status reason st))) of
           Inl er \<Rightarrow> True | Inr (c, out) \<Rightarrow> out \<in> {ClaimAmbiguous, ClaimDone}"
proof -
  let ?s = "snd (control_ResolveClaim E tn' sid' cid status reason st)"
  have "(sid, dg) \<in> claim_keys ?s" using assms control_ResolveClaim_keys by blast
  then show ?thesis
    using tracker_Open_fresh [of E tn sid tid dg ?s]
    by (cases "tracker_Open E tn sid tid dg ?s") (fastforce split: sum.split)
qed

definition demo_row :: claim where
  "demo_row = \<lparr>ClaimID = 5, ClTenant = 7, ClSession = 8, ClToolID = ''t'', ClDigest = ''d'', ClStatus = ClaimInFlight, ClReason = '''',
     CreatedAt = 0, ResolvedAt = None\<rparr>"

theorem a_resolved_claim_stays_closed_witness:
  "fst (tracker_Open demo_claims 7 8 ''t'' ''d''
     (snd (control_ResolveClaim demo_claims 7 8 5 ClaimAbandoned ''lost'' \<lparr>Rows = [demo_row], CEnv = 9\<rparr>))) = Inr (5, ClaimAmbiguous)"
proof -
  let ?st = "\<lparr>Rows = [demo_row], CEnv = 9\<rparr>"
  have "(8, ''d'') \<in> claim_keys ?st" by (simp add: claim_keys_def claim_key_def demo_row_def)
  from a_resolved_claim_stays_closed [OF this, of demo_claims 7 "''t''" 7 8 5 ClaimAbandoned "''lost''"]
  have "fst (tracker_Open demo_claims 7 8 ''t'' ''d'' (snd (control_ResolveClaim demo_claims 7 8 5 ClaimAbandoned ''lost'' ?st)))
      \<noteq> Inr (5, ClaimFresh)" by (auto split: sum.splits)
  moreover have "fst (tracker_Open demo_claims 7 8 ''t'' ''d'' (snd (control_ResolveClaim demo_claims 7 8 5 ClaimAbandoned ''lost'' ?st)))
      = Inr (5, ClaimAmbiguous)"
    by code_simp
  ultimately show ?thesis by simp
qed

end
