(* ===== verification/Plan_Schema.thy ===== *)
theory Plan_Schema
  imports Complex_Main Cost_Gate Prompt_Ctx
begin

text \<open>
  Orchestration plans as data (\<^verbatim>\<open>internal/plan/schema.go\<close>, \<^verbatim>\<open>predicate.go\<close>, \<^verbatim>\<open>validate.go\<close>): the step
  kinds and their configurations, the closed predicate language transitions are guarded with, and
  the validator with every check it makes, its two graph walks included. The reachability check is
  shown to be exact; the loop check is shown to refuse only plans with an unbounded cycle and to
  accept no cycle at all in a plan without loop steps. A number is a finite \<^verbatim>\<open>float64\<close>, read as the
  rational it denotes, on which comparison agrees.
\<close>

section \<open>Predicates\<close>

type_synonym float64 = rat

datatype value_kind = KindString | KindNumber | KindBool | KindOther string

fun value_kind_str :: "value_kind \<Rightarrow> string" where
  "value_kind_str KindString = ''string''"
| "value_kind_str KindNumber = ''number''"
| "value_kind_str KindBool = ''bool''"
| "value_kind_str (KindOther s) = s"

record pvalue =
  VKind :: value_kind
  VStr :: string
  VNum :: float64
  VBool :: bool

definition StringValue :: "string \<Rightarrow> pvalue" where
  "StringValue s = \<lparr>VKind = KindString, VStr = s, VNum = 0, VBool = False\<rparr>"

definition NumberValue :: "float64 \<Rightarrow> pvalue" where
  "NumberValue n = \<lparr>VKind = KindNumber, VStr = '''', VNum = n, VBool = False\<rparr>"

definition BoolValue :: "bool \<Rightarrow> pvalue" where
  "BoolValue b = \<lparr>VKind = KindBool, VStr = '''', VNum = 0, VBool = b\<rparr>"

definition value_Equal :: "pvalue \<Rightarrow> pvalue \<Rightarrow> bool" where
  "value_Equal v w \<longleftrightarrow>
     (if VKind v \<noteq> VKind w then False
      else (case VKind v of
              KindString \<Rightarrow> VStr v = VStr w
            | KindNumber \<Rightarrow> VNum v = VNum w
            | KindBool \<Rightarrow> VBool v = VBool w
            | KindOther s \<Rightarrow> False))"

definition value_less :: "pvalue \<Rightarrow> pvalue \<Rightarrow> err + bool" where
  "value_less v w =
     (if VKind v \<noteq> KindNumber \<or> VKind w \<noteq> KindNumber
      then Inl (Err (''plan: lt/gt only compares numbers, got '' @ value_kind_str (VKind v) @ '' and '' @ value_kind_str (VKind w)))
      else Inr (VNum v < VNum w))"

datatype predicate_op = OpEq | OpNe | OpLt | OpGt | OpAnd | OpOr | OpIn | OpOther string

datatype predicate =
  Predicate (POp: predicate_op) (PField: string) (PValue: pvalue) (PValues: "pvalue list")
    (PAnd: "predicate list") (POr: "predicate list")

text \<open>A \<^verbatim>\<open>Context\<close>: the variables a plan run has bound so far.\<close>

type_synonym var_context = "string \<rightharpoonup> pvalue"

fun Eval :: "predicate \<Rightarrow> var_context \<Rightarrow> err + bool"
  and eval_and :: "predicate list \<Rightarrow> var_context \<Rightarrow> err + bool"
  and eval_or :: "predicate list \<Rightarrow> var_context \<Rightarrow> err + bool"
where
  "Eval (Predicate op field v vs ands ors) vars =
     (case op of
        OpAnd \<Rightarrow> eval_and ands vars
      | OpOr \<Rightarrow> eval_or ors vars
      | OpOther s \<Rightarrow> Inl (Err (''plan: unrecognized predicate op '' @ quoted s))
      | leaf \<Rightarrow>
          (case vars field of
             None \<Rightarrow> Inl (Err (''plan: predicate references unbound field '' @ quoted field))
           | Some x \<Rightarrow>
               (case leaf of
                  OpEq \<Rightarrow> Inr (value_Equal x v)
                | OpNe \<Rightarrow> Inr (\<not> value_Equal x v)
                | OpLt \<Rightarrow> value_less x v
                | OpGt \<Rightarrow> value_less v x
                | _ \<Rightarrow> Inr (list_ex (value_Equal x) vs))))"
| "eval_and [] vars = Inr True"
| "eval_and (p # ps) vars =
     (case Eval p vars of Inl e \<Rightarrow> Inl e | Inr False \<Rightarrow> Inr False | Inr True \<Rightarrow> eval_and ps vars)"
| "eval_or [] vars = Inr False"
| "eval_or (p # ps) vars =
     (case Eval p vars of Inl e \<Rightarrow> Inl e | Inr True \<Rightarrow> Inr True | Inr False \<Rightarrow> eval_or ps vars)"

section \<open>Steps and plans\<close>

datatype step_kind =
    StepAgent | StepDelegateFanout | StepApprovalGate | StepPreauth | StepInputRequest
  | StepCondition | StepLoop | StepOther string

fun step_kind_str :: "step_kind \<Rightarrow> string" where
  "step_kind_str StepAgent = ''agent''"
| "step_kind_str StepDelegateFanout = ''delegate_fanout''"
| "step_kind_str StepApprovalGate = ''approval_gate''"
| "step_kind_str StepPreauth = ''preauth''"
| "step_kind_str StepInputRequest = ''input_request''"
| "step_kind_str StepCondition = ''condition''"
| "step_kind_str StepLoop = ''loop''"
| "step_kind_str (StepOther s) = s"

record transition =
  TTo :: string
  TWhen :: "predicate option"

record agent_step_config =
  AgInput :: string
  OutputVar :: string

record delegate_fanout_config =
  FoAgentID :: string
  FoTask :: string
  FoScopeGrant :: "string list"
  ChildCount :: int
  PerChildCeiling :: string
  CompletionVar :: string

record approval_gate_config =
  GateQuestion :: string
  GateResultVar :: string

record preauth_entry =
  PaToolID :: string
  PaDigest :: bytes

record input_request_config =
  IrQuestion :: string
  IrSchema :: bytes
  IrResultVar :: string

record loop_config =
  MaxIterations :: int
  CounterVar :: string

record step =
  SID :: string
  SKind :: step_kind
  SAgent :: "agent_step_config option"
  SFanout :: "delegate_fanout_config option"
  SGate :: "approval_gate_config option"
  SPreauth :: "preauth_entry list option"
  SInput :: "input_request_config option"
  SCondition :: "unit option"
  SLoop :: "loop_config option"
  STransitions :: "transition list"

record plan =
  PlanID :: uuid
  PlTenant :: uuid
  PlVersion :: int
  PlName :: string
  StartStep :: string
  Steps :: "step list"
  AllowedTools :: "string list"
  EnvCeiling :: string
  PlAgentVersion :: int
  PlRouteModelID :: string

definition StepByID :: "plan \<Rightarrow> string \<Rightarrow> step option" where
  "StepByID p i = find (\<lambda>s. SID s = i) (Steps p)"

text \<open>The amount, and whether one was given at all.\<close>

definition parseCeiling :: "string \<Rightarrow> err + money option" where
  "parseCeiling s =
     (if s = '''' then Inr None
      else (case ParseDecimal s DefaultCurrency of Inl e \<Rightarrow> Inl e | Inr m \<Rightarrow> Inr (Some m)))"

section \<open>Validation\<close>

definition maxPredicateDepth :: nat where
  "maxPredicateDepth = 8"

fun predicateDepth :: "predicate \<Rightarrow> nat"
  and max_depth :: "predicate list \<Rightarrow> nat"
where
  "predicateDepth (Predicate op field v vs ands ors) =
     (if op = OpAnd \<or> op = OpOr then max (max_depth ands) (max_depth ors) + 1 else 1)"
| "max_depth [] = 0"
| "max_depth (p # ps) = max (predicateDepth p) (max_depth ps)"

definition hasDelegateFanout :: "plan \<Rightarrow> bool" where
  "hasDelegateFanout p \<longleftrightarrow> list_ex (\<lambda>s. SKind s = StepDelegateFanout) (Steps p)"

definition set_configs :: "step \<Rightarrow> nat" where
  "set_configs s =
     length (filter id [SAgent s \<noteq> None, SFanout s \<noteq> None, SGate s \<noteq> None, SPreauth s \<noteq> None, SInput s \<noteq> None,
                        SCondition s \<noteq> None, SLoop s \<noteq> None])"

definition validateStepShape :: "step \<Rightarrow> err option" where
  "validateStepShape s =
     (let kind = ''kind '' @ quoted (step_kind_str (SKind s)) in
      if set_configs s \<noteq> 1
      then Some (Err (''exactly one of the kind-specific configs must be set for '' @ kind @ '' (found '' @ dec_nat (set_configs s) @ '')''))
      else
        (case SKind s of
           StepAgent \<Rightarrow> (if SAgent s = None then Some (Err (kind @ '' requires an agent config'')) else None)
         | StepDelegateFanout \<Rightarrow>
             (case SFanout s of
                None \<Rightarrow> Some (Err (kind @ '' requires a delegate_fanout config''))
              | Some f \<Rightarrow>
                  if ChildCount f \<le> 0 then Some (Err ''delegate_fanout.child_count must be positive'')
                  else if FoScopeGrant f = [] then Some (Err ''delegate_fanout.scope_grant must name at least one tool'')
                  else (case parseCeiling (PerChildCeiling f) of
                          Inl e \<Rightarrow> Some (Wrapped ''delegate_fanout.per_child_ceiling'' e)
                        | Inr _ \<Rightarrow> None))
         | StepApprovalGate \<Rightarrow>
             (case SGate s of
                None \<Rightarrow> Some (Err (kind @ '' requires a non-empty question''))
              | Some g \<Rightarrow> (if GateQuestion g = '''' then Some (Err (kind @ '' requires a non-empty question'')) else None))
         | StepPreauth \<Rightarrow>
             (case SPreauth s of
                Some (e # es) \<Rightarrow> None
              | _ \<Rightarrow> Some (Err (''preauth must enumerate at least one {tool_id, digest} entry '' @ em_dash @
                              '' an unbounded or empty preauth fails validation'')))
         | StepInputRequest \<Rightarrow>
             (case SInput s of
                None \<Rightarrow> Some (Err (kind @ '' requires a non-empty question''))
              | Some r \<Rightarrow> (if IrQuestion r = '''' then Some (Err (kind @ '' requires a non-empty question'')) else None))
         | StepCondition \<Rightarrow> None
         | StepLoop \<Rightarrow>
             (case SLoop s of
                Some l \<Rightarrow>
                  (if MaxIterations l \<le> 0
                   then Some (Err ''loop steps must declare a positive max_iterations (README task 8.3: bounded loops)'') else None)
              | None \<Rightarrow> Some (Err ''loop steps must declare a positive max_iterations (README task 8.3: bounded loops)''))
         | StepOther k \<Rightarrow> Some (Err (''unrecognized step '' @ kind))))"

definition validateTransitions :: "step \<Rightarrow> err option" where
  "validateTransitions s =
     (if list_ex (\<lambda>i. TWhen (STransitions s ! i) = None \<and> i \<noteq> length (STransitions s) - 1) [0..<length (STransitions s)]
      then Some (Err ''the unconditional transition (nil when) must be listed last'') else None)"

text \<open>The map \<^verbatim>\<open>seen\<close>, as the list of its pairs; a missing key reads as the zero step.\<close>

type_synonym seen_map = "(string \<times> step) list"

definition seen_transitions :: "seen_map \<Rightarrow> string \<Rightarrow> transition list" where
  "seen_transitions seen i = (case map_of seen i of None \<Rightarrow> [] | Some s \<Rightarrow> STransitions s)"

definition is_loop :: "seen_map \<Rightarrow> string \<Rightarrow> bool" where
  "is_loop seen i \<longleftrightarrow> (case map_of seen i of None \<Rightarrow> False | Some s \<Rightarrow> SKind s = StepLoop)"

definition fmt_strings :: "string list \<Rightarrow> string" where
  "fmt_strings xs = ''['' @ (case xs of [] \<Rightarrow> '''' | y # ys \<Rightarrow> y @ concat (map (\<lambda>z. '' '' @ z) ys)) @ '']''"

subsection \<open>Reachability\<close>

fun enqueue :: "transition list \<Rightarrow> string list \<Rightarrow> string list \<Rightarrow> string list \<times> string list" where
  "enqueue [] visited queue = (visited, queue)"
| "enqueue (t # ts) visited queue =
     (if TTo t \<in> set visited then enqueue ts visited queue
      else enqueue ts (TTo t # visited) (queue @ [TTo t]))"

lemma enqueue_grows:
  assumes "enqueue ts visited queue = (visited', queue')"
  shows "set visited' = set visited \<union> TTo ` set ts"
    and "visited' = visited \<and> queue' = queue \<or> set visited \<subset> set visited'"
    and "set queue' = set queue \<union> (set visited' - set visited)"
  using assms by (induction ts visited queue rule: enqueue.induct) (auto split: if_splits)

definition targets :: "seen_map \<Rightarrow> string set" where
  "targets seen = (\<Union>s\<in>snd ` set seen. TTo ` set (STransitions s))"

lemma seen_transitions_targets: "TTo ` set (seen_transitions seen i) \<subseteq> targets seen"
proof (cases "map_of seen i")
  case (Some s)
  then have "s \<in> snd ` set seen"
    by (force dest: map_of_SomeD)
  with Some show ?thesis
    by (auto simp: seen_transitions_def targets_def)
qed (simp add: seen_transitions_def)

lemma finite_targets [simp]: "finite (targets seen)"
  by (simp add: targets_def)

function reach_loop :: "seen_map \<Rightarrow> string list \<Rightarrow> string list \<Rightarrow> string list" where
  "reach_loop seen visited [] = visited"
| "reach_loop seen visited (i # queue) =
     (case enqueue (seen_transitions seen i) visited queue of
        (visited', queue') \<Rightarrow> reach_loop seen visited' queue')"
  by pat_completeness auto
termination
proof (relation "measures [\<lambda>(seen, visited, queue). card (targets seen - set visited), \<lambda>(seen, visited, queue). length queue]")
  fix seen visited and i :: string and queue visited' queue'
  assume "(visited', queue') = enqueue (seen_transitions seen i) visited queue"
  then have eq: "enqueue (seen_transitions seen i) visited queue = (visited', queue')"
    by simp
  have "visited' = visited \<and> queue' = queue \<or> set visited \<subset> set visited'"
    by (rule enqueue_grows(2) [OF eq])
  moreover have "card (targets seen - set visited') < card (targets seen - set visited)" if "set visited \<subset> set visited'"
  proof (rule psubset_card_mono)
    show "targets seen - set visited' \<subset> targets seen - set visited"
      using that enqueue_grows(1) [OF eq] seen_transitions_targets [of seen i] by blast
  qed simp
  ultimately show "((seen, visited', queue'), seen, visited, i # queue)
      \<in> measures [\<lambda>(seen, visited, queue). card (targets seen - set visited), \<lambda>(seen, visited, queue). length queue]"
    by auto
qed simp

definition validateReachability :: "plan \<Rightarrow> seen_map \<Rightarrow> err option" where
  "validateReachability p seen =
     (let visited = reach_loop seen [StartStep p] [StartStep p];
          unreachable = filter (\<lambda>i. i \<notin> set visited) (map fst seen) in
      if unreachable \<noteq> []
      then Some (Err (''plan: unreachable step(s) from start_step '' @ quoted (StartStep p) @ '': '' @ fmt_strings (sort unreachable)))
      else None)"

subsection \<open>Bounded loops\<close>

text \<open>
  The depth-first walk. Each nested call of \<^verbatim>\<open>walk\<close> turns a white step grey, so the depth of the
  recursion is bounded by the number of steps; the fuel is that depth, and \<open>None\<close> means it ran
  out, which it does not (\<open>walk_fuel\<close>).
\<close>

datatype color = White | Gray | Black

fun indexOf_from :: "nat \<Rightarrow> string list \<Rightarrow> string \<Rightarrow> int" where
  "indexOf_from i [] v = - 1"
| "indexOf_from i (x # xs) v = (if x = v then int i else indexOf_from (Suc i) xs v)"

definition indexOf :: "string list \<Rightarrow> string \<Rightarrow> int" where
  "indexOf s v = indexOf_from 0 s v"

definition cycleHasLoopStep :: "string list \<Rightarrow> seen_map \<Rightarrow> bool" where
  "cycleHasLoopStep cycle seen \<longleftrightarrow> list_ex (is_loop seen) cycle"

definition cycle_error :: "string list \<Rightarrow> err" where
  "cycle_error cycle =
     Err (''plan: cycle '' @ fmt_strings cycle @ '' has no bounded loop step (README task 8.3 '' @ em_dash @
          '' a cycle must pass through a Loop-kind step with a positive max_iterations)'')"

function (sequential) walk :: "nat \<Rightarrow> seen_map \<Rightarrow> string \<Rightarrow> string list \<Rightarrow> (string \<Rightarrow> color) \<Rightarrow> (err option \<times> (string \<Rightarrow> color)) option"
  and walk_edges :: "nat \<Rightarrow> seen_map \<Rightarrow> transition list \<Rightarrow> string list \<Rightarrow> (string \<Rightarrow> color) \<Rightarrow> (err option \<times> (string \<Rightarrow> color)) option"
where
  "walk 0 seen i path col = None"
| "walk (Suc n) seen i path col =
     (case walk_edges n seen (seen_transitions seen i) (path @ [i]) (col(i := Gray)) of
        None \<Rightarrow> None
      | Some (Some e, col') \<Rightarrow> Some (Some e, col')
      | Some (None, col') \<Rightarrow> Some (None, col'(i := Black)))"
| "walk_edges n seen [] path col = Some (None, col)"
| "walk_edges n seen (t # ts) path col =
     (case col (TTo t) of
        White \<Rightarrow>
          (case walk n seen (TTo t) path col of
             None \<Rightarrow> None
           | Some (Some e, col') \<Rightarrow> Some (Some e, col')
           | Some (None, col') \<Rightarrow> walk_edges n seen ts path col')
      | Gray \<Rightarrow>
          (let cycle = drop (nat (indexOf path (TTo t))) path @ [TTo t] in
           if \<not> cycleHasLoopStep cycle seen then Some (Some (cycle_error cycle), col)
           else walk_edges n seen ts path col)
      | Black \<Rightarrow> walk_edges n seen ts path col)"
  by pat_completeness auto
termination
  by (relation "measures [\<lambda>x. case x of Inl (n, _) \<Rightarrow> n | Inr (n, _) \<Rightarrow> n,
                          \<lambda>x. case x of Inl _ \<Rightarrow> 0 | Inr (_, _, ts, _) \<Rightarrow> Suc (length ts)]") auto

definition validateBoundedLoops :: "plan \<Rightarrow> seen_map \<Rightarrow> err option" where
  "validateBoundedLoops p seen =
     (case walk (length (concat (map (STransitions \<circ> snd) seen)) + 1) seen (StartStep p) [] (\<lambda>_. White) of
        None \<Rightarrow> Some (Err ''out of fuel'')
      | Some (e, col) \<Rightarrow> e)"

subsection \<open>The whole check\<close>

definition validateScopeSubset :: "plan \<Rightarrow> err option" where
  "validateScopeSubset p =
     (case find (\<lambda>(s, g). g \<notin> set (AllowedTools p))
             (concat (map (\<lambda>s. case SFanout s of None \<Rightarrow> [] | Some f \<Rightarrow> map (Pair s) (FoScopeGrant f)) (Steps p))) of
        None \<Rightarrow> None
      | Some (s, g) \<Rightarrow>
          Some (Err (''plan: step '' @ quoted (SID s) @ [CHR 0x27] @ ''s scope_grant names '' @ quoted g @
                     '', which is not in the plan'' @ [CHR 0x27] @ ''s own allowed_tools'')))"

definition preauth_entries :: "step \<Rightarrow> (step \<times> nat \<times> preauth_entry) list" where
  "preauth_entries s =
     (if SKind s \<noteq> StepPreauth then []
      else (case SPreauth s of None \<Rightarrow> [] | Some es \<Rightarrow> map (Pair s) (enumerate 0 es)))"

definition validateOversightCompleteness :: "plan \<Rightarrow> err option" where
  "validateOversightCompleteness p =
     (case find (\<lambda>(s, i, e). PaToolID e = '''' \<or> PaDigest e = []) (concat (map preauth_entries (Steps p))) of
        None \<Rightarrow> None
      | Some (s, i, e) \<Rightarrow>
          Some (Err (''plan: step '' @ quoted (SID s) @ '' preauth entry '' @ dec_nat i @ '' is missing tool_id or digest '' @ em_dash @
                     '' every entry must be a fully bound {tool_id, digest} pair, never a wildcard'')))"

fun collect_steps :: "step list \<Rightarrow> seen_map \<Rightarrow> err + seen_map" where
  "collect_steps [] seen = Inr seen"
| "collect_steps (s # ss) seen =
     (if SID s = '''' then Inl (Err ''plan: a step has an empty id'')
      else if SID s \<in> fst ` set seen then Inl (Err (''plan: duplicate step id '' @ quoted (SID s)))
      else (case validateStepShape s of
              Some e \<Rightarrow> Inl (Wrapped (''plan: step '' @ quoted (SID s)) e)
            | None \<Rightarrow> collect_steps ss (seen @ [(SID s, s)])))"

fun check_edges :: "seen_map \<Rightarrow> step \<Rightarrow> transition list \<Rightarrow> err option" where
  "check_edges seen s [] = None"
| "check_edges seen s (t # ts) =
     (if map_of seen (TTo t) = None
      then Some (Err (''plan: step '' @ quoted (SID s) @ '' transitions to undeclared step '' @ quoted (TTo t)))
      else (case TWhen t of
              Some w \<Rightarrow>
                (if predicateDepth w > maxPredicateDepth
                 then Some (Err (''plan: step '' @ quoted (SID s) @ [CHR 0x27] @ ''s transition to '' @ quoted (TTo t) @
                                 '' nests predicates '' @ dec_nat (predicateDepth w) @ '' deep (max '' @
                                 dec_nat maxPredicateDepth @ '')''))
                 else check_edges seen s ts)
            | None \<Rightarrow> check_edges seen s ts))"

fun check_steps :: "seen_map \<Rightarrow> step list \<Rightarrow> err option" where
  "check_steps seen [] = None"
| "check_steps seen (s # ss) =
     (case validateTransitions s of
        Some e \<Rightarrow> Some (Wrapped (''plan: step '' @ quoted (SID s)) e)
      | None \<Rightarrow> (case check_edges seen s (STransitions s) of Some e \<Rightarrow> Some e | None \<Rightarrow> check_steps seen ss))"

text \<open>\<open>orElse\<close> is \<^verbatim>\<open>if err := ...; err != nil { return err }\<close> before what follows.\<close>

definition orElse :: "err option \<Rightarrow> err option \<Rightarrow> err option" where
  "orElse a b = (case a of Some e \<Rightarrow> Some e | None \<Rightarrow> b)"

definition Validate :: "plan \<Rightarrow> err option" where
  "Validate p =
     (if StartStep p = '''' then Some (Err ''plan: start_step is required'')
      else if Steps p = [] then Some (Err ''plan: at least one step is required'')
      else
        (case collect_steps (Steps p) [] of
           Inl e \<Rightarrow> Some e
         | Inr seen \<Rightarrow>
             if map_of seen (StartStep p) = None
             then Some (Err (''plan: start_step '' @ quoted (StartStep p) @ '' is not a declared step''))
             else
               orElse (check_steps seen (Steps p)) (orElse (validateReachability p seen)
                 (orElse (validateBoundedLoops p seen) (orElse (validateScopeSubset p) (orElse (validateOversightCompleteness p)
                   (case parseCeiling (EnvCeiling p) of
                      Inl e \<Rightarrow> Some (Wrapped ''plan: cost_envelope.ceiling'' e)
                    | Inr None \<Rightarrow>
                        (if hasDelegateFanout p
                         then Some (Err (''plan: a plan with a delegate_fanout step must declare a cost_envelope.ceiling (README task 8.13 '' @
                                         em_dash @ '' reserved before the first child starts)''))
                         else None)
                    | Inr (Some m) \<Rightarrow> None)))))))"

section \<open>What the graph checks show\<close>

definition edge :: "seen_map \<Rightarrow> (string \<times> string) set" where
  "edge seen = {(i, j). j \<in> TTo ` set (seen_transitions seen i)}"

lemma edge_iff: "(i, j) \<in> edge seen \<longleftrightarrow> (\<exists>t\<in>set (seen_transitions seen i). j = TTo t)"
  by (auto simp: edge_def)

subsection \<open>Reachability\<close>

lemma reach_loop_sound:
  assumes "edge seen `` R \<subseteq> R" and "set visited \<subseteq> R" and "set queue \<subseteq> R"
  shows "set (reach_loop seen visited queue) \<subseteq> R"
  using assms
proof (induction seen visited queue rule: reach_loop.induct)
  case (2 seen visited i queue)
  obtain visited' queue' where eq: "enqueue (seen_transitions seen i) visited queue = (visited', queue')"
    by (rule prod.exhaust)
  have "TTo ` set (seen_transitions seen i) \<subseteq> R"
    using 2(2,4) by (auto simp: edge_def)
  then have "set visited' \<subseteq> R" and "set queue' \<subseteq> R"
    using enqueue_grows(1,3) [OF eq] 2(3,4) by auto
  then show ?case
    using 2(1) [OF eq [symmetric]] 2(2) by (simp add: eq)
qed simp

lemma reach_loop_closed:
  assumes "set queue \<subseteq> set visited" and "edge seen `` (set visited - set queue) \<subseteq> set visited"
  shows "set visited \<subseteq> set (reach_loop seen visited queue) \<and>
    edge seen `` set (reach_loop seen visited queue) \<subseteq> set (reach_loop seen visited queue)"
  using assms
proof (induction seen visited queue rule: reach_loop.induct)
  case (2 seen visited i queue)
  obtain visited' queue' where eq: "enqueue (seen_transitions seen i) visited queue = (visited', queue')"
    by (rule prod.exhaust)
  have i: "edge seen `` {i} \<subseteq> set visited'" and sub: "set visited \<subseteq> set visited'"
    using enqueue_grows(1) [OF eq] by (auto simp: edge_def)
  have "set queue' \<subseteq> set visited'"
    using enqueue_grows(1,3) [OF eq] 2(2) by auto
  moreover have "edge seen `` (set visited' - set queue') \<subseteq> set visited'"
  proof -
    have "set visited' - set queue' \<subseteq> insert i (set visited - set (i # queue))"
      using enqueue_grows(3) [OF eq] by auto
    then show ?thesis
      using 2(3) i sub by blast
  qed
  ultimately show ?case
    using 2(1) [OF eq [symmetric]] sub by (auto simp: eq)
qed simp

lemma reach_loop_reachable: "set (reach_loop seen [s] [s]) = (edge seen)\<^sup>* `` {s}"
proof
  show "set (reach_loop seen [s] [s]) \<subseteq> (edge seen)\<^sup>* `` {s}"
    by (rule reach_loop_sound) (auto intro: rtrancl_into_rtrancl)
  have closed: "edge seen `` set (reach_loop seen [s] [s]) \<subseteq> set (reach_loop seen [s] [s])"
    and s: "s \<in> set (reach_loop seen [s] [s])"
    using reach_loop_closed [of "[s]" "[s]" seen] by simp_all
  show "(edge seen)\<^sup>* `` {s} \<subseteq> set (reach_loop seen [s] [s])"
  proof
    fix j
    assume "j \<in> (edge seen)\<^sup>* `` {s}"
    then have "(s, j) \<in> (edge seen)\<^sup>*" by simp
    then show "j \<in> set (reach_loop seen [s] [s])"
      using closed s by (induction rule: rtrancl_induct) blast+
  qed
qed

lemma validateReachability_iff:
  "validateReachability p seen = None \<longleftrightarrow> (\<forall>i\<in>fst ` set seen. (StartStep p, i) \<in> (edge seen)\<^sup>*)"
proof -
  have "validateReachability p seen = None \<longleftrightarrow> (\<forall>i\<in>fst ` set seen. i \<in> set (reach_loop seen [StartStep p] [StartStep p]))"
    by (simp add: validateReachability_def Let_def filter_empty_conv del: reach_loop.simps)
  then show ?thesis
    by (simp add: reach_loop_reachable del: reach_loop.simps)
qed

subsection \<open>The walk\<close>

abbreviation colored :: "color \<Rightarrow> (string \<Rightarrow> color) \<Rightarrow> string set" where
  "colored c col \<equiv> {x. col x = c}"

abbreviation back_cycle :: "string list \<Rightarrow> string \<Rightarrow> string list" where
  "back_cycle path j \<equiv> drop (nat (indexOf path j)) path @ [j]"

lemma walk_SucE:
  assumes "walk (Suc n) seen i path col = Some (e, col')"
  obtains er where "e = Some er" and "walk_edges n seen (seen_transitions seen i) (path @ [i]) (col(i := Gray)) = Some (Some er, col')"
  | col1 where "e = None" and "col' = col1(i := Black)"
      and "walk_edges n seen (seen_transitions seen i) (path @ [i]) (col(i := Gray)) = Some (None, col1)"
  using assms by (auto split: option.splits)

lemma walk_edges_ConsE:
  assumes "walk_edges n seen (t # ts) path col = Some (e, col')"
  obtains (failed) er where "col (TTo t) = White" and "e = Some er" and "walk n seen (TTo t) path col = Some (Some er, col')"
  | (went) col1 where "col (TTo t) = White" and "walk n seen (TTo t) path col = Some (None, col1)"
      and "walk_edges n seen ts path col1 = Some (e, col')"
  | (unbounded) "col (TTo t) = Gray" and "\<not> cycleHasLoopStep (back_cycle path (TTo t)) seen" and "col' = col"
      and "e = Some (cycle_error (back_cycle path (TTo t)))"
  | (skipped) "col (TTo t) \<noteq> White" and "col (TTo t) = Gray \<Longrightarrow> cycleHasLoopStep (back_cycle path (TTo t)) seen"
      and "walk_edges n seen ts path col = Some (e, col')"
proof (cases "col (TTo t)")
  case White
  then show ?thesis
    using assms failed went by (auto split: option.splits)
next
  case Gray
  then show ?thesis
    using assms unbounded skipped by (auto simp: Let_def split: if_splits)
next
  case Black
  then show ?thesis
    using assms skipped by auto
qed

lemma walk_white:
  "walk n seen i path col = Some (e, col') \<Longrightarrow> colored White col' \<subseteq> colored White col"
  "walk_edges n seen ts path col = Some (e, col') \<Longrightarrow> colored White col' \<subseteq> colored White col"
proof (induction n seen i path col and n seen ts path col arbitrary: e col' and e col' rule: walk_walk_edges.induct)
  case (2 n seen i path col)
  have *: "colored White (c(i := Black)) \<subseteq> colored White c" "colored White (c(i := Gray)) \<subseteq> colored White c" for c
    by auto
  show ?case
    using 2(2)
  proof (cases rule: walk_SucE)
    case (1 er)
    show ?thesis using 2(1) [OF 1(2)] * by blast
  next
    case (2 col1)
    show ?thesis using "2.IH" [OF 2(3)] * unfolding 2(2) by blast
  qed
next
  case (4 n seen t ts path col)
  show ?case
    using 4(5)
  proof (cases rule: walk_edges_ConsE)
    case (failed er)
    then show ?thesis using 4(1) by blast
  next
    case (went col1)
    have "colored White col1 \<subseteq> colored White col"
      by (rule 4(1) [OF went(1,2)])
    moreover have "colored White col' \<subseteq> colored White col1"
      using 4(2) [OF went(1,2) refl] went(3) by simp
    ultimately show ?thesis by blast
  next
    case unbounded
    then show ?thesis by simp
  next
    case skipped
    then show ?thesis using 4(3,4) by (cases "col (TTo t)") auto
  qed
qed simp_all

lemma walk_defined:
  "\<lbrakk>finite U; targets seen \<subseteq> U; i \<in> U; col i = White; card (U \<inter> colored White col) \<le> n\<rbrakk> \<Longrightarrow> walk n seen i path col \<noteq> None"
  "\<lbrakk>finite U; targets seen \<subseteq> U; TTo ` set ts \<subseteq> U; card (U \<inter> colored White col) \<le> n\<rbrakk> \<Longrightarrow> walk_edges n seen ts path col \<noteq> None"
proof (induction n seen i path col and n seen ts path col rule: walk_walk_edges.induct)
  case (1 seen i path col)
  then show ?case by auto
next
  case (2 n seen i path col)
  have "U \<inter> colored White (col(i := Gray)) \<subset> U \<inter> colored White col"
    using 2(4,5) by auto
  then have "card (U \<inter> colored White (col(i := Gray))) < card (U \<inter> colored White col)"
    using 2(2) by (intro psubset_card_mono) simp_all
  then have "card (U \<inter> colored White (col(i := Gray))) \<le> n"
    using 2(6) by linarith
  moreover have "TTo ` set (seen_transitions seen i) \<subseteq> U"
    using seen_transitions_targets [of seen i] 2(3) by blast
  ultimately have "walk_edges n seen (seen_transitions seen i) (path @ [i]) (col(i := Gray)) \<noteq> None"
    by (intro 2(1) [OF 2(2,3)])
  then show ?case
    by (auto split: option.splits)
next
  case (4 n seen t ts path col)
  have U: "finite U" "targets seen \<subseteq> U" "TTo t \<in> U" "TTo ` set ts \<subseteq> U" "card (U \<inter> colored White col) \<le> n"
    using 4(5-8) by simp_all
  show ?case
  proof (cases "col (TTo t)")
    case White
    then obtain er col1 where w: "walk n seen (TTo t) path col = Some (er, col1)"
      using 4(1) [OF White U(1-3) White U(5)] by auto
    have "card (U \<inter> colored White col1) \<le> card (U \<inter> colored White col)"
      using walk_white(1) [OF w] U(1) by (intro card_mono) auto
    then have "er = None \<Longrightarrow> walk_edges n seen ts path col1 \<noteq> None"
      using 4(2) [OF White w refl _ U(1,2,4)] U(5) by simp
    then show ?thesis
      by (cases er) (simp_all add: White w)
  next
    case Gray
    then show ?thesis
      using 4(3) [OF Gray refl _ U(1,2,4,5)] by (simp add: Let_def)
  next
    case Black
    then show ?thesis
      using 4(4) [OF Black U(1,2,4,5)] by simp
  qed
qed simp_all

lemma walk_fuel: "walk (length (concat (map (STransitions \<circ> snd) seen)) + 1) seen s [] (\<lambda>_. White) \<noteq> None"
proof (rule walk_defined(1) [of "insert s (targets seen)"])
  have "targets seen = TTo ` set (concat (map (STransitions \<circ> snd) seen))"
    by (auto simp: targets_def)
  then have "card (targets seen) \<le> length (concat (map (STransitions \<circ> snd) seen))"
    using card_image_le [of "set (concat (map (STransitions \<circ> snd) seen))" TTo] card_length [of "concat (map (STransitions \<circ> snd) seen)"]
    by simp
  then show "card (insert s (targets seen) \<inter> colored White (\<lambda>_. White)) \<le> length (concat (map (STransitions \<circ> snd) seen)) + 1"
    by (simp add: card_insert_if)
qed auto

text \<open>A walk that finds nothing leaves the grey steps as they were; while it runs they are its path.\<close>

lemma walk_gray:
  "\<lbrakk>walk n seen i path col = Some (None, col'); col i = White\<rbrakk> \<Longrightarrow> colored Gray col' = colored Gray col"
  "walk_edges n seen ts path col = Some (None, col') \<Longrightarrow> colored Gray col' = colored Gray col"
proof (induction n seen i path col and n seen ts path col arbitrary: col' and col' rule: walk_walk_edges.induct)
  case (2 n seen i path col)
  then obtain col1 where c: "col' = col1(i := Black)"
    and w: "walk_edges n seen (seen_transitions seen i) (path @ [i]) (col(i := Gray)) = Some (None, col1)"
    by (elim walk_SucE) auto
  have "colored Gray col1 = insert i (colored Gray col)"
    using 2(1) [OF w] by auto
  then show ?case
    using 2(3) unfolding c by (auto simp: set_eq_iff)
next
  case (4 n seen t ts path col)
  show ?case
    using 4(5)
  proof (cases rule: walk_edges_ConsE)
    case (went col1)
    then show ?thesis
      using 4(1) [OF went(1,2,1)] 4(2) [OF went(1,2) refl] by simp
  next
    case skipped
    then show ?thesis using 4(3,4) by (cases "col (TTo t)") auto
  qed simp_all
qed simp_all

text \<open>A cycle of transitions, given by the steps it goes through, the first repeated at the end.\<close>

definition is_cycle :: "seen_map \<Rightarrow> string list \<Rightarrow> bool" where
  "is_cycle seen c \<longleftrightarrow> 2 \<le> length c \<and> hd c = last c \<and> successively (\<lambda>i j. (i, j) \<in> edge seen) c"

lemma indexOf_from_mem: "v \<in> set xs \<Longrightarrow> \<exists>k<length xs. indexOf_from i xs v = int (i + k) \<and> xs ! k = v"
proof (induction xs arbitrary: i)
  case (Cons x xs)
  show ?case
  proof (cases "x = v")
    case False
    then have "v \<in> set xs"
      using Cons(2) by simp
    then obtain k where "k < length xs" and "indexOf_from (Suc i) xs v = int (Suc i + k)" and "xs ! k = v"
      using Cons(1) [of "Suc i"] by blast
    then show ?thesis
      using False by (intro exI [of _ "Suc k"]) simp
  qed (simp add: exI [of _ "0 :: nat"])
qed simp

lemma back_cycle_is_cycle:
  assumes "j \<in> set path" and "successively (\<lambda>i j. (i, j) \<in> edge seen) path" and "(last path, j) \<in> edge seen"
  shows "is_cycle seen (back_cycle path j)" and "set (back_cycle path j) \<subseteq> set path"
proof -
  obtain k where k: "k < length path" "indexOf path j = int k" "path ! k = j"
    using indexOf_from_mem [OF assms(1), of 0] by (auto simp: indexOf_def)
  have "drop k path \<noteq> []" and hd: "hd (drop k path) = j" and last: "last (drop k path) = last path"
    using k by (simp_all add: hd_drop_conv_nth)
  moreover have "successively (\<lambda>i j. (i, j) \<in> edge seen) (drop k path)"
    using assms(2) successively_append_iff [of _ "take k path" "drop k path"] by simp
  moreover have "Suc 0 \<le> length (drop k path)"
    using k(1) by simp
  ultimately show "is_cycle seen (back_cycle path j)"
    using assms(3) k(2) by (simp add: is_cycle_def successively_append_iff)
  show "set (back_cycle path j) \<subseteq> set path"
    using assms(1) k(2) set_drop_subset by (fastforce dest: in_set_dropD)
qed

text \<open>A refusal is justified: there is a cycle of reachable steps and none of them is a loop.\<close>

lemma walk_refuses:
  "\<lbrakk>walk n seen i path col = Some (Some e, col'); col i = White; colored Gray col = set path;
    successively (\<lambda>i j. (i, j) \<in> edge seen) (path @ [i]); set (path @ [i]) \<subseteq> R; edge seen `` R \<subseteq> R\<rbrakk>
   \<Longrightarrow> \<exists>c. is_cycle seen c \<and> set c \<subseteq> R \<and> \<not> list_ex (is_loop seen) c"
  "\<lbrakk>walk_edges n seen ts path col = Some (Some e, col'); path \<noteq> []; colored Gray col = set path;
    successively (\<lambda>i j. (i, j) \<in> edge seen) path; set path \<subseteq> R; edge seen `` R \<subseteq> R;
    set ts \<subseteq> set (seen_transitions seen (last path))\<rbrakk>
   \<Longrightarrow> \<exists>c. is_cycle seen c \<and> set c \<subseteq> R \<and> \<not> list_ex (is_loop seen) c"
proof (induction n seen i path col and n seen ts path col arbitrary: e col' and e col' rule: walk_walk_edges.induct)
  case (2 n seen i path col)
  from 2(2) obtain e' where w: "walk_edges n seen (seen_transitions seen i) (path @ [i]) (col(i := Gray)) = Some (Some e', col')"
    by (elim walk_SucE) auto
  have "colored Gray (col(i := Gray)) = set (path @ [i])"
    using 2(4) by auto
  then show ?case
    by (intro 2(1) [OF w _ _ 2(5-7)]) simp_all
next
  case (4 n seen t ts path col)
  have j: "(last path, TTo t) \<in> edge seen" and ts: "set ts \<subseteq> set (seen_transitions seen (last path))"
    using 4(11) by (auto simp: edge_iff)
  show ?case
    using 4(5)
  proof (cases rule: walk_edges_ConsE)
    case (failed er)
    have "TTo t \<in> R"
      using j 4(6,9,10) by (meson ImageI last_in_set subset_iff)
    then show ?thesis
      using 4(1) [OF failed(1) _ failed(1) 4(7)] failed(3) 4(6,8,9,10) j by (simp add: successively_append_iff)
  next
    case (went col1)
    have "colored Gray col1 = set path"
      using walk_gray(1) [OF went(2,1)] 4(7) by simp
    then show ?thesis
      using 4(2) [OF went(1,2) refl refl _ 4(6) _ 4(8-10) ts] went(3) by simp
  next
    case unbounded
    then have "TTo t \<in> set path"
      using 4(7) by blast
    then show ?thesis
      using back_cycle_is_cycle [OF _ 4(8) j] 4(9) unbounded(2) unfolding cycleHasLoopStep_def by blast
  next
    case skipped
    then show ?thesis
      using 4(3) [OF _ refl _ _ 4(6-10) ts] 4(4) [OF _ _ 4(6-10) ts] by (cases "col (TTo t)") auto
  qed
qed simp_all

text \<open>
  Without loop steps every grey step met is refused, so the finished steps are closed under
  transitions and lie on no cycle.
\<close>

definition settled :: "seen_map \<Rightarrow> (string \<Rightarrow> color) \<Rightarrow> bool" where
  "settled seen col \<longleftrightarrow>
     edge seen `` colored Black col \<subseteq> colored Black col \<and> (\<forall>x\<in>colored Black col. (x, x) \<notin> (edge seen)\<^sup>+)"

lemma settled_finish:
  assumes st: "settled seen col" and i: "col i \<noteq> Black" and out: "edge seen `` {i} \<subseteq> colored Black col"
  shows "settled seen (col(i := Black))"
proof -
  have closed: "edge seen `` colored Black col \<subseteq> colored Black col"
    and acyc: "\<forall>x\<in>colored Black col. (x, x) \<notin> (edge seen)\<^sup>+"
    using st by (simp_all add: settled_def)
  have black: "colored Black (col(i := Black)) = insert i (colored Black col)"
    by auto
  have from_i: "(i, y) \<in> (edge seen)\<^sup>+ \<Longrightarrow> y \<in> colored Black col" for y
    by (induction rule: trancl_induct) (use out closed in blast)+
  show ?thesis
    unfolding settled_def black using closed acyc out i from_i by blast
qed

lemma walk_settles:
  "\<lbrakk>walk n seen i path col = Some (None, col'); \<forall>x. \<not> is_loop seen x; col i = White; settled seen col\<rbrakk>
   \<Longrightarrow> settled seen col' \<and> colored Black col \<subseteq> colored Black col' \<and> col' i = Black"
  "\<lbrakk>walk_edges n seen ts path col = Some (None, col'); \<forall>x. \<not> is_loop seen x; settled seen col\<rbrakk>
   \<Longrightarrow> settled seen col' \<and> colored Black col \<subseteq> colored Black col' \<and> TTo ` set ts \<subseteq> colored Black col'"
proof (induction n seen i path col and n seen ts path col arbitrary: col' and col' rule: walk_walk_edges.induct)
  case (2 n seen i path col)
  from 2(2) obtain col1 where c: "col' = col1(i := Black)"
    and w: "walk_edges n seen (seen_transitions seen i) (path @ [i]) (col(i := Gray)) = Some (None, col1)"
    by (elim walk_SucE) auto
  have black: "colored Black (col(i := Gray)) = colored Black col"
    using 2(4) by auto
  have gray: "settled seen (col(i := Gray))"
    using 2(5) unfolding settled_def black .
  have col1: "settled seen col1" "colored Black col \<subseteq> colored Black col1"
    "TTo ` set (seen_transitions seen i) \<subseteq> colored Black col1"
    using 2(1) [OF w 2(3) gray] unfolding black by simp_all
  have "i \<in> colored Gray col1"
    unfolding walk_gray(2) [OF w] by simp
  then have "settled seen col'"
    unfolding c using col1(1,3) by (intro settled_finish) (auto simp: edge_def)
  moreover have "colored Black col \<subseteq> colored Black col'" and "col' i = Black"
    using col1(2) unfolding c by auto
  ultimately show ?case by blast
next
  case (4 n seen t ts path col)
  show ?case
    using 4(5)
  proof (cases rule: walk_edges_ConsE)
    case (went col1)
    have one: "settled seen col1" "colored Black col \<subseteq> colored Black col1" "col1 (TTo t) = Black"
      using 4(1) [OF went(1,2) 4(6) went(1) 4(7)] by simp_all
    have "settled seen col'" "colored Black col1 \<subseteq> colored Black col'" "TTo ` set ts \<subseteq> colored Black col'"
      using 4(2) [OF went(1,2) refl refl went(3) 4(6) one(1)] by simp_all
    with one show ?thesis by auto
  next
    case skipped
    have "col (TTo t) = Black"
      using skipped(1,2) 4(6) by (cases "col (TTo t)") (auto simp: cycleHasLoopStep_def list_ex_iff)
    then show ?thesis
      using 4(4) [OF _ skipped(3) 4(6,7)] by auto
  qed simp_all
qed simp_all

lemma closed_rtrancl: "E `` S \<subseteq> S \<Longrightarrow> x \<in> S \<Longrightarrow> (x, y) \<in> E\<^sup>* \<Longrightarrow> y \<in> S"
  by (erule rtrancl_induct) auto

lemma validateBoundedLoops_refuses:
  assumes "validateBoundedLoops p seen = Some e"
  shows "\<exists>c. is_cycle seen c \<and> (\<forall>i\<in>set c. (StartStep p, i) \<in> (edge seen)\<^sup>*) \<and> \<not> list_ex (is_loop seen) c"
proof -
  obtain e' col where w: "walk (length (concat (map (STransitions \<circ> snd) seen)) + 1) seen (StartStep p) [] (\<lambda>_. White) = Some (Some e', col)"
    using assms walk_fuel [of seen "StartStep p"] by (auto simp: validateBoundedLoops_def split: option.splits)
  have "\<exists>c. is_cycle seen c \<and> set c \<subseteq> (edge seen)\<^sup>* `` {StartStep p} \<and> \<not> list_ex (is_loop seen) c"
    by (rule walk_refuses(1) [OF w]) (auto intro: rtrancl_into_rtrancl)
  then show ?thesis by blast
qed

lemma is_cycle_trancl:
  assumes "is_cycle seen c"
  shows "(hd c, hd c) \<in> (edge seen)\<^sup>+"
proof -
  obtain x y zs where c: "c = x # y # zs"
    using assms by (cases c rule: remdups_adj.cases) (auto simp: is_cycle_def)
  have "successively (\<lambda>i j. (i, j) \<in> edge seen) (y # zs) \<Longrightarrow> (y, last (y # zs)) \<in> (edge seen)\<^sup>*"
    by (induction zs arbitrary: y) (auto intro: converse_rtrancl_into_rtrancl)
  then show ?thesis
    using assms unfolding c is_cycle_def by (auto intro: rtrancl_into_trancl2)
qed

lemma validateBoundedLoops_no_loops:
  assumes no: "\<forall>x. \<not> is_loop seen x"
  shows "validateBoundedLoops p seen = None \<longleftrightarrow> (\<forall>i. (StartStep p, i) \<in> (edge seen)\<^sup>* \<longrightarrow> (i, i) \<notin> (edge seen)\<^sup>+)"
proof
  assume "validateBoundedLoops p seen = None"
  then obtain col where w: "walk (length (concat (map (STransitions \<circ> snd) seen)) + 1) seen (StartStep p) [] (\<lambda>_. White) = Some (None, col)"
    using walk_fuel [of seen "StartStep p"] by (auto simp: validateBoundedLoops_def split: option.splits)
  have "settled seen col \<and> col (StartStep p) = Black"
    using walk_settles(1) [OF w no] by (simp add: settled_def)
  then show "\<forall>i. (StartStep p, i) \<in> (edge seen)\<^sup>* \<longrightarrow> (i, i) \<notin> (edge seen)\<^sup>+"
    unfolding settled_def using closed_rtrancl [of "edge seen" "colored Black col" "StartStep p"] by blast
next
  assume acyc: "\<forall>i. (StartStep p, i) \<in> (edge seen)\<^sup>* \<longrightarrow> (i, i) \<notin> (edge seen)\<^sup>+"
  show "validateBoundedLoops p seen = None"
  proof (rule ccontr)
    assume "validateBoundedLoops p seen \<noteq> None"
    then obtain c where c: "is_cycle seen c" "\<forall>i\<in>set c. (StartStep p, i) \<in> (edge seen)\<^sup>*"
      using validateBoundedLoops_refuses by blast
    then have "hd c \<in> set c"
      by (cases c) (simp_all add: is_cycle_def)
    then show False
      using c acyc is_cycle_trancl by blast
  qed
qed

section \<open>What an accepted plan is like\<close>

definition plan_seen :: "plan \<Rightarrow> seen_map" where
  "plan_seen p = map (\<lambda>s. (SID s, s)) (Steps p)"

lemma map_of_plan_seen: "map_of (plan_seen p) i = StepByID p i"
proof -
  have "map_of (map (\<lambda>s. (SID s, s)) ss) i = find (\<lambda>s. SID s = i) ss" for ss
    by (induction ss) auto
  then show ?thesis by (simp add: plan_seen_def StepByID_def)
qed

lemma collect_steps_Inr:
  assumes "collect_steps ss seen = Inr seen'" and "distinct (map fst seen)"
  shows "seen' = seen @ map (\<lambda>s. (SID s, s)) ss" and "distinct (map fst seen')"
    and "\<forall>s\<in>set ss. SID s \<noteq> '''' \<and> validateStepShape s = None"
  using assms
proof (induction ss seen rule: collect_steps.induct)
  case (2 s ss seen)
  {
    case 1
    then show ?case using 2(1) by (auto split: if_splits option.splits)
  next
    case 2
    then show ?case using "2.IH"(2) by (auto split: if_splits option.splits)
  next
    case 3
    then show ?case using "2.IH"(3) by (auto split: if_splits option.splits)
  }
qed simp_all

lemma check_edges_None: "check_edges seen s ts = None \<Longrightarrow> t \<in> set ts \<Longrightarrow> map_of seen (TTo t) \<noteq> None"
  by (induction seen s ts rule: check_edges.induct) (auto split: if_splits option.splits)

lemma check_steps_None:
  "check_steps seen ss = None \<Longrightarrow> s \<in> set ss \<Longrightarrow> validateTransitions s = None \<and> check_edges seen s (STransitions s) = None"
  by (induction seen ss rule: check_steps.induct) (auto split: option.splits)

lemma orElse_None [simp]: "orElse a b = None \<longleftrightarrow> a = None \<and> b = None"
  by (simp add: orElse_def split: option.split)

lemma Validate_None:
  assumes "Validate p = None"
  shows "distinct (map SID (Steps p))"
    and "s \<in> set (Steps p) \<Longrightarrow> SID s \<noteq> '''' \<and> validateStepShape s = None \<and> validateTransitions s = None"
    and "s \<in> set (Steps p) \<Longrightarrow> t \<in> set (STransitions s) \<Longrightarrow> StepByID p (TTo t) \<noteq> None"
    and "StepByID p (StartStep p) \<noteq> None"
    and "validateReachability p (plan_seen p) = None" and "validateBoundedLoops p (plan_seen p) = None"
    and "validateScopeSubset p = None" and "validateOversightCompleteness p = None"
proof -
  obtain seen where c: "collect_steps (Steps p) [] = Inr seen"
    using assms by (auto simp: Validate_def split: if_splits sum.splits)
  have seen: "seen = plan_seen p" "distinct (map fst seen)"
    and shape: "\<forall>s\<in>set (Steps p). SID s \<noteq> '''' \<and> validateStepShape s = None"
    using collect_steps_Inr [OF c] by (simp_all add: plan_seen_def)
  have checks: "map_of seen (StartStep p) \<noteq> None" "check_steps seen (Steps p) = None" "validateReachability p seen = None"
    "validateBoundedLoops p seen = None" "validateScopeSubset p = None" "validateOversightCompleteness p = None"
    using assms by (auto simp: Validate_def c split: if_splits)
  show "distinct (map SID (Steps p))"
    using seen by (simp add: plan_seen_def comp_def)
  show "validateReachability p (plan_seen p) = None" "validateBoundedLoops p (plan_seen p) = None"
    "validateScopeSubset p = None" "validateOversightCompleteness p = None" "StepByID p (StartStep p) \<noteq> None"
    using checks seen(1) by (simp_all add: map_of_plan_seen)
  show "SID s \<noteq> '''' \<and> validateStepShape s = None \<and> validateTransitions s = None" if "s \<in> set (Steps p)"
    using check_steps_None [OF checks(2) that] shape that by blast
  show "StepByID p (TTo t) \<noteq> None" if "s \<in> set (Steps p)" and "t \<in> set (STransitions s)"
    using check_edges_None [of seen s "STransitions s" t] check_steps_None [OF checks(2) that(1)] that(2) seen(1)
    by (simp add: map_of_plan_seen)
qed

end
