(* ===== verification/Plan_Lifecycle.thy ===== *)
theory Plan_Lifecycle
  imports Plan_Schema Event_Log
begin

text \<open>
  The governed life of a plan version (\<^verbatim>\<open>internal/plan/lifecycle.go\<close>) over the table of
  \<^verbatim>\<open>internal/plan/postgres\<close>: drafts are validated, gated, signed off, enabled and retired, each step a
  unit of work that commits whole or not at all. A row holds the plan itself in place of its JSON
  text; the time columns (\<^verbatim>\<open>created_at\<close>, \<^verbatim>\<open>enabled_at\<close>), which the database fills and no code
  reads back, are left out. Every statement and every commit may fail, and a failed commit may have taken effect.
  Operations of one caller at a time are considered; the row lock of \<^verbatim>\<open>LockPlan\<close> is what makes the
  units of several callers a sequence.
\<close>

section \<open>Units of work\<close>

text \<open>
  A fallible computation on a store. \<open>thenE\<close> runs one and, unless it failed, what follows.
\<close>

type_synonym ('s, 'a) io = "'s \<Rightarrow> (err + 'a) \<times> 's"

definition retE :: "'a \<Rightarrow> ('s, 'a) io" where
  "retE a st = (Inr a, st)"

definition failE :: "err \<Rightarrow> ('s, 'a) io" where
  "failE e st = (Inl e, st)"

definition thenE :: "('s, 'a) io \<Rightarrow> ('a \<Rightarrow> ('s, 'b) io) \<Rightarrow> ('s, 'b) io" where
  "thenE m k st = (case m st of (Inl e, st') \<Rightarrow> (Inl e, st') | (Inr a, st') \<Rightarrow> k a st')"

text \<open>\<^verbatim>\<open>fmt.Errorf("msg: %w", err)\<close> around whatever failed.\<close>

definition wrapE :: "string \<Rightarrow> ('s, 'a) io \<Rightarrow> ('s, 'a) io" where
  "wrapE msg m st = (case m st of (Inl e, st') \<Rightarrow> (Inl (Wrapped msg e), st') | r \<Rightarrow> r)"

text \<open>\<open>moves R m\<close>: whatever the outcome, the store after \<open>m\<close> is related to the one before.\<close>

definition moves :: "('s \<Rightarrow> 's \<Rightarrow> bool) \<Rightarrow> ('s, 'a) io \<Rightarrow> bool" where
  "moves R m \<longleftrightarrow> (\<forall>st. R st (snd (m st)))"

lemma moves_retE [valid_rules]: "reflp R \<Longrightarrow> moves R (retE a)"
  by (simp add: moves_def retE_def reflp_def)

lemma moves_failE [valid_rules]: "reflp R \<Longrightarrow> moves R (failE e)"
  by (simp add: moves_def failE_def reflp_def)

lemma moves_thenE:
  assumes "transp R" and m: "moves R m" and k: "\<And>a. moves R (k a)"
  shows "moves R (thenE m k)"
  unfolding moves_def
proof
  fix st
  obtain r st1 where m_st: "m st = (r, st1)"
    by (rule prod.exhaust)
  have first: "R st st1"
    using m m_st by (metis moves_def snd_conv)
  have "R st (snd (k a st1))" for a
    by (rule transpD [OF assms(1) first]) (use k in \<open>simp add: moves_def\<close>)
  then show "R st (snd (thenE m k st))"
    using first by (simp add: thenE_def m_st split: sum.split)
qed

lemma moves_wrapE: "moves R m \<Longrightarrow> moves R (wrapE msg m)"
  by (simp add: moves_def wrapE_def split: prod.splits sum.splits) (metis snd_conv)

section \<open>The store\<close>

datatype plan_status = StatusDraft | StatusValidated | StatusEvalPassed | StatusSignedOff | StatusEnabled | StatusRetired

fun plan_status_str :: "plan_status \<Rightarrow> string" where
  "plan_status_str StatusDraft = ''draft''"
| "plan_status_str StatusValidated = ''validated''"
| "plan_status_str StatusEvalPassed = ''eval_passed''"
| "plan_status_str StatusSignedOff = ''signed_off''"
| "plan_status_str StatusEnabled = ''enabled''"
| "plan_status_str StatusRetired = ''retired''"

record plan_row =
  RPlanID :: uuid
  RTenant :: uuid
  RVersion :: int
  RName :: string
  RSpec :: plan
  RStatus :: plan_status
  RPins :: "(int \<times> string) option"
  RCreatedBy :: "string option"
  RSignedOffBy :: "string option"

text \<open>
  The events of the session a plan drives. What the executor appends is kept as the value it
  marshals and seals; what other services append to the same log is \<open>Elsewhere\<close>, except the content
  a model run produced, which the executor reads back.
\<close>

datatype plan_payload =
    PlanStarted uuid int
  | StepEntered string
  | StepExited string var_context
  | PlanTransition string string "predicate option"
  | PlanCompleted
  | UserInput string
  | Content string
  | Elsewhere event_type

record plan_event =
  PvID :: uuid
  PvPayload :: plan_payload

record 'e plan_store =
  PlanRows :: "plan_row list"
  PlanLog :: "plan_event list"
  SessPlan :: "(uuid \<times> int) option"
  SessStatus :: session_status
  SessReason :: "string option"
  PSEnv :: 'e

text \<open>
  What the store uses of the database: fresh identifiers, whether a statement fails, and the commit,
  whose failure says whether the unit persists all the same.
\<close>

record 'e plan_env =
  peNewUUID :: "'e \<Rightarrow> uuid \<times> 'e"
  peStatement :: "'e \<Rightarrow> err option \<times> 'e"
  peCommit :: "'e \<Rightarrow> (err \<times> bool) option \<times> 'e"
  peUuidString :: "uuid \<Rightarrow> string"

definition statement :: "('e, 'z) plan_env_scheme \<Rightarrow> ('e plan_store, unit) io" where
  "statement E st =
     (case peStatement E (PSEnv st) of
        (Some er, e1) \<Rightarrow> (Inl er, st\<lparr>PSEnv := e1\<rparr>)
      | (None, e1) \<Rightarrow> (Inr (), st\<lparr>PSEnv := e1\<rparr>))"

definition newUUID :: "('e, 'z) plan_env_scheme \<Rightarrow> ('e plan_store, uuid) io" where
  "newUUID E st = (case peNewUUID E (PSEnv st) of (u, e1) \<Rightarrow> (Inr u, st\<lparr>PSEnv := e1\<rparr>))"

definition reads :: "('s \<Rightarrow> 'a) \<Rightarrow> ('s, 'a) io" where
  "reads f st = (Inr (f st), st)"

definition updates :: "('s \<Rightarrow> 's) \<Rightarrow> ('s, unit) io" where
  "updates f st = (Inr (), f st)"

definition plan_InTenant :: "('e, 'z) plan_env_scheme \<Rightarrow> ('e plan_store, 'a) io \<Rightarrow> ('e plan_store, 'a) io" where
  "plan_InTenant E work st =
     (case peStatement E (PSEnv st) of
        (Some er, e1) \<Rightarrow> (Inl er, st\<lparr>PSEnv := e1\<rparr>)
      | (None, e1) \<Rightarrow>
          (case work (st\<lparr>PSEnv := e1\<rparr>) of
             (Inl er, st1) \<Rightarrow> (Inl er, st\<lparr>PSEnv := PSEnv st1\<rparr>)
           | (Inr a, st1) \<Rightarrow>
               (case peCommit E (PSEnv st1) of
                  (None, e2) \<Rightarrow> (Inr a, st1\<lparr>PSEnv := e2\<rparr>)
                | (Some (er, persisted), e2) \<Rightarrow> (Inl er, (if persisted then st1 else st)\<lparr>PSEnv := e2\<rparr>))))"

section \<open>The table\<close>

definition row_of :: "uuid \<Rightarrow> uuid \<Rightarrow> int \<Rightarrow> plan_row \<Rightarrow> bool" where
  "row_of tenantID planID version r \<longleftrightarrow> RTenant r = tenantID \<and> RPlanID r = planID \<and> RVersion r = version"

definition nullIfEmpty :: "string \<Rightarrow> string option" where
  "nullIfEmpty s = (if s = '''' then None else Some s)"

definition InsertPlan ::
    "('e, 'z) plan_env_scheme \<Rightarrow> uuid \<Rightarrow> plan \<Rightarrow> plan_status \<Rightarrow> string \<Rightarrow> ('e plan_store, unit) io" where
  "InsertPlan E tenantID p status createdBy =
     thenE (statement E) (\<lambda>_. thenE (reads PlanRows) (\<lambda>rows.
       if list_ex (\<lambda>r. RPlanID r = PlanID p \<and> RVersion r = PlVersion p) rows
       then failE (Err ''duplicate key value violates unique constraint'')
       else updates (\<lambda>st. st\<lparr>PlanRows := PlanRows st @
              [\<lparr>RPlanID = PlanID p, RTenant = tenantID, RVersion = PlVersion p, RName = PlName p, RSpec = p, RStatus = status,
                RPins = None, RCreatedBy = nullIfEmpty createdBy, RSignedOffBy = None\<rparr>]\<rparr>)))"

fun latest_row :: "plan_row list \<Rightarrow> plan_row option" where
  "latest_row [] = None"
| "latest_row (r # rs) =
     (case latest_row rs of None \<Rightarrow> Some r | Some s \<Rightarrow> if RVersion s > RVersion r then Some s else Some r)"

definition PlanSpec :: "('e, 'z) plan_env_scheme \<Rightarrow> uuid \<Rightarrow> uuid \<Rightarrow> int \<Rightarrow> ('e plan_store, (plan \<times> plan_status) option) io" where
  "PlanSpec E tenantID planID version =
     thenE (statement E) (\<lambda>_. reads (\<lambda>st.
       map_option (\<lambda>r. (RSpec r, RStatus r))
         (if version > 0 then find (row_of tenantID planID version) (PlanRows st)
          else latest_row (filter (\<lambda>r. RTenant r = tenantID \<and> RPlanID r = planID) (PlanRows st)))))"

definition LockPlan :: "('e, 'z) plan_env_scheme \<Rightarrow> uuid \<Rightarrow> uuid \<Rightarrow> int \<Rightarrow> ('e plan_store, (plan \<times> plan_status) option) io" where
  "LockPlan E tenantID planID version =
     thenE (statement E) (\<lambda>_. reads (\<lambda>st.
       map_option (\<lambda>r. (RSpec r, RStatus r)) (find (row_of tenantID planID version) (PlanRows st))))"

definition update_row ::
    "('e, 'z) plan_env_scheme \<Rightarrow> uuid \<Rightarrow> uuid \<Rightarrow> int \<Rightarrow> (plan_row \<Rightarrow> plan_row) \<Rightarrow> ('e plan_store, unit) io" where
  "update_row E tenantID planID version f =
     thenE (statement E) (\<lambda>_. updates (\<lambda>st.
       st\<lparr>PlanRows := map (\<lambda>r. if row_of tenantID planID version r then f r else r) (PlanRows st)\<rparr>))"

definition SetPlan :: "('e, 'z) plan_env_scheme \<Rightarrow> uuid \<Rightarrow> uuid \<Rightarrow> int \<Rightarrow> plan \<Rightarrow> plan_status \<Rightarrow> ('e plan_store, unit) io" where
  "SetPlan E tenantID planID version spec status =
     update_row E tenantID planID version (\<lambda>r. r\<lparr>RSpec := spec, RStatus := status\<rparr>)"

definition SetSignedOffBy :: "('e, 'z) plan_env_scheme \<Rightarrow> uuid \<Rightarrow> uuid \<Rightarrow> int \<Rightarrow> string \<Rightarrow> ('e plan_store, unit) io" where
  "SetSignedOffBy E tenantID planID version signer =
     update_row E tenantID planID version (\<lambda>r. r\<lparr>RSignedOffBy := Some signer\<rparr>)"

definition SetEnabledPins :: "('e, 'z) plan_env_scheme \<Rightarrow> uuid \<Rightarrow> uuid \<Rightarrow> int \<Rightarrow> int \<Rightarrow> string \<Rightarrow> ('e plan_store, unit) io" where
  "SetEnabledPins E tenantID planID version agentVersion routeModelID =
     update_row E tenantID planID version (\<lambda>r. r\<lparr>RPins := Some (agentVersion, routeModelID)\<rparr>)"

definition RetirePlan :: "('e, 'z) plan_env_scheme \<Rightarrow> uuid \<Rightarrow> uuid \<Rightarrow> int \<Rightarrow> ('e plan_store, bool) io" where
  "RetirePlan E tenantID planID version =
     wrapE (''plan: retire '' @ peUuidString E planID @ '' version '' @ dec_int version)
       (thenE (statement E) (\<lambda>_. thenE (reads (\<lambda>st. list_ex (\<lambda>r. row_of tenantID planID version r \<and> RStatus r = StatusEnabled) (PlanRows st)))
         (\<lambda>hit. thenE (updates (\<lambda>st. st\<lparr>PlanRows :=
              map (\<lambda>r. if row_of tenantID planID version r \<and> RStatus r = StatusEnabled then r\<lparr>RStatus := StatusRetired\<rparr> else r) (PlanRows st)\<rparr>))
            (\<lambda>_. retE hit))))"

section \<open>The lifecycle\<close>

definition plan_name :: "('e, 'z) plan_env_scheme \<Rightarrow> uuid \<Rightarrow> int \<Rightarrow> string" where
  "plan_name E planID version = peUuidString E planID @ '' version '' @ dec_int version"

definition insert_plan :: "('e, 'z) plan_env_scheme \<Rightarrow> uuid \<Rightarrow> plan \<Rightarrow> plan_status \<Rightarrow> string \<Rightarrow> ('e plan_store, unit) io" where
  "insert_plan E tenantID p status createdBy = plan_InTenant E (InsertPlan E tenantID p status createdBy)"

definition Create_plan :: "('e, 'z) plan_env_scheme \<Rightarrow> uuid \<Rightarrow> plan \<Rightarrow> string \<Rightarrow> ('e plan_store, plan) io" where
  "Create_plan E tenantID p createdBy =
     thenE (if PlanID p = 0 then newUUID E else retE (PlanID p)) (\<lambda>planID.
       let p1 = p\<lparr>PlanID := planID, PlTenant := tenantID, PlVersion := 1\<rparr> in
       thenE (insert_plan E tenantID p1 StatusDraft createdBy) (\<lambda>_. retE p1))"

definition Get_plan :: "('e, 'z) plan_env_scheme \<Rightarrow> uuid \<Rightarrow> uuid \<Rightarrow> int \<Rightarrow> ('e plan_store, plan \<times> plan_status) io" where
  "Get_plan E tenantID planID version =
     thenE (wrapE (''plan: get '' @ plan_name E planID version) (plan_InTenant E (PlanSpec E tenantID planID version))) (\<lambda>r.
       case r of
         None \<Rightarrow> failE (Err (''plan: '' @ plan_name E planID version @ '' not found''))
       | Some (p, status) \<Rightarrow> retE (p, status))"

definition NewVersion :: "('e, 'z) plan_env_scheme \<Rightarrow> uuid \<Rightarrow> uuid \<Rightarrow> plan \<Rightarrow> string \<Rightarrow> ('e plan_store, plan) io" where
  "NewVersion E tenantID planID p createdBy =
     thenE (Get_plan E tenantID planID 0) (\<lambda>(latest, _).
       let p1 = p\<lparr>PlanID := planID, PlTenant := tenantID, PlVersion := PlVersion latest + 1\<rparr> in
       thenE (insert_plan E tenantID p1 StatusDraft createdBy) (\<lambda>_. retE p1))"

definition transition_unit ::
    "('e, 'z) plan_env_scheme \<Rightarrow> uuid \<Rightarrow> uuid \<Rightarrow> int \<Rightarrow> plan_status \<Rightarrow> plan_status \<Rightarrow> (plan \<Rightarrow> plan) option
      \<Rightarrow> ('e plan_store, unit) io option \<Rightarrow> ('e plan_store, unit) io" where
  "transition_unit E tenantID planID version src dst mutate after =
        thenE (wrapE (''plan: load '' @ plan_name E planID version) (LockPlan E tenantID planID version)) (\<lambda>r.
          case r of
            None \<Rightarrow> failE (Err (''plan: load '' @ plan_name E planID version @ '': not found''))
          | Some (p, status) \<Rightarrow>
              if status = StatusEnabled \<or> status = StatusRetired
              then failE (Err (''plan: '' @ plan_name E planID version @ '' is '' @ plan_status_str status @
                               ''; enabled/retired versions are immutable''))
              else if status \<noteq> src
              then failE (Err (''plan: '' @ plan_name E planID version @ '' is '' @ plan_status_str status @ '', not '' @ plan_status_str src))
              else
                thenE (SetPlan E tenantID planID version (case mutate of None \<Rightarrow> p | Some f \<Rightarrow> f p) dst) (\<lambda>_.
                  case after of None \<Rightarrow> retE () | Some a \<Rightarrow> a))"

definition transition_plan ::
    "('e, 'z) plan_env_scheme \<Rightarrow> uuid \<Rightarrow> uuid \<Rightarrow> int \<Rightarrow> plan_status \<Rightarrow> plan_status \<Rightarrow> (plan \<Rightarrow> plan) option
      \<Rightarrow> ('e plan_store, unit) io option \<Rightarrow> ('e plan_store, unit) io" where
  "transition_plan E tenantID planID version src dst mutate after =
     plan_InTenant E (transition_unit E tenantID planID version src dst mutate after)"

definition ValidatePlan :: "('e, 'z) plan_env_scheme \<Rightarrow> uuid \<Rightarrow> uuid \<Rightarrow> int \<Rightarrow> ('e plan_store, unit) io" where
  "ValidatePlan E tenantID planID version =
     thenE (Get_plan E tenantID planID version) (\<lambda>(p, status).
       if status \<noteq> StatusDraft
       then failE (Err (''plan: '' @ plan_name E planID version @ '' is '' @ plan_status_str status @ '', not draft''))
       else
         (case Validate p of
            Some e \<Rightarrow> failE (Wrapped ''plan: validation failed'' e)
          | None \<Rightarrow> transition_plan E tenantID planID version StatusDraft StatusValidated None None))"

text \<open>The gate is a function of the caller's; it may use the outside world and says whether the plan passed, with a detail.\<close>

type_synonym 'e eval_gate = "plan \<Rightarrow> 'e \<Rightarrow> (err + bool \<times> string) \<times> 'e"

definition call_gate :: "'e eval_gate \<Rightarrow> plan \<Rightarrow> ('e plan_store, bool \<times> string) io" where
  "call_gate gate p st = (case gate p (PSEnv st) of (r, e1) \<Rightarrow> (r, st\<lparr>PSEnv := e1\<rparr>))"

definition RunEvalGate ::
    "('e, 'z) plan_env_scheme \<Rightarrow> uuid \<Rightarrow> uuid \<Rightarrow> int \<Rightarrow> 'e eval_gate \<Rightarrow> ('e plan_store, bool \<times> string) io" where
  "RunEvalGate E tenantID planID version gate =
     thenE (Get_plan E tenantID planID version) (\<lambda>(p, status).
       if status \<noteq> StatusValidated
       then failE (Err (''plan: '' @ plan_name E planID version @ '' is '' @ plan_status_str status @ '', not validated''))
       else
         thenE (wrapE ''plan: eval gate errored'' (call_gate gate p)) (\<lambda>(passed, detail).
           if \<not> passed then retE (False, detail)
           else thenE (transition_plan E tenantID planID version StatusValidated StatusEvalPassed None None) (\<lambda>_. retE (True, detail))))"

definition SignOff :: "('e, 'z) plan_env_scheme \<Rightarrow> uuid \<Rightarrow> uuid \<Rightarrow> int \<Rightarrow> string \<Rightarrow> ('e plan_store, unit) io" where
  "SignOff E tenantID planID version signer =
     (if signer = '''' then failE (Err ''plan: sign-off requires a named signer'')
      else transition_plan E tenantID planID version StatusEvalPassed StatusSignedOff None
             (Some (SetSignedOffBy E tenantID planID version signer)))"

definition Enable :: "('e, 'z) plan_env_scheme \<Rightarrow> uuid \<Rightarrow> uuid \<Rightarrow> int \<Rightarrow> int \<Rightarrow> string \<Rightarrow> ('e plan_store, unit) io" where
  "Enable E tenantID planID version agentVersion routeModelID =
     transition_plan E tenantID planID version StatusSignedOff StatusEnabled
       (Some (\<lambda>p. p\<lparr>PlAgentVersion := agentVersion, PlRouteModelID := routeModelID\<rparr>))
       (Some (SetEnabledPins E tenantID planID version agentVersion routeModelID))"

definition Retire :: "('e, 'z) plan_env_scheme \<Rightarrow> uuid \<Rightarrow> uuid \<Rightarrow> int \<Rightarrow> ('e plan_store, unit) io" where
  "Retire E tenantID planID version =
     plan_InTenant E
       (thenE (RetirePlan E tenantID planID version) (\<lambda>retired.
          if \<not> retired
          then failE (Err (''plan: '' @ plan_name E planID version @ '' is not enabled; nothing to retire''))
          else retE ()))"

section \<open>The table as a state machine\<close>

text \<open>The order the lifecycle promises, as a relation on the rows.\<close>

inductive advance :: "plan_row \<Rightarrow> plan_row \<Rightarrow> bool" where
  validated: "RStatus r = StatusDraft \<Longrightarrow> Validate (RSpec r) = None \<Longrightarrow> advance r (r\<lparr>RStatus := StatusValidated\<rparr>)"
| eval_passed: "RStatus r = StatusValidated \<Longrightarrow> advance r (r\<lparr>RStatus := StatusEvalPassed\<rparr>)"
| signed_off: "RStatus r = StatusEvalPassed \<Longrightarrow> signer \<noteq> '''' \<Longrightarrow>
    advance r (r\<lparr>RStatus := StatusSignedOff, RSignedOffBy := Some signer\<rparr>)"
| enabled: "RStatus r = StatusSignedOff \<Longrightarrow>
    advance r (r\<lparr>RSpec := (RSpec r)\<lparr>PlAgentVersion := v, PlRouteModelID := m\<rparr>, RStatus := StatusEnabled, RPins := Some (v, m)\<rparr>)"
| retired: "RStatus r = StatusEnabled \<Longrightarrow> advance r (r\<lparr>RStatus := StatusRetired\<rparr>)"

definition row_key :: "plan_row \<Rightarrow> uuid \<times> int" where
  "row_key r = (RPlanID r, RVersion r)"

inductive table_step :: "plan_row list \<Rightarrow> plan_row list \<Rightarrow> bool" where
  stay: "table_step rows rows"
| insert: "\<lbrakk>row_key r \<notin> row_key ` set rows; RStatus r = StatusDraft; RVersion r \<ge> 1; PlVersion (RSpec r) = RVersion r\<rbrakk>
    \<Longrightarrow> table_step rows (rows @ [r])"
| move: "\<lbrakk>k < length rows; advance (rows ! k) r'\<rbrakk> \<Longrightarrow> table_step rows (rows[k := r'])"

inductive governed :: "plan_row list \<Rightarrow> bool" where
  empty: "governed []"
| step: "governed rows \<Longrightarrow> table_step rows rows' \<Longrightarrow> governed rows'"

lemma advance_key: "advance r r' \<Longrightarrow> row_key r' = row_key r \<and> RTenant r' = RTenant r \<and> (PlVersion (RSpec r') = PlVersion (RSpec r))"
  by (auto simp: row_key_def elim: advance.cases)

lemma governed_keys:
  assumes "governed rows"
  shows "distinct (map row_key rows)" and "r \<in> set rows \<Longrightarrow> RVersion r \<ge> 1 \<and> PlVersion (RSpec r) = RVersion r"
proof -
  have "distinct (map row_key rows) \<and> (\<forall>r\<in>set rows. RVersion r \<ge> 1 \<and> PlVersion (RSpec r) = RVersion r)"
    using assms
  proof induction
    case (step rows rows')
    from step(2,3) show ?case
    proof cases
      case (move k r')
      then have "row_key r' = row_key (rows ! k)" "PlVersion (RSpec r') = PlVersion (RSpec (rows ! k))"
        using advance_key by blast+
      then have "map row_key rows' = map row_key rows" "RVersion r' = RVersion (rows ! k)"
        using move(1,2) by (simp_all add: map_update row_key_def) (metis list_update_id nth_map row_key_def)
      then show ?thesis
        using step(3) move \<open>PlVersion (RSpec r') = _\<close> by (auto simp del: map_update dest!: set_update_subset_insert [THEN subsetD])
    qed auto
  qed simp
  then show "distinct (map row_key rows)" and "r \<in> set rows \<Longrightarrow> RVersion r \<ge> 1 \<and> PlVersion (RSpec r) = RVersion r"
    by blast+
qed

lemma map_row_update:
  assumes "distinct (map row_key rows)" and "find (row_of t p v) rows = Some r"
  obtains k where "k < length rows" and "rows ! k = r"
    and "\<And>f. map (\<lambda>r. if row_of t p v r then f r else r) rows = rows[k := f r]"
proof -
  obtain k where k: "k < length rows" "row_of t p v (rows ! k)" "rows ! k = r"
    using assms(2) by (auto simp: find_Some_iff)
  have "\<not> row_of t p v (rows ! j)" if "j < length rows" "j \<noteq> k" for j
    using assms(1) that k nth_eq_iff_index_eq [of "map row_key rows" j k] by (auto simp: row_of_def row_key_def)
  then have "map (\<lambda>r. if row_of t p v r then f r else r) rows = rows[k := f r]" for f
    using k by (intro nth_equalityI) (auto simp: nth_list_update)
  then show thesis
    using that k by blast
qed

section \<open>The operations follow the machine\<close>

lemma plan_InTenant_cases:
  assumes "plan_InTenant E work st = (r, st')"
  obtains (undone) er e where "r = Inl er" and "st' = st\<lparr>PSEnv := e\<rparr>"
  | (done_) a e1 st1 e2 where "work (st\<lparr>PSEnv := e1\<rparr>) = (Inr a, st1)" and "st' = st1\<lparr>PSEnv := e2\<rparr>" and "r = Inr a \<or> (\<exists>er. r = Inl er)"
proof -
  obtain b e1 where b: "peStatement E (PSEnv st) = (b, e1)"
    by (rule prod.exhaust)
  obtain c st1 where c: "work (st\<lparr>PSEnv := e1\<rparr>) = (c, st1)"
    by (rule prod.exhaust)
  obtain d e2 where d: "peCommit E (PSEnv st1) = (d, e2)"
    by (rule prod.exhaust)
  show thesis
  proof (cases "b = None \<and> (\<exists>a. c = Inr a) \<and> (\<forall>er. d \<noteq> Some (er, False))")
    case True
    then obtain a where "c = Inr a" by blast
    then show ?thesis
      using done_ [of e1 a st1 e2] assms True by (auto simp: plan_InTenant_def b c d split: option.splits if_splits)
  next
    case False
    then show ?thesis
      using undone assms by (auto simp: plan_InTenant_def b c d split: option.splits sum.splits if_splits)
  qed
qed

lemma plan_InTenant_rows:
  obtains "PlanRows (snd (plan_InTenant E work st)) = PlanRows st"
  | a e1 st1 where "work (st\<lparr>PSEnv := e1\<rparr>) = (Inr a, st1)" and "PlanRows (snd (plan_InTenant E work st)) = PlanRows st1"
proof -
  obtain r st' where eq: "plan_InTenant E work st = (r, st')"
    by (rule prod.exhaust)
  show thesis
    using eq by (cases rule: plan_InTenant_cases) (use that eq in auto)
qed

lemma thenE_Inr:
  assumes "thenE m k st = (Inr b, st')"
  obtains a st1 where "m st = (Inr a, st1)" and "k a st1 = (Inr b, st')"
  using assms by (auto simp: thenE_def split: prod.splits sum.splits)

lemma wrapE_Inr: "wrapE msg m st = (Inr a, st') \<longleftrightarrow> m st = (Inr a, st')"
  by (auto simp: wrapE_def split: prod.splits sum.splits)

lemma failE_Inr [simp]: "failE e st = (Inr a, st') \<longleftrightarrow> False"
  by (simp add: failE_def)

lemma retE_Inr [simp]: "retE a st = (Inr b, st') \<longleftrightarrow> b = a \<and> st' = st"
  by (auto simp: retE_def)

lemma reads_Inr [simp]: "reads f st = (Inr b, st') \<longleftrightarrow> b = f st \<and> st' = st"
  by (auto simp: reads_def)

lemma updates_Inr [simp]: "updates f st = (Inr b, st') \<longleftrightarrow> st' = f st"
  by (auto simp: updates_def)

lemma statement_rows: "statement E st = (r, st') \<Longrightarrow> PlanRows st' = PlanRows st"
  by (auto simp: statement_def split: prod.splits option.splits)

lemma update_row_Inr:
  "update_row E t p v f st = (Inr a, st') \<Longrightarrow>
     PlanRows st' = map (\<lambda>r. if row_of t p v r then f r else r) (PlanRows st)"
  by (auto simp: update_row_def elim!: thenE_Inr dest!: statement_rows)

lemma LockPlan_Inr:
  "LockPlan E t p v st = (Inr a, st') \<Longrightarrow>
     PlanRows st' = PlanRows st \<and> a = map_option (\<lambda>r. (RSpec r, RStatus r)) (find (row_of t p v) (PlanRows st))"
  by (auto simp: LockPlan_def elim!: thenE_Inr dest!: statement_rows)

lemma transition_Inr:
  assumes keys: "distinct (map row_key (PlanRows st))"
    and after: "after = None \<and> g = id \<or> after = Some (update_row E t p v g)"
    and run: "transition_unit E t p v src dst mutate after st = (Inr b, st')"
  obtains k r q where "k < length (PlanRows st)" and "PlanRows st ! k = r" and "row_of t p v r" and "RStatus r = src"
    and "q = (case mutate of None \<Rightarrow> RSpec r | Some f \<Rightarrow> f (RSpec r))"
    and "PlanRows st' = (PlanRows st)[k := g (r\<lparr>RSpec := q, RStatus := dst\<rparr>)]"
proof -
  obtain a st1 where lock: "LockPlan E t p v st = (Inr a, st1)"
    and rest: "(case a of None \<Rightarrow> failE (Err (''plan: load '' @ plan_name E p v @ '': not found''))
          | Some (q, status) \<Rightarrow>
              if status = StatusEnabled \<or> status = StatusRetired
              then failE (Err (''plan: '' @ plan_name E p v @ '' is '' @ plan_status_str status @
                               ''; enabled/retired versions are immutable''))
              else if status \<noteq> src
              then failE (Err (''plan: '' @ plan_name E p v @ '' is '' @ plan_status_str status @ '', not '' @ plan_status_str src))
              else
                thenE (SetPlan E t p v (case mutate of None \<Rightarrow> q | Some f \<Rightarrow> f q) dst) (\<lambda>_.
                  case after of None \<Rightarrow> retE () | Some a \<Rightarrow> a)) st1 = (Inr b, st')"
    by (rule thenE_Inr [OF run [unfolded transition_unit_def]]) (simp only: wrapE_Inr)
  have rows1: "PlanRows st1 = PlanRows st"
    and a: "a = map_option (\<lambda>r. (RSpec r, RStatus r)) (find (row_of t p v) (PlanRows st))"
    using LockPlan_Inr [OF lock] by simp_all
  obtain r where r: "find (row_of t p v) (PlanRows st) = Some r"
    using rest by (cases "find (row_of t p v) (PlanRows st)") (simp_all add: a)
  let ?q = "case mutate of None \<Rightarrow> RSpec r | Some f \<Rightarrow> f (RSpec r)"
  have src: "RStatus r = src"
    and set_after: "thenE (SetPlan E t p v ?q dst) (\<lambda>_. case after of None \<Rightarrow> retE () | Some a \<Rightarrow> a) st1 = (Inr b, st')"
    using rest by (simp_all add: a r split: if_splits)
  let ?h = "\<lambda>r'. r'\<lparr>RSpec := ?q, RStatus := dst\<rparr>"
  obtain c st2 where set_plan: "SetPlan E t p v ?q dst st1 = (Inr c, st2)"
    and last: "(case after of None \<Rightarrow> retE () | Some a \<Rightarrow> a) st2 = (Inr b, st')"
    by (rule thenE_Inr [OF set_after])
  have rows2: "PlanRows st2 = map (\<lambda>r'. if row_of t p v r' then ?h r' else r') (PlanRows st)"
    using update_row_Inr [OF set_plan [unfolded SetPlan_def]] unfolding rows1 .
  have "PlanRows st' = map (\<lambda>r'. if row_of t p v r' then g (?h r') else r') (PlanRows st)"
  proof (cases after)
    case None
    then show ?thesis using after last rows2 by simp
  next
    case (Some act)
    then have "PlanRows st' = map (\<lambda>r'. if row_of t p v r' then g r' else r') (PlanRows st2)"
      using after last by (intro update_row_Inr) simp
    then show ?thesis
      by (simp add: rows2 row_of_def)
  qed
  moreover obtain k where k: "k < length (PlanRows st)" "PlanRows st ! k = r"
    "\<And>f. map (\<lambda>r. if row_of t p v r then f r else r) (PlanRows st) = (PlanRows st)[k := f r]"
    by (rule map_row_update [OF keys r]) blast
  moreover have "row_of t p v r"
    using r by (auto simp: find_Some_iff)
  ultimately show thesis
    using that [OF k(1,2)] src by simp
qed

definition follows :: "'e plan_store \<Rightarrow> 'e plan_store \<Rightarrow> bool" where
  "follows st st' \<longleftrightarrow> (governed (PlanRows st) \<longrightarrow> table_step\<^sup>*\<^sup>* (PlanRows st) (PlanRows st'))"

lemma governed_steps: "table_step\<^sup>*\<^sup>* rows rows' \<Longrightarrow> governed rows \<Longrightarrow> governed rows'"
  by (induction rule: rtranclp_induct) (auto intro: governed.step)

lemma reflp_follows [simp]: "reflp follows"
  by (simp add: reflp_def follows_def)

lemma transp_follows [simp]: "transp follows"
  by (auto simp: transp_def follows_def dest: governed_steps)

lemma follows_same_rows: "PlanRows st' = PlanRows st \<Longrightarrow> follows st st'"
  by (simp add: follows_def)

lemma InTenant_follows:
  assumes "\<And>st1 a st2. \<lbrakk>governed (PlanRows st1); PlanRows st1 = PlanRows st; work st1 = (Inr a, st2)\<rbrakk> \<Longrightarrow> table_step\<^sup>*\<^sup>* (PlanRows st1) (PlanRows st2)"
  shows "follows st (snd (plan_InTenant E work st))"
proof (cases rule: plan_InTenant_rows [of E work st])
  case (2 a e1 st1)
  then show ?thesis
    using assms [of "st\<lparr>PSEnv := e1\<rparr>" a st1] by (simp add: follows_def)
qed (simp add: follows_def)

lemma transition_follows:
  assumes "after = None \<and> g = id \<or> after = Some (update_row E t p v g)"
    and adv: "\<And>r. \<lbrakk>governed (PlanRows st); r \<in> set (PlanRows st); row_of t p v r; RStatus r = src\<rbrakk>
        \<Longrightarrow> advance r (g (r\<lparr>RSpec := (case mutate of None \<Rightarrow> RSpec r | Some f \<Rightarrow> f (RSpec r)), RStatus := dst\<rparr>))"
  shows "follows st (snd (transition_plan E t p v src dst mutate after st))"
  unfolding transition_plan_def
proof (rule InTenant_follows)
  fix st1 a st2
  assume gov: "governed (PlanRows st1)" and same: "PlanRows st1 = PlanRows st"
    and run: "transition_unit E t p v src dst mutate after st1 = (Inr a, st2)"
  show "table_step\<^sup>*\<^sup>* (PlanRows st1) (PlanRows st2)"
    by (rule transition_Inr [OF governed_keys(1) [OF gov] assms(1) run])
      (use adv gov same nth_mem in \<open>auto intro!: r_into_rtranclp table_step.move\<close>)
qed

lemma statement_moves [valid_rules]: "moves follows (statement E)"
  unfolding moves_def by (metis follows_same_rows prod.collapse statement_rows)

lemma newUUID_follows [valid_rules]: "moves follows (newUUID E)"
  unfolding moves_def by (auto simp: newUUID_def follows_same_rows split: prod.splits)

lemma find_row_version: "find (row_of t p v) rows = Some r \<Longrightarrow> r \<in> set rows \<and> row_of t p v r"
  by (auto simp: find_Some_iff)

lemma Get_plan_Inr:
  assumes "Get_plan E t planID v st = (Inr (p, status), st')"
  shows "PlanRows st' = PlanRows st" and "v > 0 \<Longrightarrow> \<exists>r. find (row_of t planID v) (PlanRows st) = Some r \<and> RSpec r = p \<and> RStatus r = status"
    and "\<exists>r\<in>set (PlanRows st). RSpec r = p \<and> RStatus r = status \<and> RTenant r = t"
    and "map_option RSpec (if v > 0 then find (row_of t planID v) (PlanRows st)
           else latest_row (filter (\<lambda>r. RTenant r = t \<and> RPlanID r = planID) (PlanRows st))) = Some p"
proof -
  have latest: "latest_row rs = Some r \<Longrightarrow> r \<in> set rs" for rs r
    by (induction rs arbitrary: r) (auto split: option.splits if_splits)
  obtain r st1 where unit: "plan_InTenant E (PlanSpec E t planID v) st = (Inr r, st1)" and r: "r = Some (p, status)" "st' = st1"
    using assms unfolding Get_plan_def by (auto elim!: thenE_Inr simp: wrapE_Inr split: option.splits)
  from unit obtain e1 st2 e2 where spec: "PlanSpec E t planID v (st\<lparr>PSEnv := e1\<rparr>) = (Inr r, st2)" and st1: "st1 = st2\<lparr>PSEnv := e2\<rparr>"
    by (cases rule: plan_InTenant_cases) auto
  have found: "PlanRows st2 = PlanRows st"
    "r = map_option (\<lambda>r. (RSpec r, RStatus r))
         (if v > 0 then find (row_of t planID v) (PlanRows st)
          else latest_row (filter (\<lambda>r. RTenant r = t \<and> RPlanID r = planID) (PlanRows st)))"
    using spec by (auto simp: PlanSpec_def elim!: thenE_Inr dest!: statement_rows)
  show "PlanRows st' = PlanRows st"
    using found(1) r(2) st1 by simp
  show "v > 0 \<Longrightarrow> \<exists>r. find (row_of t planID v) (PlanRows st) = Some r \<and> RSpec r = p \<and> RStatus r = status"
    using found(2) [symmetric, unfolded r(1)] by auto
  show "\<exists>r\<in>set (PlanRows st). RSpec r = p \<and> RStatus r = status \<and> RTenant r = t"
    using found(2) [symmetric, unfolded r(1)] by (auto split: if_splits dest!: find_row_version latest simp: row_of_def)
  show "map_option RSpec (if v > 0 then find (row_of t planID v) (PlanRows st)
           else latest_row (filter (\<lambda>r. RTenant r = t \<and> RPlanID r = planID) (PlanRows st))) = Some p"
    using found(2) [symmetric, unfolded r(1)] by (auto split: if_splits)
qed

lemma Get_plan_moves [valid_rules]: "moves follows (Get_plan E t planID v)"
proof -
  have "moves follows (plan_InTenant E (PlanSpec E t planID v))"
    unfolding moves_def
  proof (intro allI InTenant_follows)
    fix st1 a and st2 :: "'a plan_store"
    assume "PlanSpec E t planID v st1 = (Inr a, st2)"
    then have "PlanRows st2 = PlanRows st1"
      by (auto simp: PlanSpec_def elim!: thenE_Inr dest!: statement_rows)
    then show "table_step\<^sup>*\<^sup>* (PlanRows st1) (PlanRows st2)" by simp
  qed
  then show ?thesis
    unfolding Get_plan_def
    by (intro moves_thenE moves_wrapE) (auto intro: moves_retE moves_failE split: option.split)
qed

lemma insert_follows:
  assumes "PlVersion p \<ge> 1"
  shows "follows st (snd (insert_plan E t p StatusDraft createdBy st))"
  unfolding insert_plan_def
proof (rule InTenant_follows)
  fix st1 a st2
  assume "InsertPlan E t p StatusDraft createdBy st1 = (Inr a, st2)"
  then obtain r where "PlanRows st2 = PlanRows st1 @ [r]" and "row_key r \<notin> row_key ` set (PlanRows st1)" and "RStatus r = StatusDraft"
    and "RVersion r = PlVersion p" and "RSpec r = p"
    by (auto simp: InsertPlan_def list_ex_iff row_key_def image_iff elim!: thenE_Inr dest!: statement_rows split: if_splits) metis
  then show "table_step\<^sup>*\<^sup>* (PlanRows st1) (PlanRows st2)"
    using table_step.insert [of r "PlanRows st1"] assms by auto
qed

lemma follows_thenE:
  assumes "follows st (snd (m st))" and "\<And>a st1. m st = (Inr a, st1) \<Longrightarrow> follows st1 (snd (k a st1))"
  shows "follows st (snd (thenE m k st))"
proof -
  obtain r st1 where r: "m st = (r, st1)"
    by (rule prod.exhaust)
  show ?thesis
    using assms transpD [OF transp_follows, of st st1] by (simp add: thenE_def r split: sum.split)
qed

lemma insert_moves: "PlVersion p \<ge> 1 \<Longrightarrow> moves follows (insert_plan E t p StatusDraft createdBy)"
  by (simp add: moves_def insert_follows)

lemma Create_plan_moves: "moves follows (Create_plan E t p createdBy)"
  unfolding Create_plan_def Let_def
  by (intro moves_thenE) (auto intro: moves_retE newUUID_follows insert_moves)

lemma NewVersion_moves: "moves follows (NewVersion E t planID p createdBy)"
  unfolding moves_def
proof
  fix st
  show "follows st (snd (NewVersion E t planID p createdBy st))"
    unfolding NewVersion_def
  proof (rule follows_thenE)
    fix a st1
    assume get: "Get_plan E t planID 0 st = (Inr a, st1)"
    obtain latest status where a: "a = (latest, status)"
      by (rule prod.exhaust)
    let ?p1 = "p\<lparr>PlanID := planID, PlTenant := t, PlVersion := PlVersion latest + 1\<rparr>"
    have "follows st1 (snd (insert_plan E t ?p1 StatusDraft createdBy st1))" if "governed (PlanRows st1)"
      using Get_plan_Inr(1,3) [of E t planID 0 st latest status st1] get a that governed_keys(2) [of "PlanRows st1"]
      by (intro insert_follows) fastforce
    then have "follows st1 (snd (insert_plan E t ?p1 StatusDraft createdBy st1))"
      by (auto simp: follows_def)
    then show "follows st1 (snd ((case a of (latest, _) \<Rightarrow>
         let p1 = p\<lparr>PlanID := planID, PlTenant := t, PlVersion := PlVersion latest + 1\<rparr> in
         thenE (insert_plan E t p1 StatusDraft createdBy) (\<lambda>_. retE p1)) st1))"
      unfolding a Let_def prod.case by (rule follows_thenE) (simp add: retE_def follows_same_rows)
  qed (rule Get_plan_moves [unfolded moves_def, rule_format])
qed

lemma ValidatePlan_moves: "moves follows (ValidatePlan E t planID v)"
  unfolding moves_def
proof
  fix st
  show "follows st (snd (ValidatePlan E t planID v st))"
    unfolding ValidatePlan_def
  proof (rule follows_thenE)
    fix a st1
    assume get: "Get_plan E t planID v st = (Inr a, st1)"
    obtain p status where a: "a = (p, status)"
      by (rule prod.exhaust)
    have rows: "PlanRows st1 = PlanRows st"
      using Get_plan_Inr(1) get a by metis
    have spec: "RSpec r = p" if "governed (PlanRows st1)" and r: "r \<in> set (PlanRows st1)" "row_of t planID v r" for r
    proof -
      have "v > 0"
        using governed_keys(2) [OF that(1) r(1)] r(2) by (simp add: row_of_def)
      then obtain r' where "find (row_of t planID v) (PlanRows st) = Some r'" "RSpec r' = p"
        using Get_plan_Inr(2) [of E t planID v st p status st1] get a by auto
      moreover have "r' = r"
        using governed_keys(1) [OF that(1)] r find_row_version [OF calculation(1)] unfolding rows distinct_map
        by (intro inj_onD [of row_key "set (PlanRows st)" r' r]) (auto simp: row_of_def row_key_def)
      ultimately show ?thesis by simp
    qed
    have "follows st1 (snd (transition_plan E t planID v StatusDraft StatusValidated None None st1))" if "Validate p = None"
      using spec that advance.validated by (intro transition_follows [where g = id]) fastforce+
    then show "follows st1 (snd ((case a of (p, status) \<Rightarrow>
       if status \<noteq> StatusDraft
       then failE (Err (''plan: '' @ plan_name E planID v @ '' is '' @ plan_status_str status @ '', not draft''))
       else (case Validate p of Some e \<Rightarrow> failE (Wrapped ''plan: validation failed'' e)
             | None \<Rightarrow> transition_plan E t planID v StatusDraft StatusValidated None None)) st1))"
      by (simp add: a failE_def follows_same_rows split: option.split)
  qed (rule Get_plan_moves [unfolded moves_def, rule_format])
qed

lemma call_gate_moves: "moves follows (call_gate gate p)"
  unfolding moves_def by (auto simp: call_gate_def follows_same_rows split: prod.splits)

lemma transition_moves:
  assumes "after = None \<and> g = id \<or> after = Some (update_row E t p v g)"
    and "\<And>r. RStatus r = src \<Longrightarrow> advance r (g (r\<lparr>RSpec := (case mutate of None \<Rightarrow> RSpec r | Some f \<Rightarrow> f (RSpec r)), RStatus := dst\<rparr>))"
  shows "moves follows (transition_plan E t p v src dst mutate after)"
  unfolding moves_def using assms(2) by (intro allI transition_follows [OF assms(1)]) blast

lemma RunEvalGate_moves: "moves follows (RunEvalGate E t planID v gate)"
proof -
  have "moves follows (transition_plan E t planID v StatusValidated StatusEvalPassed None None)"
    by (rule transition_moves [where g = id]) (auto intro: advance.eval_passed)
  then show ?thesis
    unfolding RunEvalGate_def
    by (intro moves_thenE Get_plan_moves)
      (auto intro!: moves_thenE moves_wrapE call_gate_moves moves_retE [OF reflp_follows] moves_failE split: prod.split)
qed

lemma SignOff_moves: "moves follows (SignOff E t planID v signer)"
proof (cases "signer = ''''")
  case False
  have "moves follows (transition_plan E t planID v StatusEvalPassed StatusSignedOff None (Some (SetSignedOffBy E t planID v signer)))"
    using False advance.signed_off
    by (intro transition_moves [where g = "\<lambda>r. r\<lparr>RSignedOffBy := Some signer\<rparr>"]) (simp_all add: SetSignedOffBy_def)
  then show ?thesis
    using False by (simp add: SignOff_def)
qed (simp add: SignOff_def moves_failE)

lemma Enable_moves: "moves follows (Enable E t planID v agentVersion model)"
  unfolding Enable_def
  by (intro transition_moves [where g = "\<lambda>r. r\<lparr>RPins := Some (agentVersion, model)\<rparr>"])
    (simp_all add: SetEnabledPins_def advance.enabled)

lemma RetirePlan_Inr:
  assumes keys: "distinct (map row_key (PlanRows st))" and run: "RetirePlan E t planID v st = (Inr a, st')"
  shows "table_step (PlanRows st) (PlanRows st')"
proof -
  have rows: "PlanRows st' =
      map (\<lambda>r. if row_of t planID v r then if RStatus r = StatusEnabled then r\<lparr>RStatus := StatusRetired\<rparr> else r else r) (PlanRows st)"
    using run by (auto simp: RetirePlan_def wrapE_Inr elim!: thenE_Inr dest!: statement_rows)
  show ?thesis
  proof (cases "find (row_of t planID v) (PlanRows st)")
    case None
    then have "PlanRows st' = PlanRows st"
      unfolding rows by (intro map_idI) (auto simp: find_None_iff)
    then show ?thesis by (simp add: table_step.stay)
  next
    case (Some r)
    obtain k where k: "k < length (PlanRows st)" "PlanRows st ! k = r"
      "PlanRows st' = (PlanRows st)[k := if RStatus r = StatusEnabled then r\<lparr>RStatus := StatusRetired\<rparr> else r]"
      by (rule map_row_update [OF keys Some]) (auto simp: rows)
    then show ?thesis
      using list_update_id [of "PlanRows st" k]
      by (cases "RStatus r = StatusEnabled") (auto intro: table_step.move table_step.stay advance.retired)
  qed
qed

lemma Retire_moves: "moves follows (Retire E t planID v)"
  unfolding moves_def Retire_def
proof (intro allI InTenant_follows)
  fix st st1 a and st2 :: "'a plan_store"
  assume gov: "governed (PlanRows st1)"
    and "thenE (RetirePlan E t planID v) (\<lambda>retired. if \<not> retired
          then failE (Err (''plan: '' @ plan_name E planID v @ '' is not enabled; nothing to retire'')) else retE ()) st1 = (Inr a, st2)"
  then obtain b where "RetirePlan E t planID v st1 = (Inr b, st2)"
    by (auto elim!: thenE_Inr split: if_splits)
  then show "table_step\<^sup>*\<^sup>* (PlanRows st1) (PlanRows st2)"
    using RetirePlan_Inr [OF governed_keys(1) [OF gov]] by blast
qed

lemmas lifecycle_moves =
  Create_plan_moves NewVersion_moves ValidatePlan_moves RunEvalGate_moves SignOff_moves Enable_moves Retire_moves

section \<open>Sequences of operations\<close>

datatype 'e lifecycle_op =
    LCreate plan string
  | LNewVersion uuid plan string
  | LValidate uuid int
  | LGate uuid int "'e eval_gate"
  | LSignOff uuid int string
  | LEnable uuid int int string
  | LRetire uuid int

fun do_lifecycle :: "('e, 'z) plan_env_scheme \<Rightarrow> uuid \<times> 'e lifecycle_op \<Rightarrow> 'e plan_store \<Rightarrow> 'e plan_store" where
  "do_lifecycle E (t, LCreate p createdBy) st = snd (Create_plan E t p createdBy st)"
| "do_lifecycle E (t, LNewVersion planID p createdBy) st = snd (NewVersion E t planID p createdBy st)"
| "do_lifecycle E (t, LValidate planID v) st = snd (ValidatePlan E t planID v st)"
| "do_lifecycle E (t, LGate planID v gate) st = snd (RunEvalGate E t planID v gate st)"
| "do_lifecycle E (t, LSignOff planID v signer) st = snd (SignOff E t planID v signer st)"
| "do_lifecycle E (t, LEnable planID v av m) st = snd (Enable E t planID v av m st)"
| "do_lifecycle E (t, LRetire planID v) st = snd (Retire E t planID v st)"

lemma do_lifecycle_follows: "follows st (do_lifecycle E op st)"
  by (cases "(E, op, st)" rule: do_lifecycle.cases) (auto intro: lifecycle_moves [unfolded moves_def, rule_format])

lemma fold_lifecycle_follows: "follows st (fold (do_lifecycle E) ops st)"
proof (induction ops arbitrary: st)
  case (Cons op ops)
  then show ?case
    using transpD [OF transp_follows do_lifecycle_follows [of st E op] Cons.IH] by simp
qed (simp add: follows_same_rows)

lemma Validate_pins [simp]: "Validate (p\<lparr>PlAgentVersion := v, PlRouteModelID := m\<rparr>) = Validate p"
  by (simp add: Validate_def validateReachability_def validateBoundedLoops_def validateScopeSubset_def
      validateOversightCompleteness_def hasDelegateFanout_def cong: sum.case_cong option.case_cong if_cong)

definition row_ok :: "plan_row \<Rightarrow> bool" where
  "row_ok r \<longleftrightarrow>
     (RStatus r \<noteq> StatusDraft \<longrightarrow> Validate (RSpec r) = None) \<and>
     (RStatus r \<in> {StatusSignedOff, StatusEnabled, StatusRetired} \<longrightarrow> (\<exists>s. s \<noteq> '''' \<and> RSignedOffBy r = Some s)) \<and>
     (RStatus r \<in> {StatusEnabled, StatusRetired} \<longrightarrow> RPins r = Some (PlAgentVersion (RSpec r), PlRouteModelID (RSpec r)))"

lemma advance_ok: "advance r r' \<Longrightarrow> row_ok r \<Longrightarrow> row_ok r'"
  by (induction rule: advance.induct) (simp_all add: row_ok_def)

lemma governed_ok: "governed rows \<Longrightarrow> r \<in> set rows \<Longrightarrow> row_ok r"
proof (induction arbitrary: r rule: governed.induct)
  case (step rows rows')
  from step(2) show ?case
  proof cases
    case stay
    then show ?thesis using step(3,4) by blast
  next
    case (insert r')
    then show ?thesis using step(3,4) by (auto simp: row_ok_def)
  next
    case (move k r')
    have "r \<in> insert r' (set rows)"
      using step(4) move(1) set_update_subset_insert by fastforce
    then show ?thesis
      using step(3) move(2) advance_ok [OF move(3)] by auto
  qed
qed simp

lemma table_step_nth:
  assumes "table_step\<^sup>*\<^sup>* rows rows'" and "k < length rows"
  shows "k < length rows' \<and> advance\<^sup>*\<^sup>* (rows ! k) (rows' ! k)"
  using assms
proof (induction rule: rtranclp_induct)
  case (step rows1 rows2)
  from step(2) have "k < length rows2 \<and> advance\<^sup>*\<^sup>* (rows1 ! k) (rows2 ! k)"
    by cases (use step(3,4) in \<open>auto simp: nth_append nth_list_update\<close>)
  then show ?case
    using step(3,4) by (auto intro: rtranclp_trans)
qed simp

lemma frozen:
  assumes "advance\<^sup>*\<^sup>* r r'" and "RStatus r = StatusEnabled"
  shows "r' = r \<or> r' = r\<lparr>RStatus := StatusRetired\<rparr>"
  using assms by (induction rule: rtranclp_induct) (auto elim: advance.cases)

definition no_plans :: "'e \<Rightarrow> 'e plan_store" where
  "no_plans e = \<lparr>PlanRows = [], PlanLog = [], SessPlan = None, SessStatus = SessionStatusQueued, SessReason = None, PSEnv = e\<rparr>"

text \<open>
  C17: An enabled plan version has passed validation, was signed off by somebody named and carries
  the agent version and model it was enabled with; and whatever lifecycle operations any tenant
  performs afterwards, with any database failures, the row keeps everything but its status, which
  can only become retired.
\<close>

theorem an_enabled_plan_is_governed_and_frozen:
  assumes "st1 = fold (do_lifecycle E) ops (no_plans e)" and "st2 = fold (do_lifecycle E) more_ops st1"
    and "r \<in> set (PlanRows st1)" and "RStatus r = StatusEnabled"
  shows "Validate (RSpec r) = None \<and> (\<exists>s. s \<noteq> '''' \<and> RSignedOffBy r = Some s) \<and>
    RPins r = Some (PlAgentVersion (RSpec r), PlRouteModelID (RSpec r)) \<and>
    (\<exists>r'\<in>set (PlanRows st2). r' = r \<or> r' = r\<lparr>RStatus := StatusRetired\<rparr>)"
proof -
  have gov: "governed (PlanRows st1)"
    using fold_lifecycle_follows [of "no_plans e" E ops] governed.empty governed_steps
    unfolding assms(1) follows_def no_plans_def by fastforce
  then have steps: "table_step\<^sup>*\<^sup>* (PlanRows st1) (PlanRows st2)"
    using fold_lifecycle_follows [of st1 E more_ops] unfolding assms(2) follows_def by blast
  obtain k where k: "k < length (PlanRows st1)" "PlanRows st1 ! k = r"
    using assms(3) by (auto simp: in_set_conv_nth)
  have "k < length (PlanRows st2) \<and> advance\<^sup>*\<^sup>* r (PlanRows st2 ! k)"
    using table_step_nth [OF steps k(1)] k(2) by simp
  then have "\<exists>r'\<in>set (PlanRows st2). r' = r \<or> r' = r\<lparr>RStatus := StatusRetired\<rparr>"
    using frozen [OF _ assms(4)] by (meson nth_mem)
  moreover have "row_ok r"
    using governed_ok [OF gov assms(3)] .
  ultimately show ?thesis
    using assms(4) by (auto simp: row_ok_def)
qed

definition calm_env :: "nat plan_env" where
  "calm_env = \<lparr>peNewUUID = (\<lambda>n. (n, Suc n)), peStatement = (\<lambda>n. (None, n)), peCommit = (\<lambda>n. (None, n)), peUuidString = dec_nat\<rparr>"

definition condition_step :: "string \<Rightarrow> transition list \<Rightarrow> step" where
  "condition_step i ts =
     \<lparr>SID = i, SKind = StepCondition, SAgent = None, SFanout = None, SGate = None, SPreauth = None, SInput = None,
      SCondition = Some (), SLoop = None, STransitions = ts\<rparr>"

definition plan_of :: "step list \<Rightarrow> plan" where
  "plan_of steps =
     \<lparr>PlanID = 0, PlTenant = 0, PlVersion = 0, PlName = ''demo'', StartStep = (case steps of [] \<Rightarrow> '''' | s # _ \<Rightarrow> SID s), Steps = steps,
      AllowedTools = [], EnvCeiling = '''', PlAgentVersion = 0, PlRouteModelID = ''''\<rparr>"

definition demo_lifecycle :: "(uuid \<times> nat lifecycle_op) list" where
  "demo_lifecycle =
     [(7, LCreate (plan_of [condition_step ''a'' []]) ''ana''), (7, LValidate 1 1), (7, LGate 1 1 (\<lambda>_ n. (Inr (True, ''''), n))),
      (7, LSignOff 1 1 ''bo''), (7, LEnable 1 1 3 ''m1'')]"

theorem an_enabled_plan_is_governed_and_frozen_witness:
  "let st1 = fold (do_lifecycle calm_env) demo_lifecycle (no_plans 1);
       st2 = fold (do_lifecycle calm_env) [(7, LRetire 1 1), (7, LValidate 1 1)] st1;
       r = hd (PlanRows st1) in
   Validate (RSpec r) = None \<and> (\<exists>s. s \<noteq> '''' \<and> RSignedOffBy r = Some s) \<and>
   RPins r = Some (PlAgentVersion (RSpec r), PlRouteModelID (RSpec r)) \<and>
   (\<exists>r'\<in>set (PlanRows st2). r' = r \<or> r' = r\<lparr>RStatus := StatusRetired\<rparr>)"
proof -
  have "PlanRows (fold (do_lifecycle calm_env) demo_lifecycle (no_plans 1)) \<noteq> []"
    "RStatus (hd (PlanRows (fold (do_lifecycle calm_env) demo_lifecycle (no_plans 1)))) = StatusEnabled"
    by code_simp+
  then show ?thesis
    unfolding Let_def by (intro an_enabled_plan_is_governed_and_frozen [OF refl refl]) simp_all
qed

end
