(* ===== verification/Plan_Exec.thy ===== *)
theory Plan_Exec
  imports Plan_Lifecycle
begin

text \<open>
  The plan executor (\<^verbatim>\<open>internal/plan/exec.go\<close>, \<^verbatim>\<open>run.go\<close>, \<^verbatim>\<open>steps.go\<close>, \<^verbatim>\<open>replay.go\<close>, \<^verbatim>\<open>rehydrate.go\<close>): the
  loop that enters a step, dispatches it, exits it and takes a transition, and the three ways back
  into a plan that suspended, which rebuild the run from the log. One driving session is modelled;
  what the kernel, the approvals, the input requests and the delegations do is a parameter, which
  may append events of its own to the session's log. The loop may run forever, which is the value
  \<open>None\<close>; the lemmas say when it does not, and what the log remembers when it stops.
\<close>

section \<open>The collaborators\<close>

datatype delegation_status = StatusPending | StatusReturned | StatusReaped | StatusBoundExceeded

datatype gate_ask = AskQuestion string | AskEntries "preauth_entry list"

record 'e delegator =
  dSpawn :: "string \<Rightarrow> string \<Rightarrow> string list \<Rightarrow> uuid \<Rightarrow> uuid \<Rightarrow> 'e \<Rightarrow> (err option \<times> plan_event list) \<times> 'e"
  dListOpenForFanout :: "uuid \<Rightarrow> 'e \<Rightarrow> (err + delegation_status list) \<times> 'e"

record 'e exec_env = "'e plan_env" +
  xDecrypt :: "plan_event \<Rightarrow> 'e \<Rightarrow> err option \<times> 'e"
  xLoad :: "plan_event list \<Rightarrow> 'e \<Rightarrow> err option \<times> 'e"
  xContinue :: "plan_event list \<Rightarrow> 'e \<Rightarrow> (err option \<times> plan_event list \<times> session_status option) \<times> 'e"
  xApprovals :: "(uuid \<Rightarrow> string \<Rightarrow> gate_ask \<Rightarrow> 'e \<Rightarrow> (err option \<times> plan_event list) \<times> 'e) option"
  xInputs :: "(string \<Rightarrow> bytes \<Rightarrow> 'e \<Rightarrow> (err option \<times> plan_event list) \<times> 'e) option"
  xEnvelope :: "money \<Rightarrow> int \<Rightarrow> 'e \<Rightarrow> (err + uuid) \<times> 'e"
  xDelegations :: "'e delegator option"

text \<open>A call of another service: it may fail, and what it appended to the session's log stays.\<close>

definition external :: "('e \<Rightarrow> (err option \<times> plan_event list) \<times> 'e) \<Rightarrow> ('e plan_store, unit) io" where
  "external f st =
     (case f (PSEnv st) of ((er, evs), e1) \<Rightarrow>
        ((case er of None \<Rightarrow> Inr () | Some e \<Rightarrow> Inl e), st\<lparr>PlanLog := PlanLog st @ evs, PSEnv := e1\<rparr>))"

definition outside :: "('e \<Rightarrow> (err + 'a) \<times> 'e) \<Rightarrow> ('e plan_store, 'a) io" where
  "outside f st = (case f (PSEnv st) of (r, e1) \<Rightarrow> (r, st\<lparr>PSEnv := e1\<rparr>))"

definition check :: "('e \<Rightarrow> err option \<times> 'e) \<Rightarrow> ('e plan_store, unit) io" where
  "check f = outside (\<lambda>e. case f e of (None, e1) \<Rightarrow> (Inr (), e1) | (Some er, e1) \<Rightarrow> (Inl er, e1))"

definition append_plan :: "('e, 'z) plan_env_scheme \<Rightarrow> plan_payload \<Rightarrow> ('e plan_store, uuid) io" where
  "append_plan E payload =
     thenE (newUUID E) (\<lambda>u. thenE (statement E) (\<lambda>_.
       thenE (updates (\<lambda>st. st\<lparr>PlanLog := PlanLog st @ [\<lparr>PvID = u, PvPayload = payload\<rparr>]\<rparr>)) (\<lambda>_. retE u)))"

definition SetSessionStatus :: "('e, 'z) plan_env_scheme \<Rightarrow> session_status \<Rightarrow> string option \<Rightarrow> ('e plan_store, unit) io" where
  "SetSessionStatus E status reason =
     thenE (statement E) (\<lambda>_. updates (\<lambda>st. st\<lparr>SessStatus := status, SessReason := reason\<rparr>))"

text \<open>Following a nil pointer ends the program; nothing after it runs.\<close>

definition nil_panic :: "('s, 'a) io" where
  "nil_panic = failE (Err ''runtime error: invalid memory address or nil pointer dereference'')"

section \<open>The state of a run\<close>

record plan_state =
  Vars :: var_context
  CurrentStep :: string
  Iterations :: "string \<Rightarrow> int"
  Completed :: bool

definition fresh_state :: plan_state where
  "fresh_state = \<lparr>Vars = Map.empty, CurrentStep = '''', Iterations = (\<lambda>_. 0), Completed = False\<rparr>"

fun replay_event :: "plan_payload \<Rightarrow> plan_state \<Rightarrow> plan_state" where
  "replay_event (StepEntered i) st = st\<lparr>CurrentStep := i, Iterations := (Iterations st)(i := Iterations st i + 1)\<rparr>"
| "replay_event (StepExited i bindings) st = st\<lparr>Vars := Vars st ++ bindings, CurrentStep := ''''\<rparr>"
| "replay_event PlanCompleted st = st\<lparr>Completed := True, CurrentStep := ''''\<rparr>"
| "replay_event _ st = st"

fun replay_opens :: "plan_payload \<Rightarrow> bool" where
  "replay_opens (StepEntered i) = True"
| "replay_opens (StepExited i bindings) = True"
| "replay_opens _ = False"

fun replayState :: "('e, 'z) exec_env_scheme \<Rightarrow> plan_event list \<Rightarrow> plan_state \<Rightarrow> ('e plan_store, plan_state) io" where
  "replayState E [] st = retE st"
| "replayState E (ev # evs) st =
     (if replay_opens (PvPayload ev)
      then thenE (check (xDecrypt E ev)) (\<lambda>_. replayState E evs (replay_event (PvPayload ev) st))
      else replayState E evs (replay_event (PvPayload ev) st))"

section \<open>Steps\<close>

definition lastContentText :: "('e, 'z) exec_env_scheme \<Rightarrow> ('e plan_store, string) io" where
  "lastContentText E =
     thenE (plan_InTenant E (thenE (statement E) (\<lambda>_. reads PlanLog))) (\<lambda>history.
       case find (\<lambda>ev. case PvPayload ev of Content b \<Rightarrow> True | _ \<Rightarrow> False) (rev history) of
         None \<Rightarrow> retE ''''
       | Some ev \<Rightarrow> thenE (check (xDecrypt E ev)) (\<lambda>_. case PvPayload ev of Content b \<Rightarrow> retE b | _ \<Rightarrow> retE ''''))"

definition continueAgentStep :: "('e, 'z) exec_env_scheme \<Rightarrow> step \<Rightarrow> ('e plan_store, var_context option) io" where
  "continueAgentStep E step =
     thenE (thenE (reads PlanLog) (\<lambda>history. check (xLoad E history))) (\<lambda>_.
     thenE (\<lambda>st. case xContinue E (PlanLog st) (PSEnv st) of ((er, evs, status), e1) \<Rightarrow>
              ((case er of None \<Rightarrow> Inr () | Some e \<Rightarrow> Inl e),
               st\<lparr>PlanLog := PlanLog st @ evs, SessStatus := (case status of None \<Rightarrow> SessStatus st | Some s \<Rightarrow> s), PSEnv := e1\<rparr>)) (\<lambda>_.
     thenE (plan_InTenant E (thenE (statement E) (\<lambda>_. reads SessStatus))) (\<lambda>status.
       if status = SessionStatusSuspended then retE None
       else
         thenE (lastContentText E) (\<lambda>body.
           case SAgent step of
             None \<Rightarrow> nil_panic
           | Some a \<Rightarrow> retE (Some (if OutputVar a \<noteq> '''' then [OutputVar a \<mapsto> StringValue body] else Map.empty))))))"

definition runAgentStep :: "('e, 'z) exec_env_scheme \<Rightarrow> step \<Rightarrow> ('e plan_store, var_context option) io" where
  "runAgentStep E step =
     (case SAgent step of
        None \<Rightarrow> nil_panic
      | Some a \<Rightarrow> thenE (plan_InTenant E (append_plan E (UserInput (AgInput a)))) (\<lambda>_. continueAgentStep E step))"

definition suspend_plan :: "('e, 'z) exec_env_scheme \<Rightarrow> ('e plan_store, unit) io" where
  "suspend_plan E = plan_InTenant E (SetSessionStatus E SessionStatusSuspended None)"

fun spawn_children ::
    "'e delegator \<Rightarrow> delegate_fanout_config \<Rightarrow> uuid \<Rightarrow> uuid \<Rightarrow> nat \<Rightarrow> nat \<Rightarrow> ('e plan_store, unit) io" where
  "spawn_children D c fanoutID envelopeID i 0 = retE ()"
| "spawn_children D c fanoutID envelopeID i (Suc n) =
     thenE (wrapE (''plan: spawn fanout child '' @ dec_nat (i + 1) @ ''/'' @ dec_int (ChildCount c))
              (external (dSpawn D (FoAgentID c) (FoTask c) (FoScopeGrant c) fanoutID envelopeID)))
       (\<lambda>_. spawn_children D c fanoutID envelopeID (Suc i) n)"

definition runDelegateFanout :: "('e, 'z) exec_env_scheme \<Rightarrow> step \<Rightarrow> ('e plan_store, var_context option) io" where
  "runDelegateFanout E step =
     (case xDelegations E of
        None \<Rightarrow> failE (Err ''plan: delegations not wired'')
      | Some D \<Rightarrow>
          (case SFanout step of
             None \<Rightarrow> nil_panic
           | Some c \<Rightarrow>
               (case parseCeiling (PerChildCeiling c) of
                  Inl e \<Rightarrow> failE e
                | Inr m \<Rightarrow>
                    (let perChild = (case m of None \<Rightarrow> \<lparr>Micros = 0, Currency = ''''\<rparr> | Some x \<Rightarrow> x);
                         ceiling = \<lparr>Micros = i64 (Micros perChild * ChildCount c), Currency = Currency perChild\<rparr> in
                     thenE (plan_InTenant E (outside (xEnvelope E ceiling (ChildCount c)))) (\<lambda>envelopeID.
                     thenE (newUUID E) (\<lambda>fanoutID.
                     thenE (spawn_children D c fanoutID envelopeID 0 (nat (ChildCount c))) (\<lambda>_.
                     thenE (suspend_plan E) (\<lambda>_. retE None))))))))"

definition runApprovalGate :: "('e, 'z) exec_env_scheme \<Rightarrow> uuid \<Rightarrow> step \<Rightarrow> ('e plan_store, var_context option) io" where
  "runApprovalGate E anchorEventID step =
     (case xApprovals E of
        None \<Rightarrow> failE (Err ''plan: approvals not wired'')
      | Some create \<Rightarrow>
          (case SGate step of
             None \<Rightarrow> nil_panic
           | Some g \<Rightarrow>
               thenE (external (create anchorEventID (''plan/'' @ SID step) (AskQuestion (GateQuestion g)))) (\<lambda>_.
               thenE (suspend_plan E) (\<lambda>_. retE None))))"

definition runPreauth :: "('e, 'z) exec_env_scheme \<Rightarrow> uuid \<Rightarrow> step \<Rightarrow> ('e plan_store, var_context option) io" where
  "runPreauth E anchorEventID step =
     (case xApprovals E of
        None \<Rightarrow> failE (Err ''plan: approvals not wired'')
      | Some create \<Rightarrow>
          (case SPreauth step of
             None \<Rightarrow> nil_panic
           | Some es \<Rightarrow>
               thenE (external (create anchorEventID (''plan/'' @ SID step) (AskEntries es))) (\<lambda>_.
               thenE (suspend_plan E) (\<lambda>_. retE None))))"

definition runInputRequest :: "('e, 'z) exec_env_scheme \<Rightarrow> step \<Rightarrow> ('e plan_store, var_context option) io" where
  "runInputRequest E step =
     (case xInputs E of
        None \<Rightarrow> failE (Err ''plan: inputs not wired'')
      | Some request \<Rightarrow>
          (case SInput step of
             None \<Rightarrow> nil_panic
           | Some r \<Rightarrow>
               thenE (external (request (IrQuestion r) (IrSchema r))) (\<lambda>_.
               thenE (suspend_plan E) (\<lambda>_. retE None))))"

definition dispatch :: "('e, 'z) exec_env_scheme \<Rightarrow> uuid \<Rightarrow> step \<Rightarrow> int \<Rightarrow> ('e plan_store, var_context option) io" where
  "dispatch E anchorEventID step iteration =
     (case SKind step of
        StepAgent \<Rightarrow> runAgentStep E step
      | StepCondition \<Rightarrow> retE (Some Map.empty)
      | StepLoop \<Rightarrow>
          (case SLoop step of
             None \<Rightarrow> nil_panic
           | Some l \<Rightarrow> retE (Some (if CounterVar l \<noteq> '''' then [CounterVar l \<mapsto> NumberValue (of_int iteration)] else Map.empty)))
      | StepDelegateFanout \<Rightarrow> runDelegateFanout E step
      | StepApprovalGate \<Rightarrow> runApprovalGate E anchorEventID step
      | StepPreauth \<Rightarrow> runPreauth E anchorEventID step
      | StepInputRequest \<Rightarrow> runInputRequest E step
      | StepOther k \<Rightarrow> failE (Err (''plan: unrecognized step kind '' @ quoted k)))"

section \<open>The loop\<close>

fun evaluateTransitions :: "transition list \<Rightarrow> var_context \<Rightarrow> err + string \<times> predicate option" where
  "evaluateTransitions [] vars = Inr ('''', None)"
| "evaluateTransitions (t # ts) vars =
     (case TWhen t of
        None \<Rightarrow> Inr (TTo t, None)
      | Some w \<Rightarrow>
          (case Eval w vars of
             Inl e \<Rightarrow> Inl e
           | Inr True \<Rightarrow> Inr (TTo t, Some w)
           | Inr False \<Rightarrow> evaluateTransitions ts vars))"

definition enterStep :: "('e, 'z) exec_env_scheme \<Rightarrow> step \<Rightarrow> ('e plan_store, uuid) io" where
  "enterStep E step = plan_InTenant E (append_plan E (StepEntered (SID step)))"

definition complete_plan :: "('e, 'z) exec_env_scheme \<Rightarrow> ('e plan_store, unit) io" where
  "complete_plan E =
     plan_InTenant E (thenE (append_plan E PlanCompleted) (\<lambda>_. SetSessionStatus E SessionStatusCompleted (Some ''plan_completed'')))"

definition exitStepAndTransition ::
    "('e, 'z) exec_env_scheme \<Rightarrow> plan_state \<Rightarrow> step \<Rightarrow> var_context \<Rightarrow> ('e plan_store, plan_state \<times> string) io" where
  "exitStepAndTransition E pst step bindings =
     thenE (plan_InTenant E (append_plan E (StepExited (SID step) bindings))) (\<lambda>_.
       let pst1 = pst\<lparr>Vars := Vars pst ++ bindings\<rparr> in
       case evaluateTransitions (STransitions step) (Vars pst1) of
         Inl e \<Rightarrow> failE e
       | Inr (nxt, pred) \<Rightarrow>
           thenE (plan_InTenant E (append_plan E (PlanTransition (SID step) nxt pred))) (\<lambda>_.
           thenE (if nxt = '''' then complete_plan E else retE ()) (\<lambda>_.
           retE (pst1, nxt))))"

text \<open>
  One turn of the loop. \<open>Inl\<close> in the value is a suspension, with the state the run has in memory at
  that point; \<open>Inr\<close> goes on with a new state and the next step.
\<close>

definition run_step ::
    "('e, 'z) exec_env_scheme \<Rightarrow> plan \<Rightarrow> plan_state \<Rightarrow> string \<Rightarrow> ('e plan_store, plan_state + plan_state \<times> string) io" where
  "run_step E p pst stepID =
     (case StepByID p stepID of
        None \<Rightarrow>
          failE (Err (''plan: step '' @ quoted stepID @ '' not found in plan '' @ peUuidString E (PlanID p) @ '' version '' @
                      dec_int (PlVersion p)))
      | Some step \<Rightarrow>
          if SKind step = StepLoop \<and> SLoop step = None then nil_panic
          else if SKind step = StepLoop \<and> Iterations pst (SID step) \<ge> MaxIterations (the (SLoop step))
          then failE (Err (''plan: step '' @ quoted (SID step) @ '' exceeded its max_iterations bound ('' @
                           dec_int (MaxIterations (the (SLoop step))) @ '') at runtime''))
          else
            thenE (enterStep E step) (\<lambda>entered.
              let pst1 = pst\<lparr>CurrentStep := SID step, Iterations := (Iterations pst)(SID step := Iterations pst (SID step) + 1)\<rparr> in
              thenE (dispatch E entered step (Iterations pst1 (SID step))) (\<lambda>r.
                case r of
                  None \<Rightarrow> retE (Inl pst1)
                | Some bindings \<Rightarrow> thenE (exitStepAndTransition E pst1 step bindings) (\<lambda>x. retE (Inr x)))))"

text \<open>
  The loop itself. The Go function returns only the error; the state in memory when it returns is
  kept as the value, so that it can be compared with the log.
\<close>

partial_function (option) run_plan ::
    "('e, 'z) exec_env_scheme \<Rightarrow> plan \<Rightarrow> plan_state \<Rightarrow> string \<Rightarrow> 'e plan_store \<Rightarrow> ((err + plan_state) \<times> 'e plan_store) option"
where
  "run_plan E p pst stepID st =
     (if stepID = '''' then Some (Inr pst, st)
      else
        (case run_step E p pst stepID st of
           (Inl e, st1) \<Rightarrow> Some (Inl e, st1)
         | (Inr (Inl pst1), st1) \<Rightarrow> Some (Inr pst1, st1)
         | (Inr (Inr (pst1, nxt)), st1) \<Rightarrow> run_plan E p pst1 nxt st1))"

declare run_plan.simps [code]

definition afterStep ::
    "('e, 'z) exec_env_scheme \<Rightarrow> plan \<Rightarrow> plan_state \<Rightarrow> step \<Rightarrow> var_context \<Rightarrow> 'e plan_store
      \<Rightarrow> ((err + plan_state) \<times> 'e plan_store) option" where
  "afterStep E p pst step bindings st =
     (case exitStepAndTransition E pst step bindings st of
        (Inl e, st1) \<Rightarrow> Some (Inl e, st1)
      | (Inr (pst1, nxt), st1) \<Rightarrow> (if nxt = '''' then Some (Inr pst1, st1) else run_plan E p pst1 nxt st1))"

definition Start_plan ::
    "('e, 'z) exec_env_scheme \<Rightarrow> plan \<Rightarrow> 'e plan_store \<Rightarrow> ((err + plan_state) \<times> 'e plan_store) option" where
  "Start_plan E p st =
     (case plan_InTenant E (thenE (append_plan E (PlanStarted (PlanID p) (PlVersion p)))
                              (\<lambda>_. SetSessionStatus E SessionStatusRunning None)) st of
        (Inl e, st1) \<Rightarrow> Some (Inl e, st1)
      | (Inr _, st1) \<Rightarrow> run_plan E p fresh_state (StartStep p) st1)"

section \<open>Back into a suspended plan\<close>

definition load_plan :: "('e, 'z) exec_env_scheme \<Rightarrow> uuid \<Rightarrow> string \<Rightarrow> ('e plan_store, plan \<times> plan_state) io" where
  "load_plan E tenantID session =
     thenE (plan_InTenant E (thenE (statement E) (\<lambda>_. thenE (statement E) (\<lambda>_. reads (\<lambda>st. (SessPlan st, PlanLog st)))))) (\<lambda>(sess, history).
       case sess of
         None \<Rightarrow> failE (Err (''plan: session '' @ session @ '' is not a plan-driven session''))
       | Some (planID, version) \<Rightarrow>
           thenE (Get_plan E tenantID planID version) (\<lambda>(p, _).
           thenE (replayState E history fresh_state) (\<lambda>pst. retE (p, pst))))"

text \<open>The step in progress, which every way back needs.\<close>

definition step_in_progress :: "string \<Rightarrow> plan \<times> plan_state \<Rightarrow> ('s, step) io" where
  "step_in_progress session x =
     (case x of (p, pst) \<Rightarrow>
      if CurrentStep pst = '''' then failE (Err (''plan: session '' @ session @ '' has no in-progress step to resume''))
      else
        (case StepByID p (CurrentStep pst) of
           None \<Rightarrow>
             failE (Err (''plan: session '' @ session @ [CHR 0x27] @ ''s in-progress step '' @ quoted (CurrentStep pst) @
                         '' no longer exists in its own pinned plan version''))
         | Some step \<Rightarrow> retE step))"

text \<open>Ends the fallible part of an entry point and goes on with the loop, or not.\<close>

definition finishing ::
    "('s, 'a) io \<Rightarrow> ('a \<Rightarrow> 's \<Rightarrow> ((err + 'b) \<times> 's) option) \<Rightarrow> 's \<Rightarrow> ((err + 'b) \<times> 's) option" where
  "finishing m k st = (case m st of (Inl e, st1) \<Rightarrow> Some (Inl e, st1) | (Inr a, st1) \<Rightarrow> k a st1)"

definition Resume_plan ::
    "('e, 'z) exec_env_scheme \<Rightarrow> uuid \<Rightarrow> string \<Rightarrow> 'e plan_store \<Rightarrow> ((err + plan_state) \<times> 'e plan_store) option" where
  "Resume_plan E tenantID session =
     finishing
       (thenE (load_plan E tenantID session) (\<lambda>(p, pst).
        thenE (step_in_progress session (p, pst)) (\<lambda>step.
          if SKind step \<noteq> StepAgent
          then failE (Err (''plan: session '' @ session @ [CHR 0x27] @ ''s in-progress step '' @ quoted (CurrentStep pst) @ '' is a '' @
                           step_kind_str (SKind step) @ '' step; use ResumeGate instead''))
          else thenE (continueAgentStep E step) (\<lambda>r. retE (p, pst, step, r)))))
       (\<lambda>(p, pst, step, r) st.
          case r of None \<Rightarrow> Some (Inr pst, st) | Some bindings \<Rightarrow> afterStep E p pst step bindings st)"

definition gateResultVar :: "step \<Rightarrow> string option" where
  "gateResultVar s =
     (case SKind s of
        StepApprovalGate \<Rightarrow> map_option GateResultVar (SGate s)
      | StepInputRequest \<Rightarrow> map_option IrResultVar (SInput s)
      | _ \<Rightarrow> Some '''')"

definition answer_gate ::
    "('e, 'z) exec_env_scheme \<Rightarrow> string \<Rightarrow> pvalue \<Rightarrow> plan \<times> plan_state
      \<Rightarrow> ('e plan_store, (plan \<times> plan_state) \<times> step \<times> var_context) io" where
  "answer_gate E session value x =
     thenE (step_in_progress session x) (\<lambda>step.
       case gateResultVar step of
         None \<Rightarrow> nil_panic
       | Some resultVar \<Rightarrow>
           thenE (plan_InTenant E (SetSessionStatus E SessionStatusRunning None)) (\<lambda>_.
             retE (x, step, if resultVar \<noteq> '''' then [resultVar \<mapsto> value] else Map.empty)))"

definition ResumeGate ::
    "('e, 'z) exec_env_scheme \<Rightarrow> uuid \<Rightarrow> string \<Rightarrow> pvalue \<Rightarrow> 'e plan_store \<Rightarrow> ((err + plan_state) \<times> 'e plan_store) option" where
  "ResumeGate E tenantID session value =
     finishing (thenE (load_plan E tenantID session) (answer_gate E session value))
       (\<lambda>((p, pst), step, bindings) st. afterStep E p pst step bindings st)"

text \<open>The step in progress of a fan-out, with the number of children that returned as its binding.\<close>

definition fanout_result ::
    "('e, 'z) exec_env_scheme \<Rightarrow> string \<Rightarrow> uuid \<Rightarrow> delegation_status list \<Rightarrow> plan \<times> plan_state
      \<Rightarrow> ('e plan_store, plan \<times> plan_state \<times> step \<times> var_context) io" where
  "fanout_result E session fanoutID members = (\<lambda>(p, pst).
     if CurrentStep pst = ''''
     then failE (Err (''plan: session '' @ session @ '' has no in-progress step to resume for fanout '' @ peUuidString E fanoutID))
     else
       (case Option.bind (StepByID p (CurrentStep pst)) (\<lambda>s. map_option (Pair s) (SFanout s)) of
          None \<Rightarrow>
            failE (Err (''plan: session '' @ session @ [CHR 0x27] @ ''s in-progress step '' @ quoted (CurrentStep pst) @
                        '' is not a delegate_fanout step''))
        | Some (step, c) \<Rightarrow>
            (let returned = length (filter (\<lambda>m. m = StatusReturned) members) in
             thenE (plan_InTenant E (SetSessionStatus E SessionStatusRunning None)) (\<lambda>_.
               retE (p, pst, step,
                     if CompletionVar c \<noteq> '''' then [CompletionVar c \<mapsto> NumberValue (of_nat returned)] else Map.empty)))))"

definition returning :: "((err + 'a) \<times> 's) option \<Rightarrow> ((err + 'a option) \<times> 's) option" where
  "returning x = map_option (\<lambda>(r, st). (case r of Inl e \<Rightarrow> Inl e | Inr a \<Rightarrow> Inr (Some a), st)) x"

text \<open>The answer \<^term>\<open>None\<close> is the return before every child of the fan-out is done.\<close>

definition ResolveFanout ::
    "('e, 'z) exec_env_scheme \<Rightarrow> uuid \<Rightarrow> string \<Rightarrow> uuid \<Rightarrow> 'e plan_store \<Rightarrow> ((err + plan_state option) \<times> 'e plan_store) option" where
  "ResolveFanout E tenantID session fanoutID st =
     (case xDelegations E of
        None \<Rightarrow> Some (nil_panic st)
      | Some D \<Rightarrow>
          finishing (outside (dListOpenForFanout D fanoutID)) (\<lambda>members st.
            if members = [] then Some (failE (Err (''plan: fanout '' @ peUuidString E fanoutID @ '' has no delegations'')) st)
            else if StatusPending \<in> set members then Some (Inr None, st)
            else
              returning
                (finishing (thenE (load_plan E tenantID session) (fanout_result E session fanoutID members))
                   (\<lambda>(p, pst, step, bindings). afterStep E p pst step bindings) st)) st)"

text \<open>
  The four ways into the executor as one operation, the plan each of them works on and the step it
  brings an outcome for. The plan of a session is the version it was pinned to.
\<close>

datatype plan_entry =
    AtStart plan
  | AfterAgent uuid string
  | AfterGate uuid string pvalue
  | AfterFanout uuid string uuid

fun enter_plan ::
    "('e, 'z) exec_env_scheme \<Rightarrow> plan_entry \<Rightarrow> 'e plan_store \<Rightarrow> ((err + plan_state option) \<times> 'e plan_store) option" where
  "enter_plan E (AtStart p) st = returning (Start_plan E p st)"
| "enter_plan E (AfterAgent tenantID session) st = returning (Resume_plan E tenantID session st)"
| "enter_plan E (AfterGate tenantID session v) st = returning (ResumeGate E tenantID session v st)"
| "enter_plan E (AfterFanout tenantID session fanoutID) st = ResolveFanout E tenantID session fanoutID st"

definition pinned_plan :: "uuid \<Rightarrow> 'e plan_store \<Rightarrow> plan option" where
  "pinned_plan tenantID st =
     (case SessPlan st of
        None \<Rightarrow> None
      | Some (planID, version) \<Rightarrow>
          map_option RSpec
            (if version > 0 then find (row_of tenantID planID version) (PlanRows st)
             else latest_row (filter (\<lambda>r. RTenant r = tenantID \<and> RPlanID r = planID) (PlanRows st))))"

fun entry_plan :: "plan_entry \<Rightarrow> 'e plan_store \<Rightarrow> plan option" where
  "entry_plan (AtStart p) st = Some p"
| "entry_plan (AfterAgent tenantID session) st = pinned_plan tenantID st"
| "entry_plan (AfterGate tenantID session v) st = pinned_plan tenantID st"
| "entry_plan (AfterFanout tenantID session fanoutID) st = pinned_plan tenantID st"

section \<open>What the services append\<close>

text \<open>Events that say nothing about where a plan is.\<close>

fun silent :: "plan_payload \<Rightarrow> bool" where
  "silent (StepEntered i) = False"
| "silent (StepExited i b) = False"
| "silent PlanCompleted = False"
| "silent _ = True"

definition silent_events :: "plan_event list \<Rightarrow> bool" where
  "silent_events evs \<longleftrightarrow> (\<forall>ev\<in>set evs. silent (PvPayload ev))"

text \<open>The services a plan uses append no step events: those are the executor's own.\<close>

definition quiet :: "('e, 'z) exec_env_scheme \<Rightarrow> bool" where
  "quiet E \<longleftrightarrow>
     (\<forall>h e. silent_events (fst (snd (fst (xContinue E h e))))) \<and>
     (\<forall>f a i q e. xApprovals E = Some f \<longrightarrow> silent_events (snd (fst (f a i q e)))) \<and>
     (\<forall>f q s e. xInputs E = Some f \<longrightarrow> silent_events (snd (fst (f q s e)))) \<and>
     (\<forall>D a t g f v e. xDelegations E = Some D \<longrightarrow> silent_events (snd (fst (dSpawn D a t g f v e))))"

text \<open>
  A way to compare two logs of which one extends the other, on which events that say nothing have
  no effect.
\<close>

locale log_frame =
  fixes Q :: "plan_event list \<Rightarrow> plan_event list \<Rightarrow> bool"
  assumes Q_refl: "Q l l"
    and Q_trans: "Q l1 l2 \<Longrightarrow> Q l2 l3 \<Longrightarrow> Q l1 l3"
    and Q_silent: "silent_events evs \<Longrightarrow> Q l (l @ evs)"
begin

definition logs :: "'e plan_store \<Rightarrow> 'e plan_store \<Rightarrow> bool" where
  "logs st st' \<longleftrightarrow> Q (PlanLog st) (PlanLog st')"

lemma refl_logs: "reflp logs"
  by (simp add: reflp_def logs_def Q_refl)

lemma trans_logs: "transp logs"
  by (auto simp: transp_def logs_def intro: Q_trans)

lemma same_log: "PlanLog st' = PlanLog st \<Longrightarrow> logs st st'"
  by (simp add: logs_def Q_refl)

lemmas logs_basic = moves_retE [OF refl_logs] moves_failE [OF refl_logs] moves_thenE [OF trans_logs] moves_wrapE

lemma logs_statement: "moves logs (statement E)"
  by (auto simp: moves_def statement_def same_log split: prod.splits option.splits)

lemma logs_newUUID: "moves logs (newUUID E)"
  by (auto simp: moves_def newUUID_def same_log split: prod.splits)

lemma logs_reads: "moves logs (reads f)"
  by (auto simp: moves_def reads_def same_log)

lemma logs_outside: "moves logs (outside f)"
  by (auto simp: moves_def outside_def same_log split: prod.splits)

lemma logs_check: "moves logs (check f)"
  unfolding check_def by (rule logs_outside)

lemma logs_panic: "moves logs nil_panic"
  unfolding nil_panic_def by (rule logs_basic)

lemma logs_SetSessionStatus: "moves logs (SetSessionStatus E s r)"
  unfolding SetSessionStatus_def
  by (intro logs_basic logs_statement) (simp add: moves_def updates_def same_log)

lemma logs_InTenant:
  assumes "moves logs work"
  shows "moves logs (plan_InTenant E work)"
  unfolding moves_def
proof
  fix st
  obtain r st' where eq: "plan_InTenant E work st = (r, st')"
    by (rule prod.exhaust)
  then show "logs st (snd (plan_InTenant E work st))"
  proof (cases rule: plan_InTenant_cases)
    case (undone er e)
    then show ?thesis using eq by (simp add: same_log)
  next
    case (done_ a e1 st1 e2)
    have "logs (st\<lparr>PSEnv := e1\<rparr>) st1"
      using assms done_(1) unfolding moves_def by (metis snd_conv)
    then show ?thesis
      using eq done_(2) by (simp add: logs_def)
  qed
qed

lemma logs_append:
  assumes "\<And>l u. Q l (l @ [\<lparr>PvID = u, PvPayload = payload\<rparr>])"
  shows "moves logs (append_plan E payload)"
  unfolding append_plan_def
  by (intro logs_basic logs_statement logs_newUUID) (simp add: moves_def updates_def logs_def assms)

lemma logs_append_silent: "silent payload \<Longrightarrow> moves logs (append_plan E payload)"
  by (intro logs_append Q_silent) (simp add: silent_events_def)

lemma logs_external:
  fixes f :: "'e \<Rightarrow> (err option \<times> plan_event list) \<times> 'e"
  assumes "\<And>e. silent_events (snd (fst (f e)))"
  shows "moves logs (external f)"
  unfolding moves_def
proof
  fix st :: "'e plan_store"
  obtain er evs e1 where eq: "f (PSEnv st) = ((er, evs), e1)"
    by (metis prod.collapse)
  then have "silent_events evs"
    using assms [of "PSEnv st"] by simp
  then show "logs st (snd (external f st))"
    by (simp add: external_def eq logs_def Q_silent)
qed

lemmas logs_ops = logs_basic logs_statement logs_newUUID logs_reads logs_outside logs_check logs_panic
  logs_SetSessionStatus logs_InTenant

lemma logs_lastContentText: "moves logs (lastContentText E)"
  unfolding lastContentText_def
  by (intro logs_ops) (auto intro: logs_ops split: option.split plan_payload.split)

lemma logs_continueAgentStep:
  fixes E :: "('e, 'z) exec_env_scheme"
  assumes "quiet E"
  shows "moves logs (continueAgentStep E step)"
proof -
  have "moves logs (\<lambda>st. case xContinue E (PlanLog st) (PSEnv st) of ((er, evs, status), e1) \<Rightarrow>
              ((case er of None \<Rightarrow> Inr () | Some e \<Rightarrow> Inl e),
               st\<lparr>PlanLog := PlanLog st @ evs, SessStatus := (case status of None \<Rightarrow> SessStatus st | Some s \<Rightarrow> s), PSEnv := e1\<rparr>))"
    unfolding moves_def
  proof
    fix st :: "'e plan_store"
    obtain er evs status e1 where eq: "xContinue E (PlanLog st) (PSEnv st) = ((er, evs, status), e1)"
      by (metis prod.collapse)
    then have "silent_events evs"
      using assms unfolding quiet_def by (metis fst_conv snd_conv)
    then show "logs st (snd (case xContinue E (PlanLog st) (PSEnv st) of ((er, evs, status), e1) \<Rightarrow>
              ((case er of None \<Rightarrow> Inr () | Some e \<Rightarrow> Inl e),
               st\<lparr>PlanLog := PlanLog st @ evs, SessStatus := (case status of None \<Rightarrow> SessStatus st | Some s \<Rightarrow> s), PSEnv := e1\<rparr>)))"
      by (simp add: eq logs_def Q_silent)
  qed
  then show ?thesis
    unfolding continueAgentStep_def
    by (intro logs_ops) (auto intro!: logs_ops logs_lastContentText split: option.split)
qed

end

context log_frame
begin

lemma logs_spawn:
  assumes "\<And>a t g f v e. silent_events (snd (fst (dSpawn D a t g f v e)))"
  shows "moves logs (spawn_children D c fanoutID envelopeID i n)"
  by (induction n arbitrary: i) (auto intro!: logs_ops logs_external assms)

lemma logs_dispatch:
  assumes "quiet E"
  shows "moves logs (dispatch E anchor step n)"
proof -
  have ports: "xApprovals E = Some f1 \<Longrightarrow> moves logs (external (f1 a i q))" "xInputs E = Some f2 \<Longrightarrow> moves logs (external (f2 q' s))"
    "xDelegations E = Some D \<Longrightarrow> moves logs (spawn_children D c fo en k m)" for f1 a i q f2 q' s D c fo en k m
    using assms unfolding quiet_def by (auto intro: logs_external logs_spawn)
  have "moves logs (runAgentStep E step)"
    unfolding runAgentStep_def
    by (auto intro!: logs_ops logs_append_silent logs_continueAgentStep assms split: option.split)
  moreover have "moves logs (runDelegateFanout E step)"
    unfolding runDelegateFanout_def suspend_plan_def Let_def
    by (auto intro!: logs_ops ports(3) split: option.split sum.split)
  moreover have "moves logs (runApprovalGate E anchor step)" "moves logs (runPreauth E anchor step)"
    unfolding runApprovalGate_def runPreauth_def suspend_plan_def
    by (auto intro!: logs_ops ports(1) split: option.split)
  moreover have "moves logs (runInputRequest E step)"
    unfolding runInputRequest_def suspend_plan_def
    by (auto intro!: logs_ops ports(2) split: option.split)
  ultimately show ?thesis
    unfolding dispatch_def by (auto intro: logs_ops split: step_kind.split option.split)
qed

end

text \<open>Replaying the log, without the decryption that may fail on the way.\<close>

definition replayed :: "plan_event list \<Rightarrow> plan_state" where
  "replayed l = fold (\<lambda>ev. replay_event (PvPayload ev)) l fresh_state"

lemma silent_replay [simp]: "silent payload \<Longrightarrow> replay_event payload st = st"
  by (cases payload) simp_all

lemma replayed_snoc [simp]: "replayed (l @ [ev]) = replay_event (PvPayload ev) (replayed l)"
  by (simp add: replayed_def)

lemma replayed_silent: "silent_events evs \<Longrightarrow> replayed (l @ evs) = replayed l"
proof -
  assume "silent_events evs"
  then have "fold (\<lambda>ev. replay_event (PvPayload ev)) evs st = st" for st
    by (induction evs) (simp_all add: silent_events_def)
  then show ?thesis by (simp add: replayed_def)
qed

lemma replayState_Inr: "replayState E l pst st = (Inr pst', st') \<Longrightarrow> pst' = fold (\<lambda>ev. replay_event (PvPayload ev)) l pst"
  by (induction E l pst arbitrary: st rule: replayState.induct) (auto split: if_splits elim!: thenE_Inr)

text \<open>The steps a stretch of the log records as finished, those in \<open>K\<close> left out.\<close>

definition exits_outside :: "string set \<Rightarrow> plan_event list \<Rightarrow> string list" where
  "exits_outside K evs =
     concat (map (\<lambda>ev. case PvPayload ev of StepExited i b \<Rightarrow> if i \<in> K then [] else [i] | _ \<Rightarrow> []) evs)"

lemma exits_outside_simps [simp]:
  "exits_outside K [] = []" "exits_outside K (l @ l') = exits_outside K l @ exits_outside K l'"
  by (simp_all add: exits_outside_def)

lemma exits_outside_silent: "silent_events evs \<Longrightarrow> exits_outside K evs = []"
proof (induction evs)
  case (Cons ev evs)
  then have "silent (PvPayload ev)" "exits_outside K evs = []" by (simp_all add: silent_events_def)
  then show ?case by (cases "PvPayload ev") (simp_all add: exits_outside_def)
qed simp

interpretation replays: log_frame "\<lambda>l l'. replayed l' = replayed l"
  by unfold_locales (simp_all add: replayed_silent)

interpretation exits: log_frame "\<lambda>l l'. \<exists>new. l' = l @ new \<and> exits_outside K new = []" for K
proof unfold_locales
  show "\<exists>new. l @ evs = l @ new \<and> exits_outside K new = []" if "silent_events evs" for evs l
    using exits_outside_silent [OF that] by simp
qed auto

interpretation adds: log_frame "\<lambda>l l'. \<exists>new. l' = l @ new \<and> silent_events new"
proof unfold_locales
  show "\<exists>new. l3 = l1 @ new \<and> silent_events new"
    if "\<exists>new. l2 = l1 @ new \<and> silent_events new" "\<exists>new. l3 = l2 @ new \<and> silent_events new" for l1 l2 l3
    using that by (force simp: silent_events_def)
qed (auto simp: silent_events_def)

lemma append_plan_Inr:
  assumes "append_plan E payload st = (Inr u, st')"
  shows "PlanLog st' = PlanLog st @ [\<lparr>PvID = u, PvPayload = payload\<rparr>]"
  using assms
  by (auto simp: append_plan_def newUUID_def statement_def updates_def retE_def thenE_def split: prod.splits option.splits)

lemma InTenant_append_Inr:
  assumes "plan_InTenant E (append_plan E payload) st = (Inr u, st')"
  shows "PlanLog st' = PlanLog st @ [\<lparr>PvID = u, PvPayload = payload\<rparr>]"
  using assms by (cases rule: plan_InTenant_cases) (auto dest: append_plan_Inr)

lemma complete_plan_Inr:
  assumes "complete_plan E st = (Inr u, st')"
  shows "\<exists>v. PlanLog st' = PlanLog st @ [\<lparr>PvID = v, PvPayload = PlanCompleted\<rparr>]" and "SessStatus st' = SessionStatusCompleted"
  using assms unfolding complete_plan_def
  by (auto elim!: plan_InTenant_cases thenE_Inr dest!: append_plan_Inr
      simp: SetSessionStatus_def statement_def updates_def thenE_def split: prod.splits option.splits)

section \<open>What the log remembers\<close>

definition agrees :: "plan_state \<Rightarrow> plan_state \<Rightarrow> bool" where
  "agrees pst r \<longleftrightarrow> Vars r = Vars pst \<and> Iterations r = Iterations pst"

text \<open>Where a run that returned without an error has stopped: at a step that suspended, or at the end.\<close>

definition stopped_at :: "plan \<Rightarrow> plan_state \<Rightarrow> plan_state \<Rightarrow> bool" where
  "stopped_at p pst r \<longleftrightarrow> agrees pst r \<and>
     (Completed r \<and> CurrentStep r = '''' \<or> CurrentStep r = CurrentStep pst \<and> StepByID p (CurrentStep pst) \<noteq> None)"

lemma exitStepAndTransition_Inr:
  assumes "exitStepAndTransition E pst step bindings st = (Inr (pst1, nxt), st')"
  shows "pst1 = pst\<lparr>Vars := Vars pst ++ bindings\<rparr>"
    and "\<exists>pred. evaluateTransitions (STransitions step) (Vars pst1) = Inr (nxt, pred)"
    and "agrees pst (replayed (PlanLog st)) \<Longrightarrow> agrees pst1 (replayed (PlanLog st'))"
    and "nxt = '''' \<Longrightarrow> Completed (replayed (PlanLog st')) \<and> CurrentStep (replayed (PlanLog st')) = '''' \<and>
           SessStatus st' = SessionStatusCompleted"
proof -
  obtain u st1 where out: "plan_InTenant E (append_plan E (StepExited (SID step) bindings)) st = (Inr u, st1)"
    and rest: "(let pst1 = pst\<lparr>Vars := Vars pst ++ bindings\<rparr> in
       case evaluateTransitions (STransitions step) (Vars pst1) of
         Inl e \<Rightarrow> failE e
       | Inr (nxt, pred) \<Rightarrow>
           thenE (plan_InTenant E (append_plan E (PlanTransition (SID step) nxt pred))) (\<lambda>_.
           thenE (if nxt = '''' then complete_plan E else retE ()) (\<lambda>_.
           retE (pst1, nxt)))) st1 = (Inr (pst1, nxt), st')"
    by (rule thenE_Inr [OF assms [unfolded exitStepAndTransition_def]])
  let ?pst1 = "pst\<lparr>Vars := Vars pst ++ bindings\<rparr>"
  obtain n pred where ev: "evaluateTransitions (STransitions step) (Vars ?pst1) = Inr (n, pred)"
    using rest by (cases "evaluateTransitions (STransitions step) (Vars ?pst1)") auto
  from rest obtain u2 st2 where tr: "plan_InTenant E (append_plan E (PlanTransition (SID step) n pred)) st1 = (Inr u2, st2)"
    and fin: "thenE (if n = '''' then complete_plan E else retE ()) (\<lambda>_. retE (?pst1, n)) st2 = (Inr (pst1, nxt), st')"
    unfolding Let_def ev sum.case prod.case by (rule thenE_Inr)
  from fin obtain u3 st3 where comp: "(if n = '''' then complete_plan E else retE ()) st2 = (Inr u3, st3)"
    and last: "retE (?pst1, n) st3 = (Inr (pst1, nxt), st')"
    by (rule thenE_Inr)
  from last have res: "pst1 = ?pst1" "nxt = n" "st' = st3"
    by simp_all
  have log2: "replayed (PlanLog st2) = (replayed (PlanLog st))\<lparr>Vars := Vars (replayed (PlanLog st)) ++ bindings, CurrentStep := ''''\<rparr>"
    unfolding InTenant_append_Inr [OF tr] InTenant_append_Inr [OF out] replayed_snoc by simp
  show "pst1 = pst\<lparr>Vars := Vars pst ++ bindings\<rparr>" "\<exists>pred. evaluateTransitions (STransitions step) (Vars pst1) = Inr (nxt, pred)"
    using res ev by auto
  show "agrees pst (replayed (PlanLog st)) \<Longrightarrow> agrees pst1 (replayed (PlanLog st'))"
    using comp log2 res by (auto simp: agrees_def dest!: complete_plan_Inr(1) split: if_splits)
  show "nxt = '''' \<Longrightarrow> Completed (replayed (PlanLog st')) \<and> CurrentStep (replayed (PlanLog st')) = '''' \<and>
           SessStatus st' = SessionStatusCompleted"
    using comp res by (auto dest: complete_plan_Inr)
qed

lemma StepByID_SID: "StepByID p i = Some s \<Longrightarrow> SID s = i \<and> s \<in> set (Steps p)"
  by (auto simp: StepByID_def find_Some_iff)

lemma run_step_Inr:
  assumes "run_step E p pst stepID st = (Inr x, st')"
  obtains step u st1 r st2 where "StepByID p stepID = Some step"
    and "SKind step = StepLoop \<Longrightarrow> SLoop step \<noteq> None \<and> Iterations pst stepID < MaxIterations (the (SLoop step))"
    and "enterStep E step st = (Inr u, st1)"
    and "dispatch E u step (Iterations pst stepID + 1) st1 = (Inr r, st2)"
    and "r = None \<Longrightarrow> st' = st2 \<and>
           x = Inl (pst\<lparr>CurrentStep := stepID, Iterations := (Iterations pst)(stepID := Iterations pst stepID + 1)\<rparr>)"
    and "\<And>b. r = Some b \<Longrightarrow> \<exists>y. x = Inr y \<and> exitStepAndTransition E
           (pst\<lparr>CurrentStep := stepID, Iterations := (Iterations pst)(stepID := Iterations pst stepID + 1)\<rparr>) step b st2 = (Inr y, st')"
proof (cases "StepByID p stepID")
  case None
  then show ?thesis using assms by (simp add: run_step_def)
next
  case (Some step)
  have i: "SID step = stepID"
    using StepByID_SID [OF Some] by simp
  let ?pst1 = "pst\<lparr>CurrentStep := stepID, Iterations := (Iterations pst)(stepID := Iterations pst stepID + 1)\<rparr>"
  have loop: "SKind step = StepLoop \<Longrightarrow> SLoop step \<noteq> None \<and> Iterations pst stepID < MaxIterations (the (SLoop step))"
    and body: "thenE (enterStep E step) (\<lambda>u. thenE (dispatch E u step (Iterations pst stepID + 1)) (\<lambda>r. case r of
                  None \<Rightarrow> retE (Inl ?pst1)
                | Some b \<Rightarrow> thenE (exitStepAndTransition E ?pst1 step b) (\<lambda>x. retE (Inr x)))) st = (Inr x, st')"
    using assms unfolding run_step_def Some option.case i Let_def by (simp_all add: nil_panic_def split: if_splits)
  obtain u st1 where enter: "enterStep E step st = (Inr u, st1)"
    and body1: "thenE (dispatch E u step (Iterations pst stepID + 1)) (\<lambda>r. case r of
                  None \<Rightarrow> retE (Inl ?pst1)
                | Some b \<Rightarrow> thenE (exitStepAndTransition E ?pst1 step b) (\<lambda>x. retE (Inr x))) st1 = (Inr x, st')"
    by (rule thenE_Inr [OF body])
  obtain r st2 where disp: "dispatch E u step (Iterations pst stepID + 1) st1 = (Inr r, st2)"
    and body2: "(case r of None \<Rightarrow> retE (Inl ?pst1)
                | Some b \<Rightarrow> thenE (exitStepAndTransition E ?pst1 step b) (\<lambda>x. retE (Inr x))) st2 = (Inr x, st')"
    by (rule thenE_Inr [OF body1])
  show ?thesis
  proof (rule that [OF Some loop enter disp])
    show "st' = st2 \<and> x = Inl ?pst1" if "r = None"
      using body2 that by simp
    show "\<exists>y. x = Inr y \<and> exitStepAndTransition E ?pst1 step b st2 = (Inr y, st')" if "r = Some b" for b
      using body2 that by (auto elim!: thenE_Inr)
  qed
qed

lemma dispatch_replayed:
  assumes "quiet E" and "dispatch E u step n st = (r, st')"
  shows "replayed (PlanLog st') = replayed (PlanLog st)"
  using replays.logs_dispatch [OF assms(1)] assms(2) unfolding moves_def replays.logs_def by (metis snd_conv)

lemma run_step_tracks:
  assumes "quiet E" and "agrees pst (replayed (PlanLog st))" and run: "run_step E p pst stepID st = (Inr x, st')"
  shows "case x of
      Inl pst1 \<Rightarrow> agrees pst1 (replayed (PlanLog st')) \<and> CurrentStep (replayed (PlanLog st')) = CurrentStep pst1 \<and>
        StepByID p (CurrentStep pst1) \<noteq> None
    | Inr (pst1, nxt) \<Rightarrow> agrees pst1 (replayed (PlanLog st')) \<and>
        (nxt = '''' \<longrightarrow> Completed (replayed (PlanLog st')) \<and> CurrentStep (replayed (PlanLog st')) = '''')"
  using run
proof (cases rule: run_step_Inr)
  case (1 step u st1 r st2)
  let ?pst1 = "pst\<lparr>CurrentStep := stepID, Iterations := (Iterations pst)(stepID := Iterations pst stepID + 1)\<rparr>"
  have "SID step = stepID"
    using StepByID_SID [OF 1(1)] by simp
  then have in_step: "agrees ?pst1 (replayed (PlanLog st2))" "CurrentStep (replayed (PlanLog st2)) = stepID"
    using assms(2) InTenant_append_Inr [OF 1(3) [unfolded enterStep_def]]
    unfolding dispatch_replayed [OF assms(1) 1(4)] by (simp_all add: agrees_def)
  show ?thesis
  proof (cases r)
    case None
    then show ?thesis
      using 1(5) in_step 1(1) by simp
  next
    case (Some b)
    then obtain pst1 nxt where "x = Inr (pst1, nxt)" "exitStepAndTransition E ?pst1 step b st2 = (Inr (pst1, nxt), st')"
      using 1(6) [OF Some] by auto
    then show ?thesis
      using exitStepAndTransition_Inr(3,4) in_step(1) by fastforce
  qed
qed

text \<open>Induction along a run that ends.\<close>

lemma run_plan_induct [consumes 1, case_names finish error suspend step]:
  assumes run: "run_plan E p pst stepID st = Some y"
    and finish: "\<And>pst st. P pst '''' st (Inr pst, st)"
    and error: "\<And>pst i st e st1. \<lbrakk>i \<noteq> ''''; run_step E p pst i st = (Inl e, st1)\<rbrakk> \<Longrightarrow> P pst i st (Inl e, st1)"
    and suspend: "\<And>pst i st pst1 st1. \<lbrakk>i \<noteq> ''''; run_step E p pst i st = (Inr (Inl pst1), st1)\<rbrakk> \<Longrightarrow> P pst i st (Inr pst1, st1)"
    and step: "\<And>pst i st pst1 nxt st1 y. \<lbrakk>i \<noteq> ''''; run_step E p pst i st = (Inr (Inr (pst1, nxt)), st1);
        run_plan E p pst1 nxt st1 = Some y; P pst1 nxt st1 y\<rbrakk> \<Longrightarrow> P pst i st y"
  shows "P pst stepID st y"
proof -
  have "E' = E \<longrightarrow> p' = p \<longrightarrow> run_plan E p pst stepID st = Some y \<and> P pst stepID st y"
    if "run_plan E' p' pst stepID st = Some y" for E' p' pst stepID st y
    using that
  proof (rule run_plan.raw_induct [rotated], goal_cases)
    case (1 run E1 p1 pst i st y)
    show ?case
    proof (intro impI)
      assume "E1 = E" "p1 = p"
      note body = 1(2) [unfolded \<open>E1 = E\<close> \<open>p1 = p\<close>]
      have rec: "run E p q j s = Some y \<Longrightarrow> run_plan E p q j s = Some y \<and> P q j s y" for q j s
        using 1(1) by blast
      obtain r st1 where r: "run_step E p pst i st = (r, st1)"
        by (rule prod.exhaust)
      have unfold: "run_plan E p pst i st = Some y"
        using body rec by (subst run_plan.simps) (auto split: prod.splits sum.splits if_splits)
      show "run_plan E p pst i st = Some y \<and> P pst i st y"
      proof (cases "i = ''''")
        case True
        then show ?thesis using body finish unfold by auto
      next
        case False
        consider e where "r = Inl e" | pst1 where "r = Inr (Inl pst1)" | pst1 nxt where "r = Inr (Inr (pst1, nxt))"
          by (metis prod.exhaust sum.exhaust)
        then have "P pst i st y"
        proof cases
          case 1
          then show ?thesis using body False r error [OF False, of pst st] by auto
        next
          case (2 pst1)
          then show ?thesis using body False r suspend [OF False, of pst st] by auto
        next
          case (3 pst1 nxt)
          then have "run E p pst1 nxt st1 = Some y"
            using body False r by simp
          then show ?thesis
            using rec step [OF False r [unfolded 3]] by blast
        qed
        then show ?thesis using unfold by simp
      qed
    qed
  qed
  then show ?thesis
    using run by blast
qed

lemma run_plan_tracks:
  assumes "run_plan E p pst stepID st = Some (Inr pst', st')" and "quiet E" and "agrees pst (replayed (PlanLog st))"
    and "stepID = '''' \<Longrightarrow> Completed (replayed (PlanLog st)) \<and> CurrentStep (replayed (PlanLog st)) = ''''"
  shows "stopped_at p pst' (replayed (PlanLog st'))"
  using assms(1,3,4)
proof (induction "(Inr pst', st') :: (err + plan_state) \<times> _" rule: run_plan_induct)
  case finish
  then show ?case by (simp add: stopped_at_def)
next
  case (suspend pst i st)
  show ?case
    using run_step_tracks [OF assms(2) suspend(3,2)] by (simp add: stopped_at_def)
next
  case (step pst i st pst1 nxt st1)
  then show ?case
    using run_step_tracks [OF assms(2) step(5,2)] by simp
qed

end
