(* ===== verification/Plan_Theorems.thy ===== *)
theory Plan_Theorems
  imports Plan_Exec
begin

text \<open>
  The properties of orchestration plans: what the validator's two graph walks decide, when a run
  ends, that a run never asks the model where to go, that no gate is passed without its decision,
  and that the log alone is enough to pick a run up again.
\<close>

section \<open>Helpers\<close>

lemma adds_Get_plan: "moves adds.logs (Get_plan E t planID v)"
  unfolding Get_plan_def PlanSpec_def
  by (intro adds.logs_ops) (auto intro: adds.logs_ops split: option.split)

lemma adds_replayState: "moves adds.logs (replayState E l pst)"
  by (induction E l pst rule: replayState.induct) (auto intro!: adds.logs_ops)

lemma adds_load_plan: "moves adds.logs (load_plan E t session)"
  unfolding load_plan_def
  by (intro adds.logs_ops) (auto intro!: adds.logs_ops adds_Get_plan adds_replayState split: option.split)

lemma moves_Inr: "moves R m \<Longrightarrow> m st = (r, st') \<Longrightarrow> R st st'"
  unfolding moves_def by (metis snd_conv)

lemma replays_same: "moves replays.logs m \<Longrightarrow> m st = (r, st') \<Longrightarrow> replayed (PlanLog st') = replayed (PlanLog st)"
  by (drule (1) moves_Inr) (simp add: replays.logs_def)

lemma statement_Inr: "statement E st = (Inr u, st') \<Longrightarrow> \<exists>e. st' = st\<lparr>PSEnv := e\<rparr>"
  by (auto simp: statement_def split: prod.splits option.splits)

text \<open>What is loaded: the plan the session is pinned to, and the state its log replays to.\<close>

lemma load_plan_Inr:
  assumes "load_plan E t session st = (Inr (p, pst), st')"
  shows "pinned_plan t st = Some p" and "pst = replayed (PlanLog st)"
proof -
  obtain x st1 where unit: "plan_InTenant E (thenE (statement E) (\<lambda>_. thenE (statement E) (\<lambda>_. reads (\<lambda>st. (SessPlan st, PlanLog st))))) st
      = (Inr x, st1)"
    and rest: "(case x of (sess, history) \<Rightarrow>
       case sess of
         None \<Rightarrow> failE (Err (''plan: session '' @ session @ '' is not a plan-driven session''))
       | Some (planID, version) \<Rightarrow>
           thenE (Get_plan E t planID version) (\<lambda>(p, _).
           thenE (replayState E history fresh_state) (\<lambda>pst. retE (p, pst)))) st1 = (Inr (p, pst), st')"
    by (rule thenE_Inr [OF assms [unfolded load_plan_def]])
  have work: "x = (SessPlan s, PlanLog s) \<and> (\<exists>e. s' = s\<lparr>PSEnv := e\<rparr>)"
    if "thenE (statement E) (\<lambda>_. thenE (statement E) (\<lambda>_. reads (\<lambda>st. (SessPlan st, PlanLog st)))) s = (Inr x, s')" for s s'
    using that by (auto elim!: thenE_Inr dest!: statement_Inr)
  from unit obtain e1 s2 e2 where w: "thenE (statement E) (\<lambda>_. thenE (statement E) (\<lambda>_. reads (\<lambda>st. (SessPlan st, PlanLog st))))
      (st\<lparr>PSEnv := e1\<rparr>) = (Inr x, s2)" "st1 = s2\<lparr>PSEnv := e2\<rparr>"
    by (cases rule: plan_InTenant_cases) auto
  have x: "x = (SessPlan st, PlanLog st)" and rows: "PlanRows st1 = PlanRows st"
    using work [OF w(1)] w(2) by auto
  obtain planID v where sess: "SessPlan st = Some (planID, v)"
    using rest x by (cases "SessPlan st") auto
  then have "thenE (Get_plan E t planID v) (\<lambda>(p, _). thenE (replayState E (PlanLog st) fresh_state) (\<lambda>pst. retE (p, pst))) st1 = (Inr (p, pst), st')"
    using rest x by simp
  then obtain q st2 where get: "Get_plan E t planID v st1 = (Inr q, st2)"
    and "(case q of (p, _) \<Rightarrow> thenE (replayState E (PlanLog st) fresh_state) (\<lambda>pst. retE (p, pst))) st2 = (Inr (p, pst), st')"
    by (rule thenE_Inr)
  then have "thenE (replayState E (PlanLog st) fresh_state) (\<lambda>pst. retE (fst q, pst)) st2 = (Inr (p, pst), st')"
    by (cases q) simp
  then have "replayState E (PlanLog st) fresh_state st2 = (Inr pst, st')" and q: "fst q = p"
    by (auto elim: thenE_Inr)
  then show "pst = replayed (PlanLog st)"
    using replayState_Inr by (simp add: replayed_def)
  have "Get_plan E t planID v st1 = (Inr (p, snd q), st2)"
    using get q by (cases q) simp
  from Get_plan_Inr(4) [OF this] show "pinned_plan t st = Some p"
    unfolding rows by (simp add: pinned_plan_def sess)
qed

lemma finishing_Some_Inr:
  assumes "finishing m k st = Some (Inr b, st')"
  obtains a st1 where "m st = (Inr a, st1)" and "k a st1 = Some (Inr b, st')"
  using assms by (auto simp: finishing_def split: prod.splits sum.splits)

lemma afterStep_tracks:
  assumes "afterStep E p pst step b st = Some (Inr pst', st')" and "quiet E" and "agrees pst (replayed (PlanLog st))"
  shows "stopped_at p pst' (replayed (PlanLog st'))"
proof -
  obtain r st1 where r: "exitStepAndTransition E pst step b st = (r, st1)"
    by (rule prod.exhaust)
  obtain pst1 nxt where x: "exitStepAndTransition E pst step b st = (Inr (pst1, nxt), st1)"
    using assms(1) r by (cases r) (auto simp: afterStep_def)
  show ?thesis
  proof (cases "nxt = ''''")
    case True
    then show ?thesis
      using assms(1,3) exitStepAndTransition_Inr(3,4) [OF x] by (simp add: afterStep_def x stopped_at_def)
  next
    case False
    then show ?thesis
      using assms exitStepAndTransition_Inr(3) [OF x] by (intro run_plan_tracks [of E p pst1 nxt st1]) (simp_all add: afterStep_def x)
  qed
qed

lemma Start_plan_tracks:
  assumes "Start_plan E p st = Some (Inr pst, st')" and "quiet E" and "PlanLog st = []" and "StartStep p \<noteq> ''''"
  shows "stopped_at p pst (replayed (PlanLog st'))"
proof -
  let ?open = "plan_InTenant E (thenE (append_plan E (PlanStarted (PlanID p) (PlVersion p))) (\<lambda>_. SetSessionStatus E SessionStatusRunning None))"
  obtain r st1 where r: "?open st = (r, st1)"
    by (rule prod.exhaust)
  have "moves replays.logs ?open"
    by (intro replays.logs_ops replays.logs_append_silent) simp
  from replays_same [OF this r] have "agrees fresh_state (replayed (PlanLog st1))"
    using assms(3) by (simp add: replayed_def agrees_def)
  moreover have "run_plan E p fresh_state (StartStep p) st1 = Some (Inr pst, st')"
    using assms(1) r by (auto simp: Start_plan_def split: sum.splits)
  ultimately show ?thesis
    using run_plan_tracks assms(2,4) by blast
qed

text \<open>
  Picking a session up: the plan it is pinned to, the state its log replays to and the step that is in
  progress, with nothing logged in between that says where the plan is.
\<close>

definition picked_up :: "uuid \<Rightarrow> 'e plan_store \<Rightarrow> plan \<Rightarrow> plan_state \<Rightarrow> step \<Rightarrow> 'e plan_store \<Rightarrow> bool" where
  "picked_up t st p pst step st1 \<longleftrightarrow>
     pinned_plan t st = Some p \<and> pst = replayed (PlanLog st) \<and> StepByID p (CurrentStep pst) = Some step \<and> adds.logs st st1"

text \<open>Every way back fails before it finished anything, suspends again, or finishes the step in progress and goes on.\<close>

definition came_back ::
    "('e, 'z) exec_env_scheme \<Rightarrow> uuid \<Rightarrow> 'e plan_store \<Rightarrow> (err + plan_state) \<times> 'e plan_store \<Rightarrow> bool" where
  "came_back E t st y \<longleftrightarrow>
     (\<exists>e. fst y = Inl e \<and> adds.logs st (snd y)) \<or>
     (\<exists>p pst step. fst y = Inr pst \<and> picked_up t st p pst step (snd y)) \<or>
     (\<exists>p pst step b st1. picked_up t st p pst step st1 \<and> afterStep E p pst step b st1 = Some y)"

lemma finishing_came_back:
  assumes "finishing m k st = Some y" and "moves adds.logs m"
    and "\<And>a st1. m st = (Inr a, st1) \<Longrightarrow> k a st1 = Some y \<Longrightarrow> came_back E t st y"
  shows "came_back E t st y"
  using assms(1,3) moves_Inr [OF assms(2)] by (fastforce simp: finishing_def came_back_def split: prod.splits sum.splits)

lemma step_in_progress_Inr:
  "step_in_progress session (p, pst) st = (Inr step, st') \<Longrightarrow> st' = st \<and> StepByID p (CurrentStep pst) = Some step"
  by (auto simp: step_in_progress_def split: if_splits option.splits)

lemma adds_step_in_progress: "moves adds.logs (step_in_progress session x :: ('e plan_store, step) io)"
  unfolding step_in_progress_def by (auto intro: adds.logs_ops split: prod.split option.split)

lemma adds_answer_gate: "moves adds.logs (answer_gate E session v x)"
  unfolding answer_gate_def
  by (intro adds.logs_ops adds_step_in_progress) (auto intro!: adds.logs_ops split: option.split)

lemma answer_gate_Inr:
  assumes "answer_gate E session v (p, pst) st = (Inr (y, step, b), st')"
  shows "y = (p, pst)" and "StepByID p (CurrentStep pst) = Some step"
proof -
  obtain s st1 where s: "step_in_progress session (p, pst) st = (Inr s, st1)" and rest: "(case gateResultVar s of
         None \<Rightarrow> nil_panic
       | Some resultVar \<Rightarrow>
           thenE (plan_InTenant E (SetSessionStatus E SessionStatusRunning None)) (\<lambda>_.
             retE ((p, pst), s, if resultVar \<noteq> '''' then [resultVar \<mapsto> v] else Map.empty))) st1 = (Inr (y, step, b), st')"
    by (rule thenE_Inr [OF assms [unfolded answer_gate_def]])
  then have "y = (p, pst) \<and> step = s"
    by (cases "gateResultVar s") (auto simp: nil_panic_def elim!: thenE_Inr)
  with step_in_progress_Inr [OF s] show "y = (p, pst)" "StepByID p (CurrentStep pst) = Some step" by simp_all
qed

lemma loaded_picked_up:
  assumes "load_plan E t session st = (Inr (p, pst), st1)" and "StepByID p (CurrentStep pst) = Some step" and "adds.logs st1 st2"
  shows "picked_up t st p pst step st2"
  using load_plan_Inr [OF assms(1)] assms(2) transpD [OF adds.trans_logs moves_Inr [OF adds_load_plan assms(1)] assms(3)]
  by (simp add: picked_up_def)

lemma ResumeGate_came_back:
  assumes "ResumeGate E t session v st = Some y"
  shows "came_back E t st y"
  using assms unfolding ResumeGate_def
proof (rule finishing_came_back)
  show "moves adds.logs (thenE (load_plan E t session) (answer_gate E session v))"
    by (intro adds.logs_ops adds_load_plan adds_answer_gate)
next
  fix a st3
  assume m: "thenE (load_plan E t session) (answer_gate E session v) st = (Inr a, st3)"
    and k: "(case a of (x, xa) \<Rightarrow> (case x of (p, pst) \<Rightarrow> \<lambda>(step, bindings). afterStep E p pst step bindings) xa) st3 = Some y"
  obtain p pst st1 where l: "load_plan E t session st = (Inr (p, pst), st1)" and g: "answer_gate E session v (p, pst) st1 = (Inr a, st3)"
    using m by (elim thenE_Inr) auto
  obtain step b where a: "a = ((p, pst), step, b)" and s: "StepByID p (CurrentStep pst) = Some step"
    using answer_gate_Inr g by (cases a) fastforce
  have "picked_up t st p pst step st3"
    by (rule loaded_picked_up [OF l s moves_Inr [OF adds_answer_gate g]])
  then show "came_back E t st y"
    using k a by (auto simp: came_back_def)
qed

lemma Resume_plan_came_back:
  assumes "Resume_plan E t session st = Some y" and "quiet E"
  shows "came_back E t st y"
  using assms(1) unfolding Resume_plan_def
proof (rule finishing_came_back)
  show "moves adds.logs (thenE (load_plan E t session) (\<lambda>(p, pst). thenE (step_in_progress session (p, pst)) (\<lambda>step.
          if SKind step \<noteq> StepAgent
          then failE (Err (''plan: session '' @ session @ [CHR 0x27] @ ''s in-progress step '' @ quoted (CurrentStep pst) @ '' is a '' @
                           step_kind_str (SKind step) @ '' step; use ResumeGate instead''))
          else thenE (continueAgentStep E step) (\<lambda>r. retE (p, pst, step, r)))))"
    by (intro adds.logs_ops adds_load_plan) (auto intro!: adds.logs_ops adds_step_in_progress adds.logs_continueAgentStep assms(2))
next
  fix a st3
  assume m: "thenE (load_plan E t session) (\<lambda>(p, pst). thenE (step_in_progress session (p, pst)) (\<lambda>step.
          if SKind step \<noteq> StepAgent
          then failE (Err (''plan: session '' @ session @ [CHR 0x27] @ ''s in-progress step '' @ quoted (CurrentStep pst) @ '' is a '' @
                           step_kind_str (SKind step) @ '' step; use ResumeGate instead''))
          else thenE (continueAgentStep E step) (\<lambda>r. retE (p, pst, step, r)))) st = (Inr a, st3)"
    and k: "(case a of (p, pst, step, r) \<Rightarrow> \<lambda>st. case r of None \<Rightarrow> Some (Inr pst, st) | Some bindings \<Rightarrow> afterStep E p pst step bindings st) st3 = Some y"
  obtain p pst st1 step st2 r where l: "load_plan E t session st = (Inr (p, pst), st1)"
    and s: "step_in_progress session (p, pst) st1 = (Inr step, st2)"
    and c: "continueAgentStep E step st2 = (Inr r, st3)" and a: "a = (p, pst, step, r)"
    using m by (elim thenE_Inr) (auto elim!: thenE_Inr split: if_splits prod.splits)
  have "picked_up t st p pst step st3"
    using loaded_picked_up [OF l] step_in_progress_Inr [OF s] moves_Inr [OF adds.logs_continueAgentStep [OF assms(2)] c] by blast
  then show "came_back E t st y"
    using k a by (cases r) (auto simp: came_back_def)
qed

lemma returning_Some:
  assumes "returning x = Some (r, st)"
  obtains y where "x = Some (y, st)" and "r = (case y of Inl e \<Rightarrow> Inl e | Inr a \<Rightarrow> Inr (Some a))"
  using assms by (auto simp: returning_def)

lemma came_back_env: "came_back E t (st\<lparr>PSEnv := e\<rparr>) y = came_back E t st y"
proof -
  have "pinned_plan t (st\<lparr>PSEnv := e\<rparr>) = pinned_plan t st"
    by (simp add: pinned_plan_def split: option.split)
  then show ?thesis by (simp add: came_back_def picked_up_def adds.logs_def)
qed

lemma adds_fanout_result: "moves adds.logs (fanout_result E session f members x)"
  unfolding fanout_result_def Let_def by (auto intro!: adds.logs_ops split: prod.split option.split)

lemma fanout_result_Inr:
  assumes "fanout_result E session f members (p, pst) st = (Inr a, st')"
  obtains step b where "a = (p, pst, step, b)" and "StepByID p (CurrentStep pst) = Some step"
  using assms by (auto simp: fanout_result_def Let_def bind_eq_Some_conv elim!: thenE_Inr split: if_splits option.splits)

lemma fanout_came_back:
  assumes "finishing (thenE (load_plan E t session) (fanout_result E session f members)) (\<lambda>(p, pst, step, b). afterStep E p pst step b) st = Some y"
  shows "came_back E t st y"
  using assms
proof (rule finishing_came_back)
  show "moves adds.logs (thenE (load_plan E t session) (fanout_result E session f members))"
    by (intro adds.logs_ops adds_load_plan adds_fanout_result)
next
  fix a st3
  assume m: "thenE (load_plan E t session) (fanout_result E session f members) st = (Inr a, st3)"
    and k: "(case a of (p, pst, step, b) \<Rightarrow> afterStep E p pst step b) st3 = Some y"
  obtain p pst st1 where l: "load_plan E t session st = (Inr (p, pst), st1)"
    and g: "fanout_result E session f members (p, pst) st1 = (Inr a, st3)"
    using m by (elim thenE_Inr) auto
  obtain step b where a: "a = (p, pst, step, b)" and s: "StepByID p (CurrentStep pst) = Some step"
    by (rule fanout_result_Inr [OF g])
  have "picked_up t st p pst step st3"
    by (rule loaded_picked_up [OF l s moves_Inr [OF adds_fanout_result g]])
  then show "came_back E t st y"
    using k a by (auto simp: came_back_def)
qed

lemma ResolveFanout_came_back:
  assumes "ResolveFanout E t session f st = Some (r, st')"
  shows "r = Inr None \<and> adds.logs st st' \<or>
    (\<exists>y. came_back E t st (y, st') \<and> r = (case y of Inl e \<Rightarrow> Inl e | Inr a \<Rightarrow> Inr (Some a)))"
proof (cases "xDelegations E")
  case None
  with assms obtain e where "r = Inl e" "st' = st"
    by (auto simp: ResolveFanout_def nil_panic_def failE_def)
  then show ?thesis by (intro disjI2 exI [of _ "Inl e"]) (simp add: came_back_def adds.same_log)
next
  case (Some D)
  obtain o1 e where out: "dListOpenForFanout D f (PSEnv st) = (o1, e)" by (rule prod.exhaust)
  let ?st = "st\<lparr>PSEnv := e\<rparr>"
  have same: "adds.logs st ?st" by (simp add: adds.same_log)
  show ?thesis
  proof (cases o1)
    case (Inl er)
    with assms Some out have "r = Inl er" "st' = ?st" by (simp_all add: ResolveFanout_def finishing_def outside_def)
    with same show ?thesis by (intro disjI2 exI [of _ "Inl er"]) (simp add: came_back_def)
  next
    case (Inr members)
    have body: "(if members = [] then Some (failE (Err (''plan: fanout '' @ peUuidString E f @ '' has no delegations'')) ?st)
        else if StatusPending \<in> set members then Some (Inr None, ?st)
        else returning (finishing (thenE (load_plan E t session) (fanout_result E session f members))
               (\<lambda>(p, pst, step, b). afterStep E p pst step b) ?st)) = Some (r, st')"
      using assms Some out Inr by (simp add: ResolveFanout_def finishing_def [of "outside _"] outside_def)
    show ?thesis
    proof (cases "members = [] \<or> StatusPending \<in> set members")
      case True
      with body same show ?thesis
        by (cases "members = []") (auto simp: failE_def came_back_def intro!: exI [of _ "Inl _"])
    next
      case False
      with body obtain y where "finishing (thenE (load_plan E t session) (fanout_result E session f members))
          (\<lambda>(p, pst, step, b). afterStep E p pst step b) ?st = Some (y, st')" "r = (case y of Inl e \<Rightarrow> Inl e | Inr a \<Rightarrow> Inr (Some a))"
        by (auto elim: returning_Some)
      with fanout_came_back [of E t session f members ?st "(y, st')"] show ?thesis by (auto simp: came_back_env)
    qed
  qed
qed

lemma came_back_tracks:
  assumes "came_back E t st (Inr pst, st')" and "quiet E"
  shows "\<exists>p. pinned_plan t st = Some p \<and> stopped_at p pst (replayed (PlanLog st'))"
proof -
  have same: "replayed (PlanLog st1) = replayed (PlanLog st)" if "adds.logs st st1" for st1
    using that replayed_silent by (auto simp: adds.logs_def)
  from assms(1) consider p step where "picked_up t st p pst step st'"
    | p pst0 step b st1 where "picked_up t st p pst0 step st1" "afterStep E p pst0 step b st1 = Some (Inr pst, st')"
    by (auto simp: came_back_def)
  then show ?thesis
  proof cases
    case 1
    with same show ?thesis by (auto simp: picked_up_def stopped_at_def agrees_def)
  next
    case (2 p pst0 step b st1)
    then have "agrees pst0 (replayed (PlanLog st1))" using same by (simp add: picked_up_def agrees_def)
    with afterStep_tracks [OF 2(2) assms(2)] 2(1) show ?thesis by (auto simp: picked_up_def)
  qed
qed

section \<open>Ending\<close>

text \<open>The promise the validator is there for: every cycle goes through a loop step.\<close>

definition cycles_bounded :: "plan \<Rightarrow> bool" where
  "cycles_bounded p \<longleftrightarrow> (\<forall>c. is_cycle (plan_seen p) c \<longrightarrow> list_ex (is_loop (plan_seen p)) c)"

definition plain_edge :: "plan \<Rightarrow> (string \<times> string) set" where
  "plain_edge p = {(i, j) \<in> edge (plan_seen p). \<not> is_loop (plan_seen p) i \<and> \<not> is_loop (plan_seen p) j}"

lemma edge_finite: "finite (edge seen)"
proof (rule finite_subset)
  show "edge seen \<subseteq> fst ` set seen \<times> targets seen"
  proof (rule subrelI)
    fix i j
    assume ij: "(i, j) \<in> edge seen"
    then have "map_of seen i \<noteq> None"
      by (cases "map_of seen i") (auto simp: edge_def seen_transitions_def)
    then have "i \<in> fst ` set seen"
      by (simp add: map_of_eq_None_iff)
    then show "(i, j) \<in> fst ` set seen \<times> targets seen"
      using ij seen_transitions_targets [of seen i] by (auto simp: edge_def)
  qed
qed simp

lemma plain_cycle:
  assumes "(i, j) \<in> (plain_edge p)\<^sup>+"
  shows "\<exists>c. 2 \<le> length c \<and> hd c = i \<and> last c = j \<and> successively (\<lambda>i j. (i, j) \<in> edge (plan_seen p)) c \<and>
    (\<forall>x\<in>set c. \<not> is_loop (plan_seen p) x)"
  using assms
proof (induction rule: trancl_induct)
  case (base y)
  then show ?case
    by (intro exI [of _ "[i, y]"]) (simp add: plain_edge_def)
next
  case (step y z)
  then obtain c where c: "2 \<le> length c" "hd c = i" "last c = y" "successively (\<lambda>i j. (i, j) \<in> edge (plan_seen p)) c"
    "\<forall>x\<in>set c. \<not> is_loop (plan_seen p) x"
    by blast
  then show ?case
    using step(2) by (intro exI [of _ "c @ [z]"]) (auto simp: plain_edge_def successively_append_iff hd_append)
qed

lemma cycles_bounded_acyclic: "cycles_bounded p \<Longrightarrow> acyclic (plain_edge p)"
  unfolding acyclic_def cycles_bounded_def is_cycle_def list_ex_iff using plain_cycle by metis

definition rank :: "plan \<Rightarrow> string \<Rightarrow> nat" where
  "rank p i = (if is_loop (plan_seen p) i then 0 else Suc (card ((plain_edge p)\<^sup>+ `` {i})))"

lemma rank_edge:
  assumes "acyclic (plain_edge p)" and "(i, j) \<in> edge (plan_seen p)" and "\<not> is_loop (plan_seen p) i"
  shows "rank p j < rank p i"
proof (cases "is_loop (plan_seen p) j")
  case False
  then have ij: "(i, j) \<in> plain_edge p"
    using assms by (simp add: plain_edge_def)
  have "(plain_edge p)\<^sup>+ `` {j} \<subset> (plain_edge p)\<^sup>+ `` {i}"
  proof
    show "(plain_edge p)\<^sup>+ `` {j} \<subseteq> (plain_edge p)\<^sup>+ `` {i}"
      using ij by (auto intro: trancl_into_trancl2)
    show "(plain_edge p)\<^sup>+ `` {j} \<noteq> (plain_edge p)\<^sup>+ `` {i}"
      using ij assms(1) by (auto simp: acyclic_def)
  qed
  moreover have "finite (plain_edge p)"
    by (rule finite_subset [OF _ edge_finite]) (auto simp: plain_edge_def)
  then have "finite ((plain_edge p)\<^sup>+ `` {i})"
    by (simp add: finite_Image finite_trancl)
  ultimately show ?thesis
    using assms(3) False by (simp add: rank_def psubset_card_mono)
qed (use assms(3) in \<open>simp add: rank_def\<close>)

text \<open>How often the loop steps may still be entered.\<close>

definition loops_left :: "plan \<Rightarrow> (string \<Rightarrow> int) \<Rightarrow> nat" where
  "loops_left p it = sum_list (map (\<lambda>s. if SKind s = StepLoop then nat (MaxIterations (the (SLoop s)) - it (SID s)) else 0) (Steps p))"

lemma loops_left_enter: "loops_left p (it(i := it i + 1)) \<le> loops_left p it"
  unfolding loops_left_def by (intro sum_list_mono) (auto intro!: nat_mono)

lemma loops_left_loop:
  assumes "s \<in> set (Steps p)" and "SID s = i" and "SKind s = StepLoop" and "it i < MaxIterations (the (SLoop s))"
  shows "loops_left p (it(i := it i + 1)) < loops_left p it"
proof -
  let ?w = "\<lambda>it s. if SKind s = StepLoop then nat (MaxIterations (the (SLoop s)) - it (SID s)) else 0"
  obtain xs ys where "Steps p = xs @ s # ys"
    using split_list [OF assms(1)] by blast
  moreover have "sum_list (map (?w (it(i := it i + 1))) zs) \<le> sum_list (map (?w it) zs)" for zs
    by (intro sum_list_mono) (auto intro!: nat_mono)
  from add_mono [OF this this] have "sum_list (map (?w (it(i := it i + 1))) xs) + sum_list (map (?w (it(i := it i + 1))) ys)
      \<le> sum_list (map (?w it) xs) + sum_list (map (?w it) ys)" .
  ultimately show ?thesis
    using assms(2-4) unfolding loops_left_def by simp
qed

lemma evaluateTransitions_target: "evaluateTransitions ts vars = Inr (nxt, pred) \<Longrightarrow> nxt = '''' \<or> nxt \<in> TTo ` set ts"
  by (induction ts vars rule: evaluateTransitions.induct) (auto split: option.splits sum.splits bool.splits)

lemma run_step_next:
  assumes "run_step E p pst i st = (Inr (Inr (pst1, nxt)), st1)"
  shows "Iterations pst1 = (Iterations pst)(i := Iterations pst i + 1)" and "nxt \<noteq> '''' \<Longrightarrow> (i, nxt) \<in> edge (plan_seen p)"
    and "is_loop (plan_seen p) i \<Longrightarrow> loops_left p (Iterations pst1) < loops_left p (Iterations pst)"
proof -
  let ?pst1 = "pst\<lparr>CurrentStep := i, Iterations := (Iterations pst)(i := Iterations pst i + 1)\<rparr>"
  obtain step b st3 where step: "StepByID p i = Some step"
    and loop: "SKind step = StepLoop \<Longrightarrow> Iterations pst i < MaxIterations (the (SLoop step))"
    and out: "exitStepAndTransition E ?pst1 step b st3 = (Inr (pst1, nxt), st1)"
    using assms
  proof (cases rule: run_step_Inr)
    case (1 step u st2 r st3)
    obtain b where "r = Some b"
      using 1(5) by (cases r) auto
    then show ?thesis
      using that [OF 1(1)] 1(2,6) by blast
  qed
  show it: "Iterations pst1 = (Iterations pst)(i := Iterations pst i + 1)"
    unfolding exitStepAndTransition_Inr(1) [OF out] by simp
  obtain pred where ev: "evaluateTransitions (STransitions step) (Vars pst1) = Inr (nxt, pred)"
    using exitStepAndTransition_Inr(2) [OF out] by blast
  show "(i, nxt) \<in> edge (plan_seen p)" if "nxt \<noteq> ''''"
    using evaluateTransitions_target [OF ev] that step by (simp add: edge_def seen_transitions_def map_of_plan_seen)
  show "loops_left p (Iterations pst1) < loops_left p (Iterations pst)" if "is_loop (plan_seen p) i"
    unfolding it using that loop loops_left_loop [of step p i "Iterations pst"] StepByID_SID [OF step]
    by (simp add: is_loop_def map_of_plan_seen step)
qed

lemma run_plan_ends:
  assumes "acyclic (plain_edge p)"
  shows "\<exists>y. run_plan E p pst i st = Some y"
proof (induction "(loops_left p (Iterations pst), rank p i)" arbitrary: pst i st rule: wf_induct_rule [OF wf_lex_prod [OF wf_less wf_less]])
  case (1 pst i st)
  obtain r st1 where r: "run_step E p pst i st = (r, st1)"
    by (rule prod.exhaust)
  have "\<exists>y. run_plan E p pst1 nxt st1 = Some y" if x: "r = Inr (Inr (pst1, nxt))" for pst1 nxt
  proof (cases "nxt = ''''")
    case True
    then show ?thesis by (subst run_plan.simps) simp
  next
    case False
    note next_facts = run_step_next [OF r [unfolded x]]
    have "loops_left p (Iterations pst1) < loops_left p (Iterations pst) \<or>
        loops_left p (Iterations pst1) = loops_left p (Iterations pst) \<and> rank p nxt < rank p i"
    proof (cases "is_loop (plan_seen p) i")
      case True
      then show ?thesis using next_facts(3) by simp
    next
      case nonloop: False
      then show ?thesis
        using rank_edge [OF assms next_facts(2) [OF False]] loops_left_enter [of p "Iterations pst" i] unfolding next_facts(1) by linarith
    qed
    then show ?thesis
      by (intro 1) auto
  qed
  then show ?case
    by (subst run_plan.simps) (auto simp: r split: sum.split)
qed

section \<open>Gates\<close>

text \<open>A computation that, when it succeeds, says the step has suspended.\<close>

definition only_suspends :: "('s, 'a option) io \<Rightarrow> bool" where
  "only_suspends m \<longleftrightarrow> (\<forall>st r st'. m st = (Inr r, st') \<longrightarrow> r = None)"

lemma only_suspends_intros:
  "only_suspends (retE None)" "only_suspends (failE e)" "only_suspends nil_panic"
  "(\<And>a. only_suspends (k a)) \<Longrightarrow> only_suspends (thenE m k)"
  by (auto simp: only_suspends_def nil_panic_def elim!: thenE_Inr)

lemma gates_only_suspend:
  assumes "SKind step \<notin> {StepAgent, StepCondition, StepLoop}"
  shows "only_suspends (dispatch E u step n)"
proof -
  have fanout: "only_suspends (runDelegateFanout E step)"
    unfolding runDelegateFanout_def Let_def by (auto intro!: only_suspends_intros split: option.split sum.split)
  have gate: "only_suspends (runApprovalGate E u step)"
    unfolding runApprovalGate_def by (auto intro!: only_suspends_intros split: option.split)
  have preauth: "only_suspends (runPreauth E u step)"
    unfolding runPreauth_def by (auto intro!: only_suspends_intros split: option.split)
  have input: "only_suspends (runInputRequest E step)"
    unfolding runInputRequest_def by (auto intro!: only_suspends_intros split: option.split)
  show ?thesis
    using assms fanout gate preauth input only_suspends_intros(2) by (cases "SKind step") (simp_all add: dispatch_def)
qed

definition passable :: "plan \<Rightarrow> string set" where
  "passable p = {i. \<exists>s. StepByID p i = Some s \<and> SKind s \<in> {StepAgent, StepCondition, StepLoop}}"

lemma moves_thenE_at:
  assumes "transp R" and "moves R m" and "\<And>a st1. m st = (Inr a, st1) \<Longrightarrow> R st1 (snd (k a st1))"
  shows "R st (snd (thenE m k st))"
proof -
  obtain r st1 where r: "m st = (r, st1)"
    by (rule prod.exhaust)
  have "R st st1"
    by (rule moves_Inr [OF assms(2) r])
  then show ?thesis
    using assms(3) transpD [OF assms(1), of st st1] by (auto simp: thenE_def r split: sum.split)
qed

lemma exits_exitStep:
  assumes "SID step \<in> K"
  shows "moves (exits.logs K) (exitStepAndTransition E pst step b)"
proof -
  have "moves (exits.logs K) (append_plan E (StepExited (SID step) b))" "moves (exits.logs K) (append_plan E PlanCompleted)"
    by (intro exits.logs_append; use assms in \<open>simp add: exits_outside_def\<close>)+
  then show ?thesis
    unfolding exitStepAndTransition_def Let_def complete_plan_def
    by (auto intro!: exits.logs_ops exits.logs_append_silent split: sum.split)
qed

lemma exits_enterStep: "moves (exits.logs K) (enterStep E step)"
  unfolding enterStep_def by (intro exits.logs_ops exits.logs_append) (simp add: exits_outside_def)

lemma run_step_exits:
  assumes "quiet E"
  shows "moves (exits.logs (passable p)) (run_step E p pst i)"
proof (cases "StepByID p i")
  case (Some step)
  have sid: "SID step = i"
    using StepByID_SID [OF Some] by simp
  let ?K = "passable p"
  have body: "moves (exits.logs ?K) (thenE (dispatch E u step n) (\<lambda>r. case r of None \<Rightarrow> retE (Inl pst1)
      | Some b \<Rightarrow> thenE (exitStepAndTransition E pst1 step b) (\<lambda>x. retE (Inr x))))" for u n pst1
  proof (cases "SKind step \<in> {StepAgent, StepCondition, StepLoop}")
    case True
    then have "SID step \<in> ?K"
      using Some sid by (simp add: passable_def)
    then show ?thesis
      by (auto intro!: exits.logs_ops exits.logs_dispatch [OF assms] exits_exitStep split: option.split)
  next
    case False
    show ?thesis
      unfolding moves_def
    proof (intro allI moves_thenE_at [OF exits.trans_logs exits.logs_dispatch [OF assms]])
      fix st :: "'a plan_store" and r st1
      assume "dispatch E u step n st = (Inr r, st1)"
      then have "r = None"
        using gates_only_suspend [OF False] unfolding only_suspends_def by blast
      then show "exits.logs ?K st1 (snd ((case r of None \<Rightarrow> retE (Inl pst1)
          | Some b \<Rightarrow> thenE (exitStepAndTransition E pst1 step b) (\<lambda>x. retE (Inr x))) st1))"
        by (simp add: retE_def exits.same_log)
    qed
  qed
  note turn = moves_thenE [OF exits.trans_logs exits_enterStep body]
  show ?thesis
    unfolding run_step_def Some option.case Let_def
    by (split if_split, intro conjI impI exits.logs_ops(7) exits.logs_panic)
      (split if_split, intro conjI impI exits.logs_ops(2) turn)
qed (auto simp: run_step_def intro: exits.logs_ops)

lemma run_plan_exits:
  assumes "run_plan E p pst i st = Some (r, st')" and "quiet E"
  shows "exits.logs (passable p) st st'"
  using assms(1)
proof (induction "(r, st')" rule: run_plan_induct)
  case (error pst i st)
  then show ?case
    using moves_Inr [OF run_step_exits [OF assms(2)]] by blast
next
  case (suspend pst i st)
  then show ?case
    using moves_Inr [OF run_step_exits [OF assms(2)]] by blast
next
  case (step pst i st pst1 nxt st1)
  then show ?case
    using moves_Inr [OF run_step_exits [OF assms(2)] step(2)] transpD [OF exits.trans_logs] by blast
qed (simp add: exits.same_log)

text \<open>Finishing a step records this step, whatever its kind, and then only steps that need nobody.\<close>

lemma afterStep_exits:
  assumes "afterStep E p pst step b st = Some (r, st')" and "quiet E"
  shows "\<exists>new. PlanLog st' = PlanLog st @ new \<and> exits_outside (passable p) new \<in> {[], [SID step]}"
proof -
  obtain x st2 where x: "exitStepAndTransition E pst step b st = (x, st2)" by (rule prod.exhaust)
  obtain o1 st1 where out: "plan_InTenant E (append_plan E (StepExited (SID step) b)) st = (o1, st1)" by (rule prod.exhaust)
  let ?rest = "\<lambda>_ :: uuid. let pst1 = pst\<lparr>Vars := Vars pst ++ b\<rparr> in
       case evaluateTransitions (STransitions step) (Vars pst1) of
         Inl e \<Rightarrow> failE e
       | Inr (nxt, pred) \<Rightarrow>
           thenE (plan_InTenant E (append_plan E (PlanTransition (SID step) nxt pred))) (\<lambda>_.
           thenE (if nxt = '''' then complete_plan E else retE ()) (\<lambda>_.
           retE (pst1, nxt)))"
  have "moves (exits.logs (passable p)) (append_plan E PlanCompleted)"
    by (intro exits.logs_append) (simp add: exits_outside_def)
  then have rest: "moves (exits.logs (passable p)) (?rest u)" for u
    unfolding Let_def complete_plan_def
    by (auto intro!: exits.logs_ops exits.logs_append_silent split: sum.split)
  have first: "\<exists>new. PlanLog st1 = PlanLog st @ new \<and> exits_outside (passable p) new \<in> {[], [SID step]}"
    using out
  proof (cases rule: plan_InTenant_cases)
    case (done_ u e1 s1 e2)
    from append_plan_Inr [OF done_(1)] done_(2) show ?thesis by (simp add: exits_outside_def)
  qed simp
  have "exits.logs (passable p) st1 st2"
    using x out moves_Inr [OF rest]
    by (fastforce simp: exitStepAndTransition_def thenE_def exits.same_log split: sum.splits)
  moreover have "exits.logs (passable p) st2 st'"
    using assms(1) x run_plan_exits [OF _ assms(2)]
    by (auto simp: afterStep_def exits.same_log split: sum.splits if_splits)
  ultimately have "exits.logs (passable p) st1 st'" using transpD [OF exits.trans_logs] by blast
  with first show ?thesis by (auto simp: exits.logs_def)
qed

lemma Start_plan_exits:
  assumes "Start_plan E p st = Some (r, st')" and "quiet E"
  shows "exits.logs (passable p) st st'"
proof -
  let ?open = "plan_InTenant E (thenE (append_plan E (PlanStarted (PlanID p) (PlVersion p))) (\<lambda>_. SetSessionStatus E SessionStatusRunning None))"
  obtain x st1 where x: "?open st = (x, st1)" by (rule prod.exhaust)
  have "moves (exits.logs (passable p)) ?open"
    by (intro exits.logs_ops exits.logs_append_silent) simp
  from moves_Inr [OF this x] have "exits.logs (passable p) st st1" .
  moreover have "st' = st1 \<or> run_plan E p fresh_state (StartStep p) st1 = Some (r, st')"
    using assms(1) by (simp add: Start_plan_def x split: sum.splits)
  ultimately show ?thesis
    using run_plan_exits [OF _ assms(2)] transpD [OF exits.trans_logs] by blast
qed

definition plan_passable :: "plan option \<Rightarrow> string set" where
  "plan_passable x = (case x of None \<Rightarrow> {} | Some p \<Rightarrow> passable p)"

lemma came_back_exits:
  assumes "came_back E t st (r, st')" and "quiet E"
  shows "\<exists>new. PlanLog st' = PlanLog st @ new \<and>
    exits_outside (plan_passable (pinned_plan t st)) new \<in> {[], [CurrentStep (replayed (PlanLog st))]}"
proof -
  have quiet: "\<exists>new. PlanLog st1 = PlanLog st @ new \<and> exits_outside K new = []" if "adds.logs st st1" for st1 K
    using that exits_outside_silent by (auto simp: adds.logs_def)
  from assms(1) consider "adds.logs st st'"
    | p pst0 step b st1 where "picked_up t st p pst0 step st1" "afterStep E p pst0 step b st1 = Some (r, st')"
    by (auto simp: came_back_def picked_up_def)
  then show ?thesis
  proof cases
    case 1
    then show ?thesis using quiet by blast
  next
    case (2 p pst0 step b st1)
    then have p: "plan_passable (pinned_plan t st) = passable p" and s: "SID step = CurrentStep (replayed (PlanLog st))"
      using StepByID_SID by (auto simp: picked_up_def plan_passable_def)
    from 2(1) quiet [of st1 "passable p"] afterStep_exits [OF 2(2) assms(2)] show ?thesis
      unfolding p s by (auto simp: picked_up_def)
  qed
qed

section \<open>Routing without the model\<close>

lemma rewire_basic [simp]:
  "statement (E\<lparr>xContinue := k\<rparr>) = statement E" "newUUID (E\<lparr>xContinue := k\<rparr>) = newUUID E"
  "plan_InTenant (E\<lparr>xContinue := k\<rparr>) = plan_InTenant E"
  by (simp_all add: fun_eq_iff statement_def newUUID_def plan_InTenant_def cong: option.case_cong sum.case_cong prod.case_cong)

lemma rewire_ops [simp]:
  "append_plan (E\<lparr>xContinue := k\<rparr>) = append_plan E" "SetSessionStatus (E\<lparr>xContinue := k\<rparr>) = SetSessionStatus E"
  by (simp_all add: fun_eq_iff append_plan_def SetSessionStatus_def)

lemma rewire_dispatch:
  assumes "SKind step \<noteq> StepAgent"
  shows "dispatch (E\<lparr>xContinue := k\<rparr>) u step n = dispatch E u step n"
  using assms
  by (cases "SKind step")
    (simp_all add: dispatch_def runDelegateFanout_def runApprovalGate_def runPreauth_def runInputRequest_def suspend_plan_def
      cong: option.case_cong sum.case_cong)

lemma rewire_run_step:
  assumes "\<forall>s\<in>set (Steps p). SKind s \<noteq> StepAgent"
  shows "run_step (E\<lparr>xContinue := k\<rparr>) p pst i = run_step E p pst i"
proof (cases "StepByID p i")
  case (Some step)
  then have "SKind step \<noteq> StepAgent"
    using assms StepByID_SID by blast
  then show ?thesis
    by (simp add: run_step_def Some enterStep_def exitStepAndTransition_def complete_plan_def rewire_dispatch
        cong: option.case_cong sum.case_cong if_cong)
qed (simp add: run_step_def)

lemma rewire_run_plan:
  assumes "\<forall>s\<in>set (Steps p). SKind s \<noteq> StepAgent" and "run_plan E p pst i st = Some y"
  shows "run_plan (E\<lparr>xContinue := k\<rparr>) p pst i st = Some y"
  using assms(2)
proof (induction rule: run_plan_induct)
  case (finish pst st)
  then show ?case by (subst run_plan.simps) simp
next
  case (error pst i st e st1)
  then show ?case by (subst run_plan.simps) (simp add: rewire_run_step [OF assms(1)])
next
  case (suspend pst i st pst1 st1)
  then show ?case by (subst run_plan.simps) (simp add: rewire_run_step [OF assms(1)])
next
  case (step pst i st pst1 nxt st1 y)
  then show ?case by (subst run_plan.simps) (simp add: rewire_run_step [OF assms(1)])
qed

lemma rewire_run_plan_eq:
  assumes "\<forall>s\<in>set (Steps p). SKind s \<noteq> StepAgent"
  shows "run_plan (E\<lparr>xContinue := k\<rparr>) p pst i st = run_plan E p pst i st"
proof (cases "run_plan E p pst i st")
  case (Some y)
  then show ?thesis using rewire_run_plan [OF assms] by simp
next
  case None
  have "run_plan (E\<lparr>xContinue := k\<rparr>) p pst i st = Some y \<Longrightarrow> False" for y
    using rewire_run_plan [OF assms, of "E\<lparr>xContinue := k\<rparr>" pst i st y "xContinue E"] None by simp
  then show ?thesis using None by (cases "run_plan (E\<lparr>xContinue := k\<rparr>) p pst i st") auto
qed

section \<open>Predicates\<close>

text \<open>
  A typing of the variables and the predicates that respect it: a leaf names a typed variable, an
  ordering compares numbers, and the operators are the seven known ones.
\<close>

fun well_typed :: "(string \<rightharpoonup> value_kind) \<Rightarrow> predicate \<Rightarrow> bool" where
  "well_typed kinds (Predicate op field v vs ands ors) \<longleftrightarrow>
     (case op of
        OpAnd \<Rightarrow> (\<forall>q\<in>set ands. well_typed kinds q)
      | OpOr \<Rightarrow> (\<forall>q\<in>set ors. well_typed kinds q)
      | OpOther s \<Rightarrow> False
      | OpLt \<Rightarrow> kinds field = Some KindNumber \<and> VKind v = KindNumber
      | OpGt \<Rightarrow> kinds field = Some KindNumber \<and> VKind v = KindNumber
      | _ \<Rightarrow> kinds field \<noteq> None)"

lemma eval_all_total:
  assumes "\<forall>q\<in>set qs. \<exists>b. Eval q vars = Inr b"
  shows "\<exists>b. eval_and qs vars = Inr b" and "\<exists>b. eval_or qs vars = Inr b"
  using assms by (induction qs) (auto split: bool.split)

section \<open>Example plans\<close>

definition calm_exec :: "nat exec_env" where
  "calm_exec =
     \<lparr>peNewUUID = (\<lambda>n. (n, Suc n)), peStatement = (\<lambda>n. (None, n)), peCommit = (\<lambda>n. (None, n)), peUuidString = dec_nat,
      xDecrypt = (\<lambda>_ n. (None, n)), xLoad = (\<lambda>_ n. (None, n)),
      xContinue = (\<lambda>_ n. ((None, [\<lparr>PvID = n, PvPayload = Content ''hi''\<rparr>], None), Suc n)),
      xApprovals = Some (\<lambda>_ _ _ n. ((None, [\<lparr>PvID = n, PvPayload = Elsewhere EventApprovalRequested\<rparr>]), Suc n)),
      xInputs = None, xEnvelope = (\<lambda>_ _ n. (Inr n, Suc n)), xDelegations = None\<rparr>"

lemma quiet_calm_exec: "quiet calm_exec"
  by (simp add: quiet_def calm_exec_def silent_events_def)

definition never :: predicate where
  "never = Predicate OpOr '''' (StringValue '''') [] [] []"

definition loop_step :: "string \<Rightarrow> int \<Rightarrow> transition list \<Rightarrow> step" where
  "loop_step i n ts = (condition_step i ts)\<lparr>SKind := StepLoop, SCondition := None, SLoop := Some \<lparr>MaxIterations = n, CounterVar = ''n''\<rparr>\<rparr>"

definition edge_to :: "string \<Rightarrow> transition" where
  "edge_to i = \<lparr>TTo = i, TWhen = None\<rparr>"

text \<open>Two steps that lead to each other, and a loop step beside them that is never taken.\<close>

definition endless_plan :: plan where
  "endless_plan =
     plan_of [condition_step ''a'' [\<lparr>TTo = ''l'', TWhen = Some never\<rparr>, edge_to ''b''], loop_step ''l'' 1 [edge_to ''b''],
              condition_step ''b'' [edge_to ''a'']]"

definition granted :: predicate where
  "granted = Predicate OpEq ''ok'' (StringValue ''granted'') [] [] []"

definition gate_step :: step where
  "gate_step = (condition_step ''g'' [\<lparr>TTo = ''c'', TWhen = Some granted\<rparr>])
     \<lparr>SKind := StepApprovalGate, SCondition := None, SGate := Some \<lparr>GateQuestion = ''go?'', GateResultVar = ''ok''\<rparr>\<rparr>"

definition gated_plan :: plan where
  "gated_plan = plan_of [gate_step, condition_step ''c'' []]"

definition preauth_plan :: plan where
  "preauth_plan = plan_of [(condition_step ''g'' [edge_to ''c''])
     \<lparr>SKind := StepPreauth, SCondition := None, SPreauth := Some [\<lparr>PaToolID = ''t'', PaDigest = ''d''\<rparr>]\<rparr>, condition_step ''c'' []]"

definition session_of :: "plan \<Rightarrow> nat plan_store" where
  "session_of p = \<lparr>PlanRows = [\<lparr>RPlanID = 5, RTenant = 7, RVersion = 1, RName = ''demo'', RSpec = p, RStatus = StatusEnabled,
      RPins = None, RCreatedBy = None, RSignedOffBy = None\<rparr>], PlanLog = [], SessPlan = Some (5, 1),
     SessStatus = SessionStatusQueued, SessReason = None, PSEnv = 1\<rparr>"

lemma calm_append:
  "\<exists>st'. plan_InTenant calm_exec (append_plan calm_exec payload) st = (Inr (PSEnv st), st')"
  by (simp add: append_plan_def plan_InTenant_def statement_def newUUID_def updates_def thenE_def retE_def calm_exec_def)

lemma calm_turn:
  assumes "StepByID p i = Some (condition_step i ts)" and "evaluateTransitions ts (Vars pst) = Inr (nxt, w)" and "nxt \<noteq> ''''"
  shows "\<exists>pst1 st1. run_step calm_exec p pst i st = (Inr (Inr (pst1, nxt)), st1)"
proof -
  obtain st1 where enter: "enterStep calm_exec (condition_step i ts) st = (Inr (PSEnv st), st1)"
    unfolding enterStep_def using calm_append by blast
  obtain st2 where out: "plan_InTenant calm_exec (append_plan calm_exec (StepExited i Map.empty)) st1 = (Inr (PSEnv st1), st2)"
    using calm_append by blast
  obtain st3 where "plan_InTenant calm_exec (append_plan calm_exec (PlanTransition i nxt w)) st2 = (Inr (PSEnv st2), st3)"
    using calm_append by blast
  then show ?thesis
    using assms enter out
    by (simp add: run_step_def exitStepAndTransition_def dispatch_def condition_step_def thenE_def retE_def Let_def)
qed

lemma endless_turn:
  "\<exists>pst1 st1. run_step calm_exec endless_plan pst ''a'' st = (Inr (Inr (pst1, ''b'')), st1)"
  "\<exists>pst1 st1. run_step calm_exec endless_plan pst ''b'' st = (Inr (Inr (pst1, ''a'')), st1)"
proof -
  have a: "StepByID endless_plan ''a'' = Some (condition_step ''a'' [\<lparr>TTo = ''l'', TWhen = Some never\<rparr>, edge_to ''b''])"
    and b: "StepByID endless_plan ''b'' = Some (condition_step ''b'' [edge_to ''a''])"
    by (simp_all add: endless_plan_def plan_of_def StepByID_def condition_step_def loop_step_def)
  show "\<exists>pst1 st1. run_step calm_exec endless_plan pst ''a'' st = (Inr (Inr (pst1, ''b'')), st1)"
    by (rule calm_turn [OF a, where w = None]) (simp_all add: edge_to_def never_def)
  show "\<exists>pst1 st1. run_step calm_exec endless_plan pst ''b'' st = (Inr (Inr (pst1, ''a'')), st1)"
    by (rule calm_turn [OF b, where w = None]) (simp_all add: edge_to_def)
qed

lemma endless_run: "i \<in> {''a'', ''b''} \<Longrightarrow> run_plan calm_exec endless_plan pst i st = None"
proof (rule ccontr)
  assume i: "i \<in> {''a'', ''b''}" and "run_plan calm_exec endless_plan pst i st \<noteq> None"
  then obtain y where "run_plan calm_exec endless_plan pst i st = Some y"
    by blast
  then have "i \<notin> {''a'', ''b''}"
  proof (induction rule: run_plan_induct)
    case (error pst i st e st1)
    then show ?case using endless_turn [of pst st] by auto
  next
    case (suspend pst i st pst1 st1)
    then show ?case using endless_turn [of pst st] by auto
  next
    case (step pst i st pst1 nxt st1 y)
    then show ?case using endless_turn [of pst st] by auto
  qed simp
  then show False using i by simp
qed

section \<open>The properties\<close>

text \<open>
  C37: The validator's reachability check is exact: a set of steps passes it if and only if every
  declared step can be reached from the start step along transitions.
\<close>

theorem reachability_check_is_exact:
  "validateReachability p seen = None \<longleftrightarrow> (\<forall>i\<in>fst ` set seen. (StartStep p, i) \<in> (edge seen)\<^sup>*)"
  by (rule validateReachability_iff)

theorem reachability_check_is_exact_witness:
  "\<exists>i\<in>fst ` set (plan_seen endless_plan). (StartStep endless_plan, i) \<in> (edge (plan_seen endless_plan))\<^sup>*"
proof -
  have "validateReachability endless_plan (plan_seen endless_plan) = None"
    by code_simp
  moreover have "''b'' \<in> fst ` set (plan_seen endless_plan)"
    by code_simp
  ultimately show ?thesis
    using reachability_check_is_exact [of endless_plan "plan_seen endless_plan"] by blast
qed

text \<open>
  C36: The validator's loop check refuses a plan only if some reachable cycle really has no loop
  step on it; and for a plan without loop steps it accepts if and only if no reachable step lies
  on a cycle.
\<close>

theorem loop_check_refuses_real_cycles:
  "(validateBoundedLoops p seen \<noteq> None \<longrightarrow>
      (\<exists>c. is_cycle seen c \<and> (\<forall>i\<in>set c. (StartStep p, i) \<in> (edge seen)\<^sup>*) \<and> \<not> list_ex (is_loop seen) c)) \<and>
   ((\<forall>i. \<not> is_loop seen i) \<longrightarrow>
      (validateBoundedLoops p seen = None \<longleftrightarrow> (\<forall>i. (StartStep p, i) \<in> (edge seen)\<^sup>* \<longrightarrow> (i, i) \<notin> (edge seen)\<^sup>+)))"
  using validateBoundedLoops_refuses [of p seen] validateBoundedLoops_no_loops [of seen p] by auto

definition cyclic_plan :: plan where
  "cyclic_plan = plan_of [condition_step ''a'' [edge_to ''b''], condition_step ''b'' [edge_to ''a'']]"

theorem loop_check_refuses_real_cycles_witness:
  "validateBoundedLoops cyclic_plan (plan_seen cyclic_plan) \<noteq> None \<and>
   (\<exists>c. is_cycle (plan_seen cyclic_plan) c \<and> \<not> list_ex (is_loop (plan_seen cyclic_plan)) c) \<and>
   \<not> (\<forall>i. (StartStep cyclic_plan, i) \<in> (edge (plan_seen cyclic_plan))\<^sup>* \<longrightarrow> (i, i) \<notin> (edge (plan_seen cyclic_plan))\<^sup>+)"
proof -
  have "validateBoundedLoops cyclic_plan (plan_seen cyclic_plan) \<noteq> None"
    by code_simp
  moreover have "\<forall>i. \<not> is_loop (plan_seen cyclic_plan) i"
    by (simp add: is_loop_def plan_seen_def cyclic_plan_def plan_of_def condition_step_def)
  moreover note loop_check_refuses_real_cycles [of cyclic_plan "plan_seen cyclic_plan"]
  ultimately show ?thesis by meson
qed

text \<open>
  C16: The loop check does not keep its promise for plans with loop steps: a plan can pass the whole
  validation and still have a cycle with no loop step on it, and its run then goes round that cycle
  forever. The walk checks a cycle only when it closes one on its current path, so a second way
  into a finished step is never looked at.
\<close>

theorem a_validated_plan_can_run_forever:
  "Validate endless_plan = None \<and> \<not> cycles_bounded endless_plan \<and> Start_plan calm_exec endless_plan st = None"
proof (intro conjI)
  show "Validate endless_plan = None"
    by code_simp
  have "(''a'', ''b'') \<in> edge (plan_seen endless_plan)" "(''b'', ''a'') \<in> edge (plan_seen endless_plan)"
    unfolding edge_def mem_Collect_eq prod.case by code_simp+
  then have "is_cycle (plan_seen endless_plan) [''a'', ''b'', ''a'']"
    by (simp add: is_cycle_def)
  moreover have "\<not> list_ex (is_loop (plan_seen endless_plan)) [''a'', ''b'', ''a'']"
    by code_simp
  ultimately
  show "\<not> cycles_bounded endless_plan"
    unfolding cycles_bounded_def by blast
  obtain r st1 where opened: "plan_InTenant calm_exec (thenE (append_plan calm_exec (PlanStarted (PlanID endless_plan) (PlVersion endless_plan)))
      (\<lambda>_. SetSessionStatus calm_exec SessionStatusRunning None)) st = (Inr r, st1)"
    by (simp add: append_plan_def SetSessionStatus_def plan_InTenant_def statement_def newUUID_def updates_def thenE_def retE_def calm_exec_def)
  have "StartStep endless_plan = ''a''"
    by (simp add: endless_plan_def plan_of_def condition_step_def)
  then show "Start_plan calm_exec endless_plan st = None"
    using endless_run [of "''a''" fresh_state st1] by (simp add: Start_plan_def opened)
qed

text \<open>
  C14: If every cycle of a plan goes through a loop step, every run of it ends, however the database
  and the services behave: from the start, and from wherever a suspended run is picked up.
\<close>

theorem bounded_cycles_end:
  assumes "cycles_bounded p"
  shows "(\<exists>y. Start_plan E p st = Some y) \<and> (\<exists>y. afterStep E p pst step bindings st = Some y)"
proof -
  have run: "\<exists>y. run_plan E p q i s = Some y" for q i s
    by (rule run_plan_ends [OF cycles_bounded_acyclic [OF assms]])
  then show ?thesis
    by (simp add: Start_plan_def afterStep_def split: prod.split sum.split)
qed

theorem bounded_cycles_end_witness:
  "cycles_bounded gated_plan \<and> (\<exists>y. Start_plan calm_exec gated_plan (session_of gated_plan) = Some y)"
proof -
  have "edge (plan_seen gated_plan) = {(''g'', ''c'')}"
    by (auto simp: edge_def seen_transitions_def plan_seen_def gated_plan_def plan_of_def gate_step_def condition_step_def split: if_splits)
  then have "\<not> is_cycle (plan_seen gated_plan) (x # y # zs)" for x y zs
    by (cases zs) (auto simp: is_cycle_def)
  moreover have "\<not> is_cycle seen []" "\<not> is_cycle seen [x]" for seen x
    by (simp_all add: is_cycle_def)
  ultimately have "\<not> is_cycle (plan_seen gated_plan) c" for c
    by (cases c rule: remdups_adj.cases) simp_all
  then have "cycles_bounded gated_plan"
    by (simp add: cycles_bounded_def)
  then show ?thesis
    using bounded_cycles_end [of gated_plan calm_exec "session_of gated_plan"] by blast
qed

text \<open>
  C38: Routing costs no tokens: for a plan without agent steps the whole run, its log and its outcome
  are the same whatever the model would have done.
\<close>

theorem routing_ignores_the_model:
  assumes "\<forall>s\<in>set (Steps p). SKind s \<noteq> StepAgent"
  shows "Start_plan (E\<lparr>xContinue := k\<rparr>) p st = Start_plan E p st"
  by (simp add: Start_plan_def rewire_run_plan_eq [OF assms] cong: sum.case_cong prod.case_cong)

theorem routing_ignores_the_model_witness:
  "Start_plan (calm_exec\<lparr>xContinue := (\<lambda>_ n. ((Some (Err ''no model''), [], None), n))\<rparr>) gated_plan (session_of gated_plan) =
   Start_plan calm_exec gated_plan (session_of gated_plan)"
  by (rule routing_ignores_the_model) (simp add: gated_plan_def plan_of_def gate_step_def condition_step_def)

text \<open>The step in progress when an entry point is called, which the call brings an outcome for.\<close>

fun awaited :: "plan_entry \<Rightarrow> 'e plan_store \<Rightarrow> string list" where
  "awaited (AtStart p) st = []"
| "awaited _ st = [CurrentStep (replayed (PlanLog st))]"

text \<open>
  C15: A run never passes a gate on its own: however the services and the database behave, a run from
  the start records as finished only agent, condition and loop steps of its plan. A call that picks a
  session up again, after an agent step, with a human decision or with the outcome of a fan-out, finishes at
  most one other step in addition, once, and that is the step that was in progress: no approval,
  pre-authorisation, question or fan-out the run comes to after it is recorded as finished by the call.
\<close>

theorem no_gate_is_passed_unasked:
  assumes "quiet E" and "enter_plan E en st = Some (r, st')"
  shows "\<exists>new. PlanLog st' = PlanLog st @ new \<and>
    exits_outside {i. \<exists>p s. entry_plan en st = Some p \<and> StepByID p i = Some s \<and> SKind s \<in> {StepAgent, StepCondition, StepLoop}} new
      \<in> {[], awaited en st}"
proof -
  have K: "{i. \<exists>p s. entry_plan en st = Some p \<and> StepByID p i = Some s \<and> SKind s \<in> {StepAgent, StepCondition, StepLoop}}
      = plan_passable (entry_plan en st)"
    by (auto simp: plan_passable_def passable_def split: option.split)
  have returns: ?thesis if "\<exists>y. came_back E t st (y, st')" "entry_plan en st = pinned_plan t st"
      "awaited en st = [CurrentStep (replayed (PlanLog st))]" for t
    using came_back_exits [OF _ assms(1)] that unfolding K by metis
  show ?thesis
  proof (cases en)
    case (AtStart p)
    then obtain y where "Start_plan E p st = Some (y, st')" using assms(2) by (auto elim: returning_Some)
    from Start_plan_exits [OF this assms(1)] AtStart show ?thesis unfolding K by (simp add: exits.logs_def plan_passable_def)
  next
    case (AfterAgent t session)
    then obtain y where "Resume_plan E t session st = Some (y, st')" using assms(2) by (auto elim: returning_Some)
    from AfterAgent Resume_plan_came_back [OF this assms(1)] show ?thesis by (intro returns [of t]) auto
  next
    case (AfterGate t session v)
    then obtain y where "ResumeGate E t session v st = Some (y, st')" using assms(2) by (auto elim: returning_Some)
    from AfterGate ResumeGate_came_back [OF this] show ?thesis by (intro returns [of t]) auto
  next
    case (AfterFanout t session f)
    with assms(2) ResolveFanout_came_back [of E t session f st r st'] consider "adds.logs st st'" | "\<exists>y. came_back E t st (y, st')" by auto
    then show ?thesis
    proof cases
      case 1
      then show ?thesis using exits_outside_silent by (auto simp: adds.logs_def)
    next
      case 2
      with AfterFanout show ?thesis by (intro returns [of t]) simp_all
    qed
  qed
qed

definition chain_plan :: plan where
  "chain_plan = plan_of [condition_step ''a'' [edge_to ''g''], gate_step, condition_step ''c'' []]"

definition exited :: "string \<Rightarrow> plan_event \<Rightarrow> bool" where
  "exited i ev \<longleftrightarrow> (case PvPayload ev of StepExited j b \<Rightarrow> j = i | _ \<Rightarrow> False)"

lemma exited_event: "list_ex (exited i) l \<Longrightarrow> \<exists>u b. \<lparr>PvID = u, PvPayload = StepExited i b\<rparr> \<in> set l"
proof -
  assume "list_ex (exited i) l"
  then obtain ev where "ev \<in> set l" "exited i ev"
    by (auto simp: list_ex_iff)
  then obtain b where "PvPayload ev = StepExited i b"
    by (auto simp: exited_def split: plan_payload.splits)
  then have "ev = \<lparr>PvID = PvID ev, PvPayload = StepExited i b\<rparr>"
    by simp
  with \<open>ev \<in> set l\<close> show ?thesis
    by metis
qed

lemma calm_InTenant: "plan_InTenant calm_exec work st =
  (case work st of (Inl er, st1) \<Rightarrow> (Inl er, st\<lparr>PSEnv := PSEnv st1\<rparr>) | (Inr a, st1) \<Rightarrow> (Inr a, st1))"
proof -
  have "peStatement calm_exec n = (None, n)" "peCommit calm_exec n = (None, n)" for n
    by (simp_all add: calm_exec_def)
  then show ?thesis
    by (simp add: plan_InTenant_def split: prod.split sum.split)
qed

lemma calm_append_plan: "append_plan calm_exec payload st =
    (Inr (PSEnv st), st\<lparr>PlanLog := PlanLog st @ [\<lparr>PvID = PSEnv st, PvPayload = payload\<rparr>], PSEnv := Suc (PSEnv st)\<rparr>)"
  by (simp add: append_plan_def statement_def newUUID_def updates_def thenE_def retE_def calm_exec_def)

lemma calm_SetSessionStatus: "SetSessionStatus calm_exec s r st = (Inr (), st\<lparr>SessStatus := s, SessReason := r\<rparr>)"
  by (simp add: SetSessionStatus_def statement_def updates_def thenE_def calm_exec_def)

lemma calm_statement: "statement calm_exec st = (Inr (), st)"
  by (simp add: statement_def calm_exec_def)

lemma calm_approvals:
  "xApprovals calm_exec = Some (\<lambda>_ _ _ n. ((None, [\<lparr>PvID = n, PvPayload = Elsewhere EventApprovalRequested\<rparr>]), Suc n))"
  by (simp add: calm_exec_def)

lemma calm_decrypt: "check (xDecrypt calm_exec ev) st = (Inr (), st)"
  by (simp add: check_def outside_def calm_exec_def)

lemmas calm = calm_InTenant calm_append_plan calm_SetSessionStatus calm_statement calm_approvals calm_decrypt

lemma run_plan_turn:
  "run_plan E p pst '''' st = Some (Inr pst, st)"
  "i \<noteq> '''' \<Longrightarrow> run_step E p pst i st = (Inr (Inl pst1), st1) \<Longrightarrow> run_plan E p pst i st = Some (Inr pst1, st1)"
  "i \<noteq> '''' \<Longrightarrow> run_step E p pst i st = (Inr (Inr (pst1, nxt)), st1) \<Longrightarrow> run_plan E p pst i st = run_plan E p pst1 nxt st1"
  by (subst run_plan.simps, simp)+

lemmas turn_defs = run_step_def enterStep_def dispatch_def exitStepAndTransition_def complete_plan_def runApprovalGate_def runPreauth_def
  suspend_plan_def external_def thenE_def retE_def Let_def StepByID_def plan_of_def condition_step_def gate_step_def edge_to_def

definition opened :: "plan \<Rightarrow> nat plan_store" where
  "opened p = (session_of p)\<lparr>PlanLog := [\<lparr>PvID = 1, PvPayload = PlanStarted (PlanID p) (PlVersion p)\<rparr>],
     SessStatus := SessionStatusRunning, SessReason := None, PSEnv := Suc (Suc 0)\<rparr>"

lemma calm_Start: "Start_plan calm_exec p (session_of p) = run_plan calm_exec p fresh_state (StartStep p) (opened p)"
  by (simp add: Start_plan_def calm thenE_def session_of_def opened_def)

theorem no_gate_is_passed_unasked_witness:
  "\<exists>r st'. enter_plan calm_exec (AtStart chain_plan) (session_of chain_plan) = Some (r, st') \<and>
     list_ex (exited ''a'') (PlanLog st') \<and> exits_outside (passable chain_plan) (PlanLog st') = []"
proof -
  have start: "StartStep chain_plan = ''a''"
    by (simp add: chain_plan_def plan_of_def condition_step_def)
  have a: "\<exists>pst1 u b. run_step calm_exec chain_plan pst ''a'' st =
      (Inr (Inr (pst1, ''g'')), st\<lparr>PlanLog := PlanLog st @ [\<lparr>PvID = PSEnv st, PvPayload = StepEntered ''a''\<rparr>,
        \<lparr>PvID = Suc (PSEnv st), PvPayload = StepExited ''a'' Map.empty\<rparr>,
        \<lparr>PvID = Suc (Suc (PSEnv st)), PvPayload = PlanTransition ''a'' ''g'' None\<rparr>], PSEnv := Suc (Suc (Suc (PSEnv st)))\<rparr>)" for pst st
    by (simp add: chain_plan_def turn_defs calm)
  have g: "\<exists>pst1 st1. run_step calm_exec chain_plan pst ''g'' st = (Inr (Inl pst1), st1) \<and> (\<exists>l. PlanLog st1 = PlanLog st @ l)" for pst st
    by (simp add: chain_plan_def turn_defs calm)
  obtain pst1 st1 where one: "run_step calm_exec chain_plan fresh_state ''a'' (opened chain_plan) = (Inr (Inr (pst1, ''g'')), st1)"
    and log1: "list_ex (exited ''a'') (PlanLog st1)"
    using a [of fresh_state "opened chain_plan"] by (auto simp: exited_def)
  obtain pst2 st2 where two: "run_step calm_exec chain_plan pst1 ''g'' st1 = (Inr (Inl pst2), st2)" and log2: "\<exists>l. PlanLog st2 = PlanLog st1 @ l"
    using g [of pst1 st1] by blast
  have "Start_plan calm_exec chain_plan (session_of chain_plan) = Some (Inr pst2, st2)"
    by (simp add: calm_Start start run_plan_turn(3) [OF _ one] run_plan_turn(2) [OF _ two])
  then have eq: "enter_plan calm_exec (AtStart chain_plan) (session_of chain_plan) = Some (Inr (Some pst2), st2)"
    by (simp add: returning_def)
  moreover have "list_ex (exited ''a'') (PlanLog st2)"
    using log1 log2 by auto
  moreover have "PlanLog (session_of chain_plan) = []"
    by (simp add: session_of_def)
  ultimately show ?thesis
    using no_gate_is_passed_unasked [OF quiet_calm_exec eq] by (simp add: passable_def)
qed

text \<open>
  C39: The human decision on a pre-authorisation step does not matter: the executor continues with the
  same transitions, the same log and the same variables whatever value it is handed, a denial
  included.
\<close>

theorem preauth_decision_is_ignored:
  assumes "load_plan E tenantID session st = (Inr (p, pst), st1)" and "StepByID p (CurrentStep pst) = Some step"
    and "SKind step = StepPreauth"
  shows "ResumeGate E tenantID session (StringValue ''denied'') st = ResumeGate E tenantID session (StringValue ''granted'') st"
proof -
  have "answer_gate E session v (p, pst) = answer_gate E session w (p, pst)" for v w
  proof (cases "CurrentStep pst = []")
    case False
    then show ?thesis
      using assms(2,3) by (simp add: answer_gate_def step_in_progress_def gateResultVar_def fun_eq_iff thenE_def retE_def)
  qed (simp add: answer_gate_def step_in_progress_def fun_eq_iff thenE_def failE_def)
  from this [of "StringValue ''denied''" "StringValue ''granted''"] show ?thesis
    by (simp add: ResumeGate_def finishing_def thenE_def assms(1))
qed

text \<open>A session suspended in its first step.\<close>

definition asked :: "plan \<Rightarrow> nat plan_store" where
  "asked p = (opened p)\<lparr>PlanLog := PlanLog (opened p) @ [\<lparr>PvID = 2, PvPayload = StepEntered (StartStep p)\<rparr>],
     SessStatus := SessionStatusSuspended, PSEnv := 3\<rparr>"

lemma calm_replay: "replayState calm_exec l pst st = (Inr (fold (\<lambda>ev. replay_event (PvPayload ev)) l pst), st)"
  by (induction calm_exec l pst rule: replayState.induct) (simp_all add: calm thenE_def retE_def)

lemma calm_load:
  "load_plan calm_exec 7 ''s'' (asked p) =
     (Inr (p, fresh_state\<lparr>CurrentStep := StartStep p, Iterations := (\<lambda>_. 0)(StartStep p := 1)\<rparr>), asked p)"
  by (simp add: load_plan_def Get_plan_def PlanSpec_def calm calm_replay thenE_def wrapE_def reads_def retE_def asked_def opened_def
      session_of_def row_of_def fresh_state_def)

theorem preauth_decision_is_ignored_witness:
  "ResumeGate calm_exec 7 ''s'' (StringValue ''denied'') (asked preauth_plan) =
   ResumeGate calm_exec 7 ''s'' (StringValue ''granted'') (asked preauth_plan)"
  by (rule preauth_decision_is_ignored [OF calm_load])
    (simp add: preauth_plan_def plan_of_def StepByID_def condition_step_def, simp)

text \<open>
  C13: The log is the run: when an entry point of the executor (a fresh run of a plan, the return from an
  agent step, a human decision, the outcome of a fan-out) returns from the plan without an error,
  reading the log back gives the variables and the iteration counts the run had in memory, and
  either says that the plan is complete or names the step the run is suspended in, which its plan declares:
  the plan it was started with, or the version the session is pinned to.
\<close>

theorem the_log_is_the_run:
  assumes "quiet E" and "\<And>p. en = AtStart p \<Longrightarrow> PlanLog st = [] \<and> StartStep p \<noteq> ''''"
    and "enter_plan E en st = Some (Inr (Some pst), st1)" and "replayState E (PlanLog st1) fresh_state s = (Inr back, s')"
  shows "\<exists>p. entry_plan en st = Some p \<and> stopped_at p pst back"
proof -
  have log: "back = replayed (PlanLog st1)"
    using replayState_Inr [OF assms(4)] by (simp add: replayed_def)
  have ret: "x = Some (Inr pst, st1)" if "returning x = Some (Inr (Some pst), st1)" for x :: "((err + plan_state) \<times> 'a plan_store) option"
    using that by (rule returning_Some) (auto split: sum.splits)
  have returns: ?thesis if "came_back E t st (Inr pst, st1)" "entry_plan en st = pinned_plan t st" for t
    using came_back_tracks [OF that(1) assms(1)] that(2) unfolding log by simp
  show ?thesis
  proof (cases en)
    case (AtStart p)
    with assms(2) [OF AtStart] assms(3) Start_plan_tracks [OF _ assms(1)] show ?thesis unfolding log by (auto dest!: ret)
  next
    case (AfterAgent t session)
    with assms(3) Resume_plan_came_back [OF _ assms(1)] show ?thesis by (intro returns [of t]) (auto dest!: ret)
  next
    case (AfterGate t session v)
    with assms(3) ResumeGate_came_back show ?thesis by (intro returns [of t]) (auto dest!: ret)
  next
    case (AfterFanout t session f)
    then obtain y where "came_back E t st (y, st1)" "Inr (Some pst) = (case y of Inl e \<Rightarrow> Inl e | Inr a \<Rightarrow> Inr (Some a))"
      using assms(3) ResolveFanout_came_back [of E t session f st "Inr (Some pst)" st1] by auto
    with AfterFanout show ?thesis by (intro returns [of t]) (auto split: sum.splits)
  qed
qed

definition solo_plan :: plan where
  "solo_plan = plan_of [gate_step\<lparr>STransitions := []\<rparr>]"

theorem the_log_is_the_run_witness:
  "\<exists>pst st1 pst' st3. enter_plan calm_exec (AtStart solo_plan) (session_of solo_plan) = Some (Inr (Some pst), st1) \<and>
     enter_plan calm_exec (AfterGate 7 ''s'' (StringValue ''granted'')) (asked solo_plan) = Some (Inr (Some pst'), st3) \<and>
     stopped_at solo_plan pst (replayed (PlanLog st1)) \<and> stopped_at solo_plan pst' (replayed (PlanLog st3))"
proof -
  have start: "StartStep solo_plan = ''g''"
    by (simp add: solo_plan_def plan_of_def gate_step_def condition_step_def)
  have "\<exists>pst1 st1. run_step calm_exec solo_plan pst ''g'' st = (Inr (Inl pst1), st1)" for pst st
    by (simp add: solo_plan_def turn_defs calm)
  then obtain pst st1 where one: "run_step calm_exec solo_plan fresh_state ''g'' (opened solo_plan) = (Inr (Inl pst), st1)"
    by blast
  have run: "enter_plan calm_exec (AtStart solo_plan) (session_of solo_plan) = Some (Inr (Some pst), st1)"
    by (simp add: calm_Start start run_plan_turn(2) [OF _ one] returning_def)
  have "\<exists>pst' st3. ResumeGate calm_exec 7 ''s'' (StringValue ''granted'') (asked solo_plan) = Some (Inr pst', st3)"
    unfolding ResumeGate_def finishing_def thenE_def calm_load
    by (simp add: answer_gate_def step_in_progress_def gateResultVar_def afterStep_def start, simp add: solo_plan_def afterStep_def turn_defs calm)
  then obtain pst' st3 where "ResumeGate calm_exec 7 ''s'' (StringValue ''granted'') (asked solo_plan) = Some (Inr pst', st3)"
    by blast
  then have resumed: "enter_plan calm_exec (AfterGate 7 ''s'' (StringValue ''granted'')) (asked solo_plan) = Some (Inr (Some pst'), st3)"
    by (simp add: returning_def)
  have "pinned_plan 7 (asked solo_plan) = Some solo_plan"
    using load_plan_Inr(1) [OF calm_load] .
  then have "stopped_at solo_plan pst' (replayed (PlanLog st3))"
    using the_log_is_the_run [OF quiet_calm_exec _ resumed calm_replay] by (simp add: replayed_def)
  moreover have "stopped_at solo_plan pst (replayed (PlanLog st1))"
    using the_log_is_the_run [OF quiet_calm_exec _ run calm_replay] by (simp add: replayed_def session_of_def start)
  ultimately show ?thesis using run resumed by blast
qed

text \<open>
  C40: Predicates are type safe: if every variable of a typing is bound to a value of its kind and
  the predicate respects the typing, evaluating it never fails.
\<close>

theorem well_typed_predicates_evaluate:
  assumes "\<And>x k. kinds x = Some k \<Longrightarrow> \<exists>v. vars x = Some v \<and> VKind v = k" and "well_typed kinds w"
  shows "\<exists>b. Eval w vars = Inr b"
  using assms(2)
proof (induction w)
  case (Predicate op field v vs ands ors)
  have leaf: "\<exists>x. vars field = Some x \<and> VKind x = k" if "kinds field = Some k" for k
    using assms(1) that by blast
  show ?case
  proof (cases op)
    case OpAnd
    then show ?thesis
      using Predicate eval_all_total(1) [of ands vars] by auto
  next
    case OpOr
    then show ?thesis
      using Predicate eval_all_total(2) [of ors vars] by auto
  next
    case OpLt
    then show ?thesis
      using Predicate(3) leaf by (auto simp: value_less_def)
  next
    case OpGt
    then show ?thesis
      using Predicate(3) leaf by (auto simp: value_less_def)
  next
    case (OpOther s)
    then show ?thesis using Predicate(3) by simp
  qed (use Predicate(3) leaf in auto)
qed

theorem well_typed_predicates_evaluate_witness:
  "\<exists>b. Eval granted [''ok'' \<mapsto> StringValue ''denied''] = Inr b"
  by (rule well_typed_predicates_evaluate [where kinds = "[''ok'' \<mapsto> KindString]"])
    (auto simp: granted_def StringValue_def split: if_splits)

end
