(* ===== verification/Spec2Isabelle.thy ===== *)
theory Spec2Isabelle
  imports Kernel_Theorems Rehydrate Tool_Theorems Plan_Theorems
begin

text \<open>
  A verification development for the agent runtime under \<^verbatim>\<open>src/\<close>.

  \<^bold>\<open>The program.\<close> One kernel loop (\<^verbatim>\<open>kernel/\<close>) serves every surface: it seeds a session, and turn by
  turn repairs the history, reserves budget, assembles the prompt, streams the model, appends
  what the model said to an append-only event log, runs the tools it asked for and ends or
  suspends the session. It reaches the rest of the system only through ports: the event log
  (\<^verbatim>\<open>internal/eventlog\<close>), the budget gate (\<^verbatim>\<open>internal/cost\<close>), the model provider (\<^verbatim>\<open>internal/provider\<close>),
  the tool executor (\<^verbatim>\<open>internal/tools\<close>, which asks \<^verbatim>\<open>internal/permissions\<close>) and a sealing function. Above it,
  a plan (\<^verbatim>\<open>internal/plan\<close>) drives a session through a graph of steps, of which some are kernel runs.

  \<^bold>\<open>The theories.\<close>
  \<^item> \<open>Nexus_Prelude\<close>: errors as values, 64-bit wrap-around, decimal text, Go's stable slice sort, and
    computations with early returns with their Hoare rules. \<open>Json_Model\<close> and \<open>Go_Codec\<close>: JSON
    values, structs read from them, their text and base64, with the round trips.
  \<^item> \<open>Event_Log\<close>: \<^verbatim>\<open>eventlog/event.go\<close>, \<^verbatim>\<open>status.go\<close>, \<^verbatim>\<open>projection.go\<close>, \<^verbatim>\<open>upcast.go\<close>, \<^verbatim>\<open>condensation.go\<close>.
  \<^item> \<open>Money\<close>, \<open>Price_Book\<close>, \<open>Cost_Counters\<close>, \<open>Cost_Ledger\<close>, \<open>Cost_Gate\<close>: \<^verbatim>\<open>internal/cost\<close>. The gate is a
    state-passing program over a ledger port and a counter port, whose contracts are locales
    interpreted on the in-memory adapters. The lemmas follow the money: a granted reservation
    is within its ceilings, a reconciled call is charged exactly its price to the ledger, to a
    budgeted session and to an armed tenant counter, a cold start recovers the spend.
  \<^item> \<open>Provider\<close>: \<^verbatim>\<open>internal/provider\<close>, failure classification, failover, routing.
  \<^item> \<open>Reliability\<close>: \<^verbatim>\<open>internal/reliability\<close>. The stuck tracker with its bounded window refines the
    detector over the whole history; backoff bounds; the circuit breaker.
  \<^item> \<open>Prompt_Ctx\<close>: \<^verbatim>\<open>internal/promptctx\<close>, prompt assembly, pruning, condensation.
  \<^item> \<open>Safety\<close>, \<open>Permissions\<close>: \<^verbatim>\<open>internal/permissions\<close>, the ten-layer chain characterised by its layers'
    outcomes.
  \<^item> \<open>Hooks\<close>: \<^verbatim>\<open>internal/hooks\<close>, the dispatcher with its cache, caps and rewrites; the relation \<open>all_heard\<close>
    says which handlers ran, on what input and in what order.
  \<^item> \<open>Go_Std\<close>: SHA-256 and the lexical path functions. \<open>Tool_Identity\<close>: references, registry, scanner,
    manifest and canonical digest of \<^verbatim>\<open>internal/tools\<close>. \<open>Tool_Pipeline\<close>: its pipeline from \<^verbatim>\<open>Execute\<close> and
    \<^verbatim>\<open>ExecuteApproved\<close> down, and the kernel adapter. A tool's call is a tree (\<open>tool_run\<close>) of what it asks
    of the pipeline's taint on its way to an answer, as the delegation and team tools do through
    \<^verbatim>\<open>FoldTaint\<close>; ghost lists record the calls of tools and these folds.
    \<open>Effect_Claims\<close>: the durable claims of \<^verbatim>\<open>internal/runctl\<close> under the table's row policy, shown to keep
    the contract \<open>claims_port\<close> of the pipeline. \<open>Tool_Theorems\<close>: what follows for calls, approvals and taint.
  \<^item> \<open>Plan_Schema\<close>: the step graph, its predicates and the validator of \<^verbatim>\<open>internal/plan\<close>, with what its
    two graph walks decide. \<open>Plan_Lifecycle\<close>: the governed life of a plan version as operations on
    the table, shown to follow a state machine. \<open>Plan_Exec\<close>: the executor's loop, the step kinds and
    the ways back from a suspension, its four entry points together as \<open>enter_plan\<close>; the locale
    \<open>log_frame\<close> carries the lemmas on what a step does to the log. \<open>Plan_Theorems\<close>: when runs end, what the log remembers, and that gates hold.
  \<^item> \<open>Kernel_Types\<close>, \<open>Hygiene\<close>, \<open>Kernel\<close>, \<open>Rehydrate\<close>: the files of \<^verbatim>\<open>kernel/\<close> of those names. The kernel is
    state passing over a record of ports and an abstract world; a ghost trace records the
    calls it makes. \<open>Inmem_Log\<close> is \<^verbatim>\<open>eventlog/inmem\<close>.
  \<^item> \<open>Kernel_Protocol\<close>, \<open>Kernel_Invariants\<close>, \<open>Kernel_Log\<close>, \<open>Kernel_Metering\<close>, \<open>Kernel_Pairing\<close>,
    \<open>Kernel_Theorems\<close>: the contract of the log port as a locale, invariants of runs as locales
    with one lemma per step of the loop, and from them the theorems about whole runs through
    any of the six entry points.

  \<^bold>\<open>Conventions.\<close> A \<^verbatim>\<open>uuid.UUID\<close> is a \<^typ>\<open>nat\<close> (zero is \<^verbatim>\<open>uuid.Nil\<close>), a Go string or byte slice a list of bytes, a
  time a number of nanoseconds. An \<^verbatim>\<open>int64\<close> that can overflow is an \<^typ>\<open>int\<close> with the wrap written out. Code
  outside the repository is an argument: clocks, encryption, the model.

  \<^bold>\<open>Bounds.\<close> Every loop of the model but one is a terminating function; the turn loop by the turn limit,
  the stream by its length. The plan loop can run forever, which is the value \<open>None\<close> of \<open>run_plan\<close>. The
  depth-first walk of the validator takes the number of transitions for fuel (\<open>walk_fuel\<close>). The JSON parser takes the length of the text for fuel, which its
  round trip shows to be enough.

  \<^bold>\<open>Not modelled.\<close> Database, Redis and HTTP adapters (their contracts are the locales) except the
  claim and plan tables, telemetry and process wiring. The approval, delegation, team, queue, audit
  and key services are transactions over database rows around these components, and are
  parameters where a component calls them.
\<close>

end
